(* ===== verification/Prelude.thy ===== *)
theory Prelude
  imports Main "HOL-Library.Word"
begin

text \<open>
  Shared ground of the development: the types that Go's integers, strings and byte slices are
  modelled by, the conversions between strings and byte slices, and the facts on lists,
  characters and words the component theories use.

  \<^item> a Go \<open>string\<close> is a HOL \<open>string\<close> (a list of 8-bit characters, so its length counts bytes, as
    Go's \<open>len\<close> does); a \<open>[]byte\<close> is a list of 8-bit words;
  \<^item> \<open>uint\<close> and \<open>uint64\<close> are 64-bit words (on the target \<open>GOARCH=wasm\<close> a \<open>uint\<close> has 64 bits);
    \<open>int64\<close> is a 64-bit word too, read as two's complement by \<open>sint\<close>.

  The collection \<open>go_simps\<close> gathers the rewrite rules for conversions; \<open>byte_arith\<close> those
  that turn words into natural numbers.
\<close>

unbundle bit_operations_syntax

named_theorems go_simps "conversions between strings, bytes and words"
named_theorems byte_arith "words as natural numbers"

type_synonym byte = "8 word"
type_synonym bytes = "8 word list"
type_synonym uint64 = "64 word"
type_synonym int64 = "64 word"

section \<open>Characters\<close>

definition char_code :: "char \<Rightarrow> nat" where
  "char_code c = of_char c"

definition is_digit :: "char \<Rightarrow> bool" where
  "is_digit c \<longleftrightarrow> 48 \<le> char_code c \<and> char_code c \<le> 57"

definition is_ascii :: "char \<Rightarrow> bool" where
  "is_ascii c \<longleftrightarrow> char_code c < 128"

definition ascii_lower :: "char \<Rightarrow> char" where
  "ascii_lower c = (if 65 \<le> char_code c \<and> char_code c \<le> 90 then char_of (char_code c + 32) else c)"

lemma char_code_less [simp]: "char_code c < 256"
  by (simp add: char_code_def)

lemma char_code_char_of [simp]: "n < 256 \<Longrightarrow> char_code (char_of n) = n"
  by (simp add: char_code_def)

lemma char_of_char_code [simp]: "char_of (char_code c) = c"
  by (simp add: char_code_def)

lemma char_code_inj: "char_code c = char_code d \<longleftrightarrow> c = d"
  by (simp add: char_code_def)

lemma ascii_lower_idem [simp]: "ascii_lower (ascii_lower c) = ascii_lower c"
  by (simp add: ascii_lower_def)

lemma is_ascii_lower [simp]: "is_ascii (ascii_lower c) = is_ascii c"
  by (simp add: ascii_lower_def is_ascii_def)

lemma ascii_lower_eq_iff:
  assumes "\<not> (97 \<le> char_code d \<and> char_code d \<le> 122)"
    and "\<not> (65 \<le> char_code d \<and> char_code d \<le> 90)"
  shows "ascii_lower c = d \<longleftrightarrow> c = d"
proof (cases "65 \<le> char_code c \<and> char_code c \<le> 90")
  case True
  then have "char_code (ascii_lower c) = char_code c + 32"
    by (simp add: ascii_lower_def)
  with True assms show ?thesis by auto
next
  case False
  then show ?thesis by (auto simp: ascii_lower_def)
qed

section \<open>Strings and byte slices\<close>

definition byte_of_char :: "char \<Rightarrow> byte" where
  "byte_of_char c = of_nat (char_code c)"

definition char_of_byte :: "byte \<Rightarrow> char" where
  "char_of_byte b = char_of (unat b)"

text \<open>The conversions \<open>[]byte(s)\<close> and \<open>string(b)\<close>.\<close>

definition bytes_of :: "string \<Rightarrow> bytes" where
  "bytes_of s = map byte_of_char s"

definition string_of :: "bytes \<Rightarrow> string" where
  "string_of bs = map char_of_byte bs"

lemma unat_byte_less [simp]: "unat (b :: byte) < 256"
  using unsigned_less [of b, where ?'a = nat] by simp

lemma unat_byte_of_char [simp, byte_arith]: "unat (byte_of_char c) = char_code c"
  by (simp add: byte_of_char_def unat_of_nat take_bit_nat_eq_self_iff)

lemma char_of_byte_of_char [simp, go_simps]: "char_of_byte (byte_of_char c) = c"
  by (simp add: char_of_byte_def)

lemma byte_of_char_of_byte [simp, go_simps]: "byte_of_char (char_of_byte b) = b"
  by (simp add: byte_of_char_def char_of_byte_def)

lemma string_of_bytes_of [simp, go_simps]: "string_of (bytes_of s) = s"
  by (simp add: string_of_def bytes_of_def comp_def)

lemma bytes_of_string_of [simp, go_simps]: "bytes_of (string_of bs) = bs"
  by (simp add: string_of_def bytes_of_def comp_def)

lemma length_bytes_of [simp]: "length (bytes_of s) = length s"
  by (simp add: bytes_of_def)

lemma length_string_of [simp]: "length (string_of bs) = length bs"
  by (simp add: string_of_def)

lemma bytes_of_append [simp]: "bytes_of (s @ t) = bytes_of s @ bytes_of t"
  by (simp add: bytes_of_def)

lemma string_of_append [simp]: "string_of (s @ t) = string_of s @ string_of t"
  by (simp add: string_of_def)

lemma bytes_of_inj [simp]: "bytes_of s = bytes_of t \<longleftrightarrow> s = t"
  by (metis string_of_bytes_of)

lemma bytes_of_Nil [simp]: "bytes_of [] = []" and string_of_Nil [simp]: "string_of [] = []"
  by (simp_all add: bytes_of_def string_of_def)

lemma bytes_of_Nil_iff [simp]: "bytes_of s = [] \<longleftrightarrow> s = []"
  by (simp add: bytes_of_def)

section \<open>Lists\<close>

lemma dropWhile_id: "(xs = [] \<or> \<not> P (hd xs)) \<Longrightarrow> dropWhile P xs = xs"
  by (cases xs) auto

lemma length_dropWhile_le' [simp]: "length (dropWhile P xs) \<le> length xs"
  by (rule length_dropWhile_le)

lemma take_append_length [simp]: "take (length xs) (xs @ ys) = xs"
  by simp

section \<open>Signed 64-bit integers\<close>

lemma sint64_bounds:
  "- (2 ^ 63) \<le> sint (w :: int64)" "sint (w :: int64) < 2 ^ 63"
  using sint_ge [of w] sint_lt [of w] by simp_all

lemma sint64_of_int:
  assumes "- (2 ^ 63) \<le> i" "i < 2 ^ 63"
  shows "sint (word_of_int i :: int64) = i"
  using assms by (simp add: sint_sbintrunc' signed_take_bit_int_eq_self)

lemma sint64_add:
  assumes "- (2 ^ 63) \<le> sint (a :: int64) + sint b" "sint a + sint b < 2 ^ 63"
  shows "sint (a + b) = sint a + sint b"
  using assms by (simp add: sint_word_ariths signed_take_bit_int_eq_self)

lemma sint64_sub:
  assumes "- (2 ^ 63) \<le> sint (a :: int64) - sint b" "sint a - sint b < 2 ^ 63"
  shows "sint (a - b) = sint a - sint b"
  using assms by (simp add: sint_word_ariths signed_take_bit_int_eq_self)

lemma sint64_mult:
  assumes "- (2 ^ 63) \<le> sint (a :: int64) * sint b" "sint a * sint b < 2 ^ 63"
  shows "sint (a * b) = sint a * sint b"
  using assms by (simp add: sint_word_ariths signed_take_bit_int_eq_self)

end
