(* ===== verification/Go_Strings.thy ===== *)
theory Go_Strings
  imports Prelude
begin

text \<open>
  The parts of Go's \<open>strings\<close> and \<open>strconv\<close> packages the program uses, on byte strings. Where
  Go returns the index \<open>-1\<close> the model returns \<open>None\<close>; where it returns an error the model
  returns \<open>None\<close>, because every caller only asks whether the error is nil.

  \<open>ToLower\<close> maps a string that has a byte outside ASCII rune by rune with Go's Unicode tables;
  that mapping is the argument \<open>ul\<close> of every definition that lowers a string.
  \<open>TrimSpace\<close> is exact on Unicode: the space characters of \<open>unicode.IsSpace\<close> are few, and a
  byte string starts (ends) with one of them exactly if it starts (ends) with its encoding.
\<close>

section \<open>Searching\<close>

fun IndexByte :: "string \<Rightarrow> char \<Rightarrow> nat option" where
  "IndexByte [] c = None"
| "IndexByte (x # xs) c = (if x = c then Some 0 else map_option Suc (IndexByte xs c))"

definition LastIndexByte :: "string \<Rightarrow> char \<Rightarrow> nat option" where
  "LastIndexByte s c = map_option (\<lambda>i. length s - 1 - i) (IndexByte (rev s) c)"

definition HasPrefix :: "string \<Rightarrow> string \<Rightarrow> bool" where
  "HasPrefix s p \<longleftrightarrow> length p \<le> length s \<and> take (length p) s = p"

definition HasSuffix :: "string \<Rightarrow> string \<Rightarrow> bool" where
  "HasSuffix s p \<longleftrightarrow> length p \<le> length s \<and> drop (length s - length p) s = p"

fun Index :: "string \<Rightarrow> string \<Rightarrow> nat option" where
  "Index [] sub = (if sub = [] then Some 0 else None)"
| "Index (x # xs) sub = (if HasPrefix (x # xs) sub then Some 0 else map_option Suc (Index xs sub))"

text \<open>\<open>strings.Cut(s, sep)\<close> and \<open>strings.Split(s, sep)\<close> for a separator of one byte.\<close>

definition Cut :: "string \<Rightarrow> char \<Rightarrow> string \<times> string \<times> bool" where
  "Cut s c = (case IndexByte s c of
     Some i \<Rightarrow> (take i s, drop (Suc i) s, True)
   | None \<Rightarrow> (s, [], False))"

fun Split :: "string \<Rightarrow> char \<Rightarrow> string list" where
  "Split [] c = [[]]"
| "Split (x # xs) c =
     (if x = c then [] # Split xs c
      else (case Split xs c of [] \<Rightarrow> [[x]] | y # ys \<Rightarrow> (x # y) # ys))"

lemma IndexByte_None [simp]: "IndexByte s c = None \<longleftrightarrow> c \<notin> set s"
  by (induction s) auto

lemma IndexByte_append_notin:
  "c \<notin> set s \<Longrightarrow> IndexByte (s @ c # t) c = Some (length s)"
  by (induction s) auto

lemma IndexByte_Some_iff:
  "IndexByte s c = Some i \<longleftrightarrow> i < length s \<and> s ! i = c \<and> c \<notin> set (take i s)"
proof (induction s arbitrary: i)
  case Nil
  then show ?case by simp
next
  case (Cons x xs)
  then show ?case by (cases i) (auto split: option.splits)
qed

lemma IndexByte_SomeD:
  assumes "IndexByte s c = Some i"
  shows "s = take i s @ c # drop (Suc i) s" and "c \<notin> set (take i s)" and "i < length s"
  using assms id_take_nth_drop [of i s] by (auto simp: IndexByte_Some_iff)

lemma LastIndexByte_None [simp]: "LastIndexByte s c = None \<longleftrightarrow> c \<notin> set s"
  by (simp add: LastIndexByte_def)

lemma LastIndexByte_append_notin:
  "c \<notin> set t \<Longrightarrow> LastIndexByte (s @ c # t) c = Some (length s)"
  by (simp add: LastIndexByte_def IndexByte_append_notin)

lemma LastIndexByte_SomeD:
  assumes "LastIndexByte s c = Some i"
  shows "s = take i s @ c # drop (Suc i) s" and "c \<notin> set (drop (Suc i) s)" and "i < length s"
proof -
  from assms obtain j where j: "IndexByte (rev s) c = Some j" and i: "i = length s - 1 - j"
    by (auto simp: LastIndexByte_def)
  from IndexByte_SomeD [OF j] have jl: "j < length s" and nin: "c \<notin> set (take j (rev s))"
    by simp_all
  from j jl have "s ! i = c"
    by (simp add: IndexByte_Some_iff rev_nth i)
  moreover from jl i show il: "i < length s" by simp
  ultimately show "s = take i s @ c # drop (Suc i) s"
    using id_take_nth_drop by metis
  from jl i have "take j (rev s) = rev (drop (Suc i) s)"
    by (simp add: take_rev Suc_diff_Suc)
  with nin show "c \<notin> set (drop (Suc i) s)" by simp
qed

lemma HasPrefix_iff: "HasPrefix s p \<longleftrightarrow> (\<exists>t. s = p @ t)"
  by (auto simp: HasPrefix_def) (metis append_take_drop_id)

lemma HasSuffix_iff: "HasSuffix s p \<longleftrightarrow> (\<exists>t. s = t @ p)"
  by (auto simp: HasSuffix_def) (metis append_take_drop_id)

lemma Cut_append:
  "c \<notin> set s \<Longrightarrow> Cut (s @ c # t) c = (s, t, True)"
  by (simp add: Cut_def IndexByte_append_notin)

lemma Cut_notin: "c \<notin> set s \<Longrightarrow> Cut s c = (s, [], False)"
  using IndexByte_None [of s c] by (simp add: Cut_def del: IndexByte_None)

lemma Cut_TrueD:
  assumes "Cut s c = (b, a, True)"
  shows "s = b @ c # a \<and> c \<notin> set b"
proof -
  from assms obtain i where i: "IndexByte s c = Some i"
    by (auto simp: Cut_def split: option.splits)
  with assms have "b = take i s" "a = drop (Suc i) s" by (auto simp: Cut_def)
  with IndexByte_SomeD [OF i] show ?thesis by simp
qed

lemma Split_notin [simp]: "c \<notin> set s \<Longrightarrow> Split s c = [s]"
  by (induction s) auto

lemma Split_append: "c \<notin> set s \<Longrightarrow> Split (s @ c # t) c = s # Split t c"
  by (induction s) auto

lemma Index_None_first: "Index s (c # p) \<noteq> None \<Longrightarrow> c \<in> set s"
  by (induction s) (auto simp: HasPrefix_iff split: if_splits)

section \<open>Trimming\<close>

definition TrimPrefix :: "string \<Rightarrow> string \<Rightarrow> string" where
  "TrimPrefix s p = (if HasPrefix s p then drop (length p) s else s)"

definition TrimSuffix :: "string \<Rightarrow> string \<Rightarrow> string" where
  "TrimSuffix s p = (if HasSuffix s p then take (length s - length p) s else s)"

text \<open>
  The UTF-8 encodings of the characters \<open>unicode.IsSpace\<close> accepts: tab, line feed, vertical
  tab, form feed, carriage return, space; U+0085, U+00A0; U+1680, U+2000 to U+200A, U+2028,
  U+2029, U+202F, U+205F, U+3000.
\<close>

definition is_space :: "char \<Rightarrow> bool" where
  "is_space c \<longleftrightarrow> char_code c \<in> {9, 10, 11, 12, 13, 32}"

definition is_space2 :: "char \<Rightarrow> char \<Rightarrow> bool" where
  "is_space2 a b \<longleftrightarrow> char_code a = 194 \<and> (char_code b = 133 \<or> char_code b = 160)"

definition is_space3 :: "char \<Rightarrow> char \<Rightarrow> char \<Rightarrow> bool" where
  "is_space3 a b c \<longleftrightarrow>
     (char_code a = 225 \<and> char_code b = 154 \<and> char_code c = 128)
   \<or> (char_code a = 226 \<and> char_code b = 128 \<and>
        (128 \<le> char_code c \<and> char_code c \<le> 138 \<or> char_code c \<in> {168, 169, 175}))
   \<or> (char_code a = 226 \<and> char_code b = 129 \<and> char_code c = 159)
   \<or> (char_code a = 227 \<and> char_code b = 128 \<and> char_code c = 128)"

fun trim_left :: "string \<Rightarrow> string" where
  "trim_left (a # b # c # s) =
     (if is_space a then trim_left (b # c # s)
      else if is_space2 a b then trim_left (c # s)
      else if is_space3 a b c then trim_left s
      else a # b # c # s)"
| "trim_left [a, b] =
     (if is_space a then trim_left [b] else if is_space2 a b then [] else [a, b])"
| "trim_left [a] = (if is_space a then [] else [a])"
| "trim_left [] = []"

text \<open>The same on the reversed string, for the right end.\<close>

fun trim_left_rev :: "string \<Rightarrow> string" where
  "trim_left_rev (a # b # c # s) =
     (if is_space a then trim_left_rev (b # c # s)
      else if is_space2 b a then trim_left_rev (c # s)
      else if is_space3 c b a then trim_left_rev s
      else a # b # c # s)"
| "trim_left_rev [a, b] =
     (if is_space a then trim_left_rev [b] else if is_space2 b a then [] else [a, b])"
| "trim_left_rev [a] = (if is_space a then [] else [a])"
| "trim_left_rev [] = []"

definition TrimSpace :: "string \<Rightarrow> string" where
  "TrimSpace s = rev (trim_left_rev (rev (trim_left s)))"

text \<open>A string that starts and ends with a visible ASCII character is its own trimming.\<close>

definition visible :: "char \<Rightarrow> bool" where
  "visible c \<longleftrightarrow> 33 \<le> char_code c \<and> char_code c \<le> 126"

lemma visible_not_space [simp]:
  assumes "visible c"
  shows "\<not> is_space c" "\<not> is_space2 c a" "\<not> is_space2 a c" "\<not> is_space3 c a b" "\<not> is_space3 b a c"
  using assms by (auto simp: visible_def is_space_def is_space2_def is_space3_def)

lemma trim_left_visible: "visible c \<Longrightarrow> trim_left (c # s) = c # s"
  by (cases "c # s" rule: trim_left.cases) auto

lemma trim_left_rev_visible: "visible c \<Longrightarrow> trim_left_rev (c # s) = c # s"
  by (cases "c # s" rule: trim_left_rev.cases) auto

lemma TrimSpace_Nil [simp]: "TrimSpace [] = []"
  by (simp add: TrimSpace_def)

lemma TrimSpace_visible_ends:
  assumes "s = [] \<or> visible (hd s) \<and> visible (last s)"
  shows "TrimSpace s = s"
proof (cases s)
  case Nil
  then show ?thesis by simp
next
  case (Cons c t)
  with assms have "visible c" and l: "visible (last s)" by auto
  then have "trim_left s = s" using Cons by (simp add: trim_left_visible)
  moreover have r: "rev s = last s # rev (butlast s)"
    using Cons append_butlast_last_id [of s] by (metis list.distinct(1) rev_eq_Cons_iff rev_rev_ident)
  moreover have "trim_left_rev (rev s) = rev s"
    using l by (simp only: r trim_left_rev_visible)
  ultimately show ?thesis by (simp add: TrimSpace_def)
qed

lemma TrimSpace_all_visible: "list_all visible s \<Longrightarrow> TrimSpace s = s"
  by (rule TrimSpace_visible_ends) (auto simp: list_all_iff)

section \<open>Case folding\<close>

definition strings_ToLower :: "(string \<Rightarrow> string) \<Rightarrow> string \<Rightarrow> string" where
  "strings_ToLower ul s = (if list_all is_ascii s then map ascii_lower s else ul s)"

lemma ToLower_idem_ascii:
  "list_all is_ascii s \<Longrightarrow> strings_ToLower ul (strings_ToLower ul s) = strings_ToLower ul s"
  by (simp add: strings_ToLower_def list.pred_map comp_def)

text \<open>
  \<open>strings.EqualFold(s, t)\<close> for an ASCII \<open>t\<close> in lower case. Beside the ASCII letters, Unicode
  simple folding equates the long s (bytes 197 191) with \<open>s\<close> and the Kelvin sign (bytes
  226 132 170) with \<open>k\<close>; no other character outside ASCII folds to an ASCII letter.
\<close>

fun EqualFold :: "string \<Rightarrow> string \<Rightarrow> bool" where
  "EqualFold s [] = (s = [])"
| "EqualFold s (d # t) =
     (case s of
        [] \<Rightarrow> False
      | c # s' \<Rightarrow>
          if ascii_lower c = d then EqualFold s' t
          else if d = CHR ''s'' \<and> 2 \<le> length s \<and> map char_code (take 2 s) = [197, 191]
            then EqualFold (drop 2 s) t
          else if d = CHR ''k'' \<and> 3 \<le> length s \<and> map char_code (take 3 s) = [226, 132, 170]
            then EqualFold (drop 3 s) t
          else False)"

section \<open>Decimal numbers\<close>

function digits_of :: "nat \<Rightarrow> string" where
  "digits_of n = (if n < 10 then [char_of (48 + n)]
                  else digits_of (n div 10) @ [char_of (48 + n mod 10)])"
  by auto
termination by (relation "measure id") auto

declare digits_of.simps [simp del]

text \<open>\<open>strconv.FormatUint(u, 10)\<close>; \<open>strconv.Itoa\<close> of a 64-bit \<open>int\<close>.\<close>

definition FormatUint :: "uint64 \<Rightarrow> string" where
  "FormatUint u = digits_of (unat u)"

definition Itoa :: "int64 \<Rightarrow> string" where
  "Itoa i = (if sint i < 0 then CHR ''-'' # digits_of (nat (- sint i)) else digits_of (nat (sint i)))"

definition digit_val :: "char \<Rightarrow> nat" where
  "digit_val c = char_code c - 48"

definition decimal_val :: "string \<Rightarrow> nat" where
  "decimal_val s = foldl (\<lambda>n c. 10 * n + digit_val c) 0 s"

text \<open>\<open>strconv.ParseUint(s, 10, bits)\<close>, for \<open>bits \<le> 64\<close>: digits only (no sign, no underscore in
  base 10), at least one of them, and a value below \<open>2 ^ bits\<close>.\<close>

definition ParseUint :: "string \<Rightarrow> nat \<Rightarrow> uint64 option" where
  "ParseUint s bits =
     (if s \<noteq> [] \<and> list_all is_digit s \<and> decimal_val s < 2 ^ bits
      then Some (of_nat (decimal_val s)) else None)"

text \<open>\<open>strconv.ParseInt(s, 10, 64)\<close>: an optional sign, then digits.\<close>

definition ParseInt :: "string \<Rightarrow> int64 option" where
  "ParseInt s =
     (let neg = (s \<noteq> [] \<and> hd s = CHR ''-'');
          sgn = (s \<noteq> [] \<and> (hd s = CHR ''-'' \<or> hd s = CHR ''+''));
          t = (if sgn then tl s else s)
      in if t \<noteq> [] \<and> list_all is_digit t
         then (let n = decimal_val t in
               if neg then (if n \<le> 2 ^ 63 then Some (- of_nat n) else None)
               else (if n < 2 ^ 63 then Some (of_nat n) else None))
         else None)"

lemma decimal_val_append [simp]:
  "decimal_val (s @ [c]) = 10 * decimal_val s + digit_val c"
  by (simp add: decimal_val_def)

lemma char_code_digit [simp]: "n < 10 \<Longrightarrow> char_code (char_of (48 + n)) = 48 + n"
  by simp

lemma digits_of_digits: "list_all is_digit (digits_of n)"
proof (induction n rule: digits_of.induct)
  case (1 n)
  have "is_digit (char_of (48 + m))" if "m < 10" for m :: nat
    using that by (simp add: is_digit_def)
  with 1 show ?case
    by (subst digits_of.simps) simp
qed

lemma digits_of_nonempty [simp]: "digits_of n \<noteq> []"
  by (subst digits_of.simps) simp

lemma decimal_val_digits_of [simp]: "decimal_val (digits_of n) = n"
proof (induction n rule: digits_of.induct)
  case (1 n)
  show ?case
  proof (cases "n < 10")
    case True
    then show ?thesis
      by (subst digits_of.simps) (simp add: decimal_val_def digit_val_def)
  next
    case False
    with 1 have "decimal_val (digits_of (n div 10)) = n div 10" by simp
    with False show ?thesis
      by (subst digits_of.simps) (simp add: digit_val_def)
  qed
qed

lemma digit_visible: "is_digit c \<Longrightarrow> visible c"
  by (simp add: is_digit_def visible_def)

lemma digits_of_visible: "list_all visible (digits_of n)"
  using digits_of_digits [of n] by (auto simp: list_all_iff digit_visible)

lemma ParseUint_digits_of:
  "n < 2 ^ bits \<Longrightarrow> ParseUint (digits_of n) bits = Some (of_nat n)"
  by (simp add: ParseUint_def digits_of_digits)

lemma ParseUint_FormatUint [simp]: "ParseUint (FormatUint u) 64 = Some u"
  using unsigned_less [of u, where ?'a = nat]
  by (simp add: FormatUint_def ParseUint_digits_of)

lemma ParseUint_bound:
  "ParseUint s bits = Some u \<Longrightarrow> bits \<le> 64 \<Longrightarrow> unat u < 2 ^ bits"
proof -
  assume p: "ParseUint s bits = Some u" and b: "bits \<le> 64"
  then have v: "decimal_val s < 2 ^ bits" and u: "u = of_nat (decimal_val s)"
    by (auto simp: ParseUint_def split: if_splits)
  have "(2::nat) ^ bits \<le> 2 ^ 64" by (rule power_increasing) (use b in simp_all)
  with v have "decimal_val s < 2 ^ 64" by linarith
  with u v show ?thesis by (simp add: unat_of_nat take_bit_nat_eq_self_iff)
qed

lemma hd_digits_of: "is_digit (hd (digits_of n))"
  using digits_of_digits [of n] digits_of_nonempty [of n]
  by (cases "digits_of n") auto

lemma is_digit_not_sign: "is_digit c \<Longrightarrow> c \<noteq> CHR ''-'' \<and> c \<noteq> CHR ''+''"
  by (auto simp: is_digit_def char_code_def)

lemma ParseInt_Itoa [simp]: "ParseInt (Itoa i) = Some i"
proof (cases "sint i < 0")
  case True
  have "nat (- sint i) \<le> 2 ^ 63" using sint64_bounds [of i] by simp
  moreover have "- of_nat (nat (- sint i)) = i"
    using True by simp
  ultimately show ?thesis
    using True by (simp add: ParseInt_def Itoa_def digits_of_digits)
next
  case False
  have "nat (sint i) < 2 ^ 63" using sint64_bounds [of i] by simp
  moreover have "of_nat (nat (sint i)) = i"
    using False by simp
  ultimately show ?thesis
    using False is_digit_not_sign [OF hd_digits_of]
    by (simp add: ParseInt_def Itoa_def digits_of_digits)
qed

end
