(* ===== verification/Go_Encoding.thy ===== *)
theory Go_Encoding
  imports Go_Strings
begin

text \<open>
  Go's \<open>encoding/base64\<close> (the unpadded URL alphabet), \<open>encoding/binary\<close> (the fixed-width
  integers the program reads and writes) and \<open>crypto/subtle.ConstantTimeCompare\<close>.

  The locale \<open>text_codec\<close> is the interface the token code relies on: an encoder into a known
  set of characters and a decoder that undoes it. It is interpreted on the base64 model.
\<close>

section \<open>The interface of a text encoding\<close>

locale text_codec =
  fixes enc :: "bytes \<Rightarrow> string"
    and dec :: "string \<Rightarrow> bytes option"
    and alphabet :: "char \<Rightarrow> bool"
  assumes dec_enc: "dec (enc bs) = Some bs"
    and enc_alphabet: "list_all alphabet (enc bs)"
    and alphabet_visible: "alphabet c \<Longrightarrow> visible c"
begin

lemma enc_inj: "enc a = enc b \<longleftrightarrow> a = b"
  by (metis dec_enc option.inject)

lemma enc_avoids: "\<not> alphabet c \<Longrightarrow> c \<notin> set (enc bs)"
  using enc_alphabet [of bs] by (auto simp: list_all_iff)

lemma enc_visible: "list_all visible (enc bs)"
  using enc_alphabet [of bs] alphabet_visible by (auto simp: list_all_iff)

lemma enc_trim: "TrimSpace (enc bs) = enc bs"
  by (rule TrimSpace_all_visible) (rule enc_visible)

text \<open>A field of encoded text followed by a separator outside the alphabet is cut exactly there.\<close>

lemma Cut_enc: "\<not> alphabet c \<Longrightarrow> Cut (enc bs @ c # t) c = (enc bs, t, True)"
  by (rule Cut_append) (rule enc_avoids)

end

section \<open>Base64, URL alphabet, no padding\<close>

definition b64_alphabet :: string where
  "b64_alphabet = ''ABCDEFGHIJKLMNOPQRSTUVWXYZabcdefghijklmnopqrstuvwxyz0123456789-_''"

definition b64_char :: "nat \<Rightarrow> char" where
  "b64_char n = b64_alphabet ! n"

definition b64_val :: "char \<Rightarrow> nat option" where
  "b64_val c = IndexByte b64_alphabet c"

definition is_b64 :: "char \<Rightarrow> bool" where
  "is_b64 c \<longleftrightarrow> c \<in> set b64_alphabet"

fun b64_encode :: "bytes \<Rightarrow> string" where
  "b64_encode (a # b # c # bs) =
     b64_char (unat a div 4) # b64_char (unat a mod 4 * 16 + unat b div 16)
     # b64_char (unat b mod 16 * 4 + unat c div 64) # b64_char (unat c mod 64) # b64_encode bs"
| "b64_encode [a, b] =
     [b64_char (unat a div 4), b64_char (unat a mod 4 * 16 + unat b div 16), b64_char (unat b mod 16 * 4)]"
| "b64_encode [a] = [b64_char (unat a div 4), b64_char (unat a mod 4 * 16)]"
| "b64_encode [] = []"

text \<open>
  Decoding as Go does it: line breaks are skipped, any other character outside the alphabet is
  an error, a final group of one character is an error, and the unused low bits of a final
  group of two or three characters are ignored (the decoder is not in strict mode).
\<close>

fun b64_groups :: "nat list \<Rightarrow> bytes option" where
  "b64_groups (p # q # r # s # ns) =
     map_option (\<lambda>bs. of_nat (p * 4 + q div 16) # of_nat (q mod 16 * 16 + r div 4)
        # of_nat (r mod 4 * 64 + s) # bs) (b64_groups ns)"
| "b64_groups [p, q, r] = Some [of_nat (p * 4 + q div 16), of_nat (q mod 16 * 16 + r div 4)]"
| "b64_groups [p, q] = Some [of_nat (p * 4 + q div 16)]"
| "b64_groups [p] = None"
| "b64_groups [] = Some []"

definition b64_decode :: "string \<Rightarrow> bytes option" where
  "b64_decode s =
     (let t = filter (\<lambda>c. c \<noteq> CHR 0x0A \<and> c \<noteq> CHR 0x0D) s in
      if list_all is_b64 t then b64_groups (map (the \<circ> b64_val) t) else None)"

lemma b64_alphabet_length [simp]: "length b64_alphabet = 64"
  by (simp add: b64_alphabet_def)

lemma b64_alphabet_distinct: "distinct b64_alphabet"
  by (simp add: b64_alphabet_def)

lemma IndexByte_nth: "distinct s \<Longrightarrow> i < length s \<Longrightarrow> IndexByte s (s ! i) = Some i"
  by (auto simp: IndexByte_Some_iff in_set_conv_nth nth_eq_iff_index_eq)

lemma b64_val_char [simp]: "n < 64 \<Longrightarrow> b64_val (b64_char n) = Some n"
  by (simp add: b64_val_def b64_char_def IndexByte_nth b64_alphabet_distinct)

lemma is_b64_char [simp]: "n < 64 \<Longrightarrow> is_b64 (b64_char n)"
  by (simp add: is_b64_def b64_char_def)

lemma is_b64_visible: "is_b64 c \<Longrightarrow> visible c"
  by (auto simp: is_b64_def b64_alphabet_def visible_def char_code_def)

lemma not_is_b64 [simp]:
  "\<not> is_b64 CHR ''.''" "\<not> is_b64 CHR '';''" "\<not> is_b64 CHR ''=''" "\<not> is_b64 CHR '' ''"
  by (simp_all add: is_b64_def b64_alphabet_def)

lemma is_b64_no_newline: "is_b64 c \<Longrightarrow> c \<noteq> CHR 0x0A \<and> c \<noteq> CHR 0x0D"
  by (auto simp: is_b64_def b64_alphabet_def)

lemma b64_bounds [simp]:
  "unat (a :: byte) div 4 < 64" "unat a mod 4 * 16 + unat (b :: byte) div 16 < 64"
  "unat b mod 16 * 4 + unat (c :: byte) div 64 < 64" "unat c mod 64 < 64"
  "unat a mod 4 * 16 < 64" "unat b mod 16 * 4 < 64"
  using unat_byte_less [of a] unat_byte_less [of b] unat_byte_less [of c] by linarith+

lemma b64_encode_is_b64: "list_all is_b64 (b64_encode bs)"
  by (induction bs rule: b64_encode.induct) simp_all

lemma sextet_parts [simp]:
  "unat (b :: byte) div 16 div 16 = 0" "unat b div 16 mod 16 = unat b div 16"
  "unat b div 64 div 4 = 0" "unat b div 64 mod 4 = unat b div 64"
  using unat_byte_less [of b] by (simp_all only: div_mult2_eq [symmetric]) (auto simp: less_mult_imp_div_less)

lemma b64_groups_encode: "b64_groups (map (the \<circ> b64_val) (b64_encode bs)) = Some bs"
  by (induction bs rule: b64_encode.induct) (simp_all del: of_nat_add of_nat_mult add: add.assoc [symmetric])

lemma filter_no_newline:
  "list_all is_b64 s \<Longrightarrow> filter (\<lambda>c. c \<noteq> CHR 0x0A \<and> c \<noteq> CHR 0x0D) s = s"
  by (induction s) (auto dest: is_b64_no_newline)

lemma b64_decode_encode [simp]: "b64_decode (b64_encode bs) = Some bs"
  using b64_encode_is_b64 [of bs]
  by (simp add: b64_decode_def filter_no_newline b64_groups_encode Let_def del: map_map)

interpretation b64: text_codec b64_encode b64_decode is_b64
  by unfold_locales (auto simp: b64_encode_is_b64 is_b64_visible)

lemma b64_encode_Nil_iff [simp]: "b64_encode bs = [] \<longleftrightarrow> bs = []"
  by (cases bs rule: b64_encode.cases) auto

section \<open>Fixed-width integers\<close>

text \<open>\<open>binary.BigEndian.PutUint64\<close> and \<open>Uint64\<close> (of the first eight bytes).\<close>

definition PutUint64_BE :: "uint64 \<Rightarrow> bytes" where
  "PutUint64_BE w = map (\<lambda>i. ucast (drop_bit (8 * i) w)) [7, 6, 5, 4, 3, 2, 1, 0]"

definition be_val :: "bytes \<Rightarrow> nat" where
  "be_val bs = foldl (\<lambda>n b. 256 * n + unat b) 0 bs"

definition le_val :: "bytes \<Rightarrow> nat" where
  "le_val bs = be_val (rev bs)"

definition Uint64_BE :: "bytes \<Rightarrow> uint64" where
  "Uint64_BE bs = of_nat (be_val (take 8 bs))"

definition Uint64_LE :: "bytes \<Rightarrow> uint64" where
  "Uint64_LE bs = of_nat (le_val (take 8 bs))"

definition Uint32_LE :: "bytes \<Rightarrow> 32 word" where
  "Uint32_LE bs = of_nat (le_val (take 4 bs))"

definition Uint16_LE :: "bytes \<Rightarrow> 16 word" where
  "Uint16_LE bs = of_nat (le_val (take 2 bs))"

lemma length_PutUint64_BE [simp]: "length (PutUint64_BE w) = 8"
  by (simp add: PutUint64_BE_def)

lemma PutUint64_BE_nonempty [simp]: "PutUint64_BE w \<noteq> []"
  by (simp add: PutUint64_BE_def)

lemma unat_ucast_drop: "unat (ucast (drop_bit k (w :: uint64)) :: byte) = unat w div 2 ^ k mod 256"
proof -
  have "unat (ucast (drop_bit k w) :: byte) = take_bit 8 (unat (drop_bit k w))"
    by (simp add: unsigned_ucast_eq)
  also have "\<dots> = take_bit 8 (drop_bit k (unat w))"
    by (simp only: unat_drop_bit_eq)
  finally show ?thesis by (simp add: take_bit_eq_mod drop_bit_eq_div)
qed

lemma be_val_append: "be_val (bs @ [b]) = 256 * be_val bs + unat b"
  by (simp add: be_val_def)

lemma byte_step: "256 * (n div (256 * m)) + n div m mod 256 = n div (m :: nat)"
  by (metis div_mult2_eq mult.commute mult_div_mod_eq)

lemma be_val_PutUint64_BE [simp]: "be_val (PutUint64_BE w) = unat w"
proof -
  define n where "n = unat w"
  have "n < 2 ^ 64" using unsigned_less [of w, where ?'a = nat] by (simp add: n_def)
  then have top: "n div 2 ^ 56 mod 256 = n div 2 ^ 56" by simp
  have "be_val (PutUint64_BE w) =
      256 * (256 * (256 * (256 * (256 * (256 * (256 * (n div 2 ^ 56 mod 256)
        + n div 2 ^ 48 mod 256) + n div 2 ^ 40 mod 256) + n div 2 ^ 32 mod 256)
        + n div 2 ^ 24 mod 256) + n div 2 ^ 16 mod 256) + n div 2 ^ 8 mod 256) + n mod 256"
    unfolding be_val_def PutUint64_BE_def n_def
    using unat_ucast_drop [of 0 w] by (simp add: unat_ucast_drop)
  also have "\<dots> = n"
    using top byte_step [of n "2 ^ 48"] byte_step [of n "2 ^ 40"] byte_step [of n "2 ^ 32"]
      byte_step [of n "2 ^ 24"] byte_step [of n "2 ^ 16"] byte_step [of n "2 ^ 8"] byte_step [of n 1]
    by simp
  finally show ?thesis by (simp add: n_def)
qed

lemma Uint64_BE_PutUint64_BE [simp]: "Uint64_BE (PutUint64_BE w @ bs) = w"
  by (simp add: Uint64_BE_def)

lemma be_val_bound: "be_val bs < 256 ^ length bs"
proof (induction bs rule: rev_induct)
  case Nil
  then show ?case by (simp add: be_val_def)
next
  case (snoc b bs)
  have "unat b < 256" by simp
  moreover from snoc have "256 * be_val bs + 256 \<le> 256 * 256 ^ length bs" by simp
  ultimately have "256 * be_val bs + unat b < 256 * 256 ^ length bs" by linarith
  then show ?case by (simp add: be_val_append)
qed

lemma be_val_Cons: "be_val (b # bs) = unat b * 256 ^ length bs + be_val bs"
proof (induction bs rule: rev_induct)
  case Nil
  then show ?case by (simp add: be_val_def)
next
  case (snoc x bs)
  have "be_val (b # bs @ [x]) = 256 * be_val (b # bs) + unat x" using be_val_append [of "b # bs" x] by simp
  then show ?case using snoc by (simp add: be_val_append)
qed

section \<open>Bits\<close>

text \<open>Bit \<open>i\<close> of a byte string, counted from the most significant bit of its first byte.\<close>

definition bit_at :: "bytes \<Rightarrow> nat \<Rightarrow> bool" where
  "bit_at h i \<longleftrightarrow> bit (h ! (i div 8)) (7 - i mod 8)"

lemma bit_be_val: "bit (be_val h) k \<longleftrightarrow> k < 8 * length h \<and> bit_at h (8 * length h - 1 - k)"
proof (induction h arbitrary: k rule: rev_induct)
  case Nil
  then show ?case by (simp add: be_val_def)
next
  case (snoc b h)
  have u: "unat b < 256" by simp
  show ?case
  proof (cases "k < 8")
    case True
    have "(256 * be_val h + unat b) div 2 ^ k = 2 ^ (8 - k) * be_val h + unat b div 2 ^ k"
    proof -
      have "(256 :: nat) = 2 ^ k * 2 ^ (8 - k)"
        using True by (simp flip: power_add)
      then show ?thesis by (simp only: mult.assoc) simp
    qed
    then have "bit (be_val (h @ [b])) k \<longleftrightarrow> bit (unat b) k"
      using True by (simp add: bit_iff_odd be_val_append)
    then have "bit (be_val (h @ [b])) k \<longleftrightarrow> bit b k"
      by (simp add: bit_unsigned_iff)
    moreover have "8 * length (h @ [b]) - 1 - k = 8 * length h + (7 - k)"
      using True by simp
    moreover have "(8 * length h + (7 - k)) div 8 = length h" "(8 * length h + (7 - k)) mod 8 = 7 - k"
      by simp_all
    ultimately show ?thesis using True by (simp add: bit_at_def nth_append)
  next
    case False
    then obtain m where m: "k = m + 8" by (metis add.commute le_Suc_ex not_less)
    have "be_val (h @ [b]) div 2 ^ k = be_val h div 2 ^ m"
    proof -
      have "be_val (h @ [b]) div 256 = be_val h" using u by (simp add: be_val_append)
      then show ?thesis by (simp add: m power_add mult.commute [of "2 ^ m"] div_mult2_eq)
    qed
    then have "bit (be_val (h @ [b])) k \<longleftrightarrow> bit (be_val h) m" by (simp add: bit_iff_odd)
    moreover have "8 * length (h @ [b]) - 1 - k = 8 * length h - 1 - m" by (simp add: m)
    ultimately show ?thesis
      using snoc [of m] by (auto simp: m bit_at_def nth_append)
  qed
qed

section \<open>Constant-time comparison\<close>

text \<open>
  \<open>subtle.ConstantTimeCompare\<close>: 0 for different lengths, else 1 exactly if the accumulated
  exclusive-or of the bytes is zero.
\<close>

definition ConstantTimeCompare :: "bytes \<Rightarrow> bytes \<Rightarrow> nat" where
  "ConstantTimeCompare x y =
     (if length x \<noteq> length y then 0
      else if foldl (\<lambda>v (a, b). v OR (a XOR b)) 0 (zip x y) = 0 then 1 else 0)"

lemma or_xor_fold_zero:
  "length x = length y \<Longrightarrow>
   foldl (\<lambda>v (a, b). v OR (a XOR b)) (v :: byte) (zip x y) = 0 \<longleftrightarrow> v = 0 \<and> x = y"
proof (induction x y arbitrary: v rule: list_induct2)
  case Nil
  then show ?case by simp
next
  case (Cons a x b y)
  have "a XOR b = 0 \<longleftrightarrow> a = b"
    by (metis bit.xor_left_self xor.right_neutral xor_self_eq)
  with Cons show ?case by (auto simp: or_eq_0_iff)
qed

lemma ConstantTimeCompare_eq [simp]: "ConstantTimeCompare x y = 1 \<longleftrightarrow> x = y"
  "ConstantTimeCompare x y = Suc 0 \<longleftrightarrow> x = y"
  by (auto simp: ConstantTimeCompare_def or_xor_fold_zero)

end
