(* ===== verification/Sha256.thy ===== *)
theory Sha256
  imports Go_Encoding
begin

text \<open>
  SHA-256 and HMAC-SHA256, executable on byte lists.

  \<open>sha256\<close> is translated from the routine of the challenge page (\<open>sha256\<close> in
  \<^verbatim>\<open>src/challenge.html\<close>), which computes the same digest as Go's \<open>crypto/sha256\<close>: the padding,
  the message schedule, the 64 rounds and the addition to the chaining state are its statements
  in its order. The verifier (\<^verbatim>\<open>crypt.go\<close>) calls \<open>sha256.Sum256\<close> for the proof of work and
  \<open>hmac.New(sha256.New, secret)\<close> for the token signatures.

  The digest object of \<open>crypto/hmac\<close> is a record with its key and the bytes written since the
  last reset. The locale \<open>keyed_mac\<close> is what the token code relies on: after a reset and one
  write the sum is a function of the key and the data alone, so one digester can be shared by
  every request of a plugin instance.
\<close>

section \<open>SHA-256\<close>

text \<open>The round constants and the initial state, in decimal.\<close>

definition K256 :: "32 word list" where
  "K256 = [1116352408, 1899447441, 3049323471, 3921009573, 961987163, 1508970993, 2453635748, 2870763221,
     3624381080, 310598401, 607225278, 1426881987, 1925078388, 2162078206, 2614888103, 3248222580,
     3835390401, 4022224774, 264347078, 604807628, 770255983, 1249150122, 1555081692, 1996064986,
     2554220882, 2821834349, 2952996808, 3210313671, 3336571891, 3584528711, 113926993, 338241895,
     666307205, 773529912, 1294757372, 1396182291, 1695183700, 1986661051, 2177026350, 2456956037,
     2730485921, 2820302411, 3259730800, 3345764771, 3516065817, 3600352804, 4094571909, 275423344,
     430227734, 506948616, 659060556, 883997877, 958139571, 1322822218, 1537002063, 1747873779,
     1955562222, 2024104815, 2227730452, 2361852424, 2428436474, 2756734187, 3204031479, 3329325298]"

definition H256 :: "32 word list" where
  "H256 = [1779033703, 3144134277, 1013904242, 2773480762, 1359893119, 2600822924, 528734635, 1541459225]"

text \<open>\<open>(x>>>n)|(x<<(32-n))\<close>\<close>

definition rotr :: "nat \<Rightarrow> 32 word \<Rightarrow> 32 word" where
  "rotr n x = drop_bit n x OR push_bit (32 - n) x"

text \<open>Padding: \<open>0x80\<close>, zeros up to 8 bytes short of a block, the length in bits in 8 bytes.\<close>

definition sha_pad :: "bytes \<Rightarrow> bytes" where
  "sha_pad d = (let l = length d; p = (64 - (l + 9) mod 64) mod 64
     in d @ [128] @ replicate p 0 @ PutUint64_BE (of_nat (l * 8)))"

fun block_words :: "bytes \<Rightarrow> 32 word list" where
  "block_words (a # b # c # d # bs) =
     (push_bit 24 (ucast a) OR push_bit 16 (ucast b) OR push_bit 8 (ucast c) OR ucast d)
     # block_words bs"
| "block_words _ = []"

text \<open>The schedule: \<open>w[j]=(w[j-16]+s0+w[j-7]+s1)|0\<close>, appended \<open>n\<close> times.\<close>

fun extend_schedule :: "nat \<Rightarrow> 32 word list \<Rightarrow> 32 word list" where
  "extend_schedule 0 w = w"
| "extend_schedule (Suc n) w =
     (let j = length w; w15 = w ! (j - 15); w2 = w ! (j - 2);
          s0 = rotr 7 w15 XOR rotr 18 w15 XOR drop_bit 3 w15;
          s1 = rotr 17 w2 XOR rotr 19 w2 XOR drop_bit 10 w2
      in extend_schedule n (w @ [w ! (j - 16) + s0 + w ! (j - 7) + s1]))"

text \<open>The rounds, over the pairs of a round constant and a schedule word.\<close>

fun sha_rounds :: "32 word list \<Rightarrow> (32 word \<times> 32 word) list \<Rightarrow> 32 word list" where
  "sha_rounds [a, b, c, d, e, f, g, h] ((k, w) # kws) =
     (let S1 = rotr 6 e XOR rotr 11 e XOR rotr 25 e;
          ch = (e AND f) XOR (NOT e AND g);
          t1 = h + S1 + ch + k + w;
          S0 = rotr 2 a XOR rotr 13 a XOR rotr 22 a;
          maj = (a AND b) XOR (a AND c) XOR (b AND c);
          t2 = S0 + maj
      in sha_rounds [t1 + t2, a, b, c, d + t1, e, f, g] kws)"
| "sha_rounds hs _ = hs"

definition sha_compress :: "32 word list \<Rightarrow> bytes \<Rightarrow> 32 word list" where
  "sha_compress h blk = map2 (+) h (sha_rounds h (zip K256 (extend_schedule 48 (block_words blk))))"

function sha_blocks :: "32 word list \<Rightarrow> bytes \<Rightarrow> 32 word list" where
  "sha_blocks h m = (if length m < 64 then h else sha_blocks (sha_compress h (take 64 m)) (drop 64 m))"
  by auto
termination by (relation "measure (\<lambda>(h, m). length m)") auto

declare sha_blocks.simps [simp del]

definition word_bytes :: "32 word \<Rightarrow> bytes" where
  "word_bytes w = [ucast (drop_bit 24 w), ucast (drop_bit 16 w), ucast (drop_bit 8 w), ucast w]"

definition sha256 :: "bytes \<Rightarrow> bytes" where
  "sha256 d = concat (map word_bytes (sha_blocks H256 (sha_pad d)))"

text \<open>The digest has 32 bytes.\<close>

lemma length_K256 [simp]: "length K256 = 64" and length_H256 [simp]: "length H256 = 8"
  by (simp_all add: K256_def H256_def)

lemma length_sha_rounds [simp]: "length (sha_rounds hs kws) = length hs"
  by (induction hs kws rule: sha_rounds.induct) (simp_all only: sha_rounds.simps Let_def list.size)

lemma length_sha_compress [simp]: "length (sha_compress h blk) = length h"
  by (simp add: sha_compress_def)

lemma length_sha_blocks [simp]: "length (sha_blocks h m) = length h"
  by (induction h m rule: sha_blocks.induct) (subst sha_blocks.simps, simp)

lemma length_concat_word_bytes [simp]: "length (concat (map word_bytes ws)) = 4 * length ws"
  by (induction ws) (simp_all add: word_bytes_def)

lemma length_sha256 [simp]: "length (sha256 d) = 32"
  by (simp add: sha256_def)

text \<open>The padded message is a whole number of blocks and has at least one.\<close>

lemma pad_to_block: "(x + (64 - x mod 64) mod 64) mod 64 = (0 :: nat)"
proof (cases "x mod 64 = 0")
  case False
  then have "(64 - x mod 64) mod 64 = 64 - x mod 64" by simp
  moreover have "x + (64 - x mod 64) = 64 * (x div 64 + 1)"
    by (simp add: minus_mod_eq_mult_div [symmetric] algebra_simps)
  ultimately show ?thesis by simp
qed simp

lemma length_sha_pad: "length (sha_pad d) mod 64 = 0" "64 \<le> length (sha_pad d)"
proof -
  have l: "length (sha_pad d) = length d + 9 + (64 - (length d + 9) mod 64) mod 64"
    by (simp add: sha_pad_def Let_def)
  show m: "length (sha_pad d) mod 64 = 0" unfolding l by (rule pad_to_block)
  have "0 < length (sha_pad d)" unfolding l by simp
  with m show "64 \<le> length (sha_pad d)" using mod_less [of "length (sha_pad d)" 64] by linarith
qed

section \<open>HMAC\<close>

text \<open>\<open>crypto/hmac\<close> over SHA-256: a key longer than a block is hashed, a shorter one padded.\<close>

definition hmac_key :: "bytes \<Rightarrow> bytes" where
  "hmac_key k = (let k' = (if length k > 64 then sha256 k else k)
                 in k' @ replicate (64 - length k') 0)"

definition hmac_sha256 :: "bytes \<Rightarrow> bytes \<Rightarrow> bytes" where
  "hmac_sha256 k d =
     sha256 (map (\<lambda>b. b XOR 92) (hmac_key k) @ sha256 (map (\<lambda>b. b XOR 54) (hmac_key k) @ d))"

lemma length_hmac_key [simp]: "length (hmac_key k) = 64"
  by (simp add: hmac_key_def Let_def)

lemma length_hmac_sha256 [simp]: "length (hmac_sha256 k d) = 32"
  by (simp add: hmac_sha256_def)

text \<open>The digester object \<open>hash.Hash\<close> that \<open>hmac.New\<close> returns.\<close>

record hmac =
  hmac_secret :: bytes
  hmac_written :: bytes

definition hmac_New :: "bytes \<Rightarrow> hmac" where
  "hmac_New secret = \<lparr>hmac_secret = secret, hmac_written = []\<rparr>"

definition mac_Reset :: "hmac \<Rightarrow> hmac" where
  "mac_Reset m = m\<lparr>hmac_written := []\<rparr>"

definition mac_Write :: "bytes \<Rightarrow> hmac \<Rightarrow> hmac" where
  "mac_Write d m = m\<lparr>hmac_written := hmac_written m @ d\<rparr>"

text \<open>\<open>Sum(b)\<close> appends the digest to \<open>b\<close> and leaves the object unchanged.\<close>

definition mac_Sum :: "hmac \<Rightarrow> bytes \<Rightarrow> bytes" where
  "mac_Sum m b = b @ hmac_sha256 (hmac_secret m) (hmac_written m)"

locale keyed_mac =
  fixes reset :: "'m \<Rightarrow> 'm"
    and mwrite :: "bytes \<Rightarrow> 'm \<Rightarrow> 'm"
    and msum :: "'m \<Rightarrow> bytes \<Rightarrow> bytes"
    and mkey :: "'m \<Rightarrow> 'k"
    and tag :: "'k \<Rightarrow> bytes \<Rightarrow> bytes"
  assumes key_reset: "mkey (reset m) = mkey m"
    and key_write: "mkey (mwrite d m) = mkey m"
    and sum_tag: "msum (mwrite d (reset m)) b = b @ tag (mkey m) d"
    and tag_length: "length (tag k d) = 32"
begin

text \<open>What was written before the reset has no influence on the tag.\<close>

lemma reuse:
  "mkey m = mkey m' \<Longrightarrow> msum (mwrite d (reset m)) b = msum (mwrite d (reset m')) b"
  by (simp add: sum_tag)

lemma key_cycle: "mkey (mwrite d (reset m)) = mkey m"
  by (simp add: key_reset key_write)

text \<open>A received signature passes the comparison exactly if it is the tag of the data.\<close>

lemma compare_tag:
  "ConstantTimeCompare (msum (mwrite d (reset m)) []) sig = 1 \<longleftrightarrow> sig = tag (mkey m) d"
  by (auto simp: sum_tag)

lemma compare_length:
  "ConstantTimeCompare (msum (mwrite d (reset m)) []) sig = 1 \<Longrightarrow> length sig = 32"
  by (auto simp: sum_tag tag_length)

end

interpretation hm: keyed_mac mac_Reset mac_Write mac_Sum hmac_secret hmac_sha256
  by unfold_locales (simp_all add: mac_Reset_def mac_Write_def mac_Sum_def)

lemmas hmac_object_simps = hm.key_reset hm.key_write hm.sum_tag hm.key_cycle

end
