(* ===== verification/Go_Json.thy ===== *)
theory Go_Json
  imports Go_Strings
begin

text \<open>
  The part of Go's \<open>encoding/json\<close> the program uses: the scanner and its grammar, the decoding
  of string literals (escapes, surrogate pairs, invalid UTF-8 replaced by U+FFFD), the encoder's
  escaping of strings, and the decoding of an object into the fields of a struct (exact names
  first, then case-insensitive ones, later members overwriting earlier ones, \<open>null\<close> leaving a
  field alone, a value of the wrong type failing the whole call).

  The value parser recurses with fuel; \<open>json_parse\<close> gives it two units for each byte of the
  input and two more, and \<open>json_fuel_enough\<close> shows that any larger amount gives the same result.
\<close>

section \<open>UTF-8\<close>

definition cont_byte :: "char \<Rightarrow> bool" where
  "cont_byte c \<longleftrightarrow> 128 \<le> char_code c \<and> char_code c \<le> 191"

text \<open>
  \<open>utf8.DecodeRune\<close>: the number of bytes of the first rune, 0 for an invalid or truncated
  encoding (where Go returns \<open>RuneError\<close> and width 1).
\<close>

definition rune_len :: "string \<Rightarrow> nat" where
  "rune_len s = (case s of
     [] \<Rightarrow> 0
   | a # t \<Rightarrow>
      (let x = char_code a in
       if x < 128 then 1
       else if 194 \<le> x \<and> x \<le> 223 then
         (case t of b # _ \<Rightarrow> if cont_byte b then 2 else 0 | _ \<Rightarrow> 0)
       else if 224 \<le> x \<and> x \<le> 239 then
         (case t of b # c # _ \<Rightarrow>
            if cont_byte b \<and> cont_byte c \<and> (x = 224 \<longrightarrow> 160 \<le> char_code b)
               \<and> (x = 237 \<longrightarrow> char_code b \<le> 159) then 3 else 0
          | _ \<Rightarrow> 0)
       else if 240 \<le> x \<and> x \<le> 244 then
         (case t of b # c # d # _ \<Rightarrow>
            if cont_byte b \<and> cont_byte c \<and> cont_byte d \<and> (x = 240 \<longrightarrow> 144 \<le> char_code b)
               \<and> (x = 244 \<longrightarrow> char_code b \<le> 143) then 4 else 0
          | _ \<Rightarrow> 0)
       else 0))"

text \<open>\<open>utf8.EncodeRune\<close> for a code point that is not a surrogate.\<close>

definition encode_rune :: "nat \<Rightarrow> string" where
  "encode_rune r =
     (if r < 128 then [char_of r]
      else if r < 2048 then map char_of [192 + r div 64, 128 + r mod 64]
      else if r < 65536 then map char_of [224 + r div 4096, 128 + r div 64 mod 64, 128 + r mod 64]
      else map char_of [240 + r div 262144, 128 + r div 4096 mod 64, 128 + r div 64 mod 64, 128 + r mod 64])"

definition rune_error :: string where
  "rune_error = map char_of [239, 191, 189 :: nat]"

section \<open>String literals\<close>

definition is_hex :: "char \<Rightarrow> bool" where
  "is_hex c \<longleftrightarrow> is_digit c \<or> (97 \<le> char_code c \<and> char_code c \<le> 102) \<or> (65 \<le> char_code c \<and> char_code c \<le> 70)"

definition hex_val :: "char \<Rightarrow> nat" where
  "hex_val c = (let x = char_code c in if x \<le> 57 then x - 48 else if x \<le> 70 then x - 55 else x - 87)"

definition hex4 :: "char \<Rightarrow> char \<Rightarrow> char \<Rightarrow> char \<Rightarrow> nat" where
  "hex4 a b c d = ((hex_val a * 16 + hex_val b) * 16 + hex_val c) * 16 + hex_val d"

text \<open>From behind the opening quote to the closing one: the raw literal and the rest of the input.\<close>

fun scan_string :: "string \<Rightarrow> (string \<times> string) option" where
  "scan_string [] = None"
| "scan_string (c # s) =
     (if c = CHR 0x22 then Some ([], s)
      else if c = CHR 0x5C then
        (case s of
           [] \<Rightarrow> None
         | e # s1 \<Rightarrow>
             if e \<in> {CHR ''b'', CHR ''f'', CHR ''n'', CHR ''r'', CHR ''t'', CHR 0x5C, CHR ''/'', CHR 0x22}
             then map_option (\<lambda>(r, t). (c # e # r, t)) (scan_string s1)
             else if e = CHR ''u'' then
               (case s1 of
                  h1 # h2 # h3 # h4 # s2 \<Rightarrow>
                    if is_hex h1 \<and> is_hex h2 \<and> is_hex h3 \<and> is_hex h4
                    then map_option (\<lambda>(r, t). (c # e # h1 # h2 # h3 # h4 # r, t)) (scan_string s2)
                    else None
                | _ \<Rightarrow> None)
             else None)
      else if char_code c < 32 then None
      else map_option (\<lambda>(r, t). (c # r, t)) (scan_string s))"

definition escape_char :: "char \<Rightarrow> char" where
  "escape_char e =
     (if e = CHR ''b'' then CHR 0x08 else if e = CHR ''f'' then CHR 0x0C
      else if e = CHR ''n'' then CHR 0x0A else if e = CHR ''r'' then CHR 0x0D
      else if e = CHR ''t'' then CHR 0x09 else e)"

text \<open>\<open>getu4\<close>: a further \<open>\u\<close> escape at the start of the input.\<close>

definition get_u4 :: "string \<Rightarrow> nat option" where
  "get_u4 s = (case s of
     p # q # a # b # c # d # _ \<Rightarrow>
       if p = CHR 0x5C \<and> q = CHR ''u'' \<and> is_hex a \<and> is_hex b \<and> is_hex c \<and> is_hex d
       then Some (hex4 a b c d) else None
   | _ \<Rightarrow> None)"

function unquote :: "string \<Rightarrow> string" where
  "unquote s = (case s of
     [] \<Rightarrow> []
   | c # t \<Rightarrow>
      if c = CHR 0x5C then
        (case t of
           [] \<Rightarrow> []
         | e # t1 \<Rightarrow>
             if e = CHR ''u'' then
               (case get_u4 s of
                  None \<Rightarrow> []
                | Some r \<Rightarrow>
                    if 55296 \<le> r \<and> r < 57344 then
                      (case get_u4 (drop 6 s) of
                         Some r1 \<Rightarrow>
                           if r < 56320 \<and> 56320 \<le> r1 \<and> r1 < 57344
                           then encode_rune ((r - 55296) * 1024 + (r1 - 56320) + 65536) @ unquote (drop 12 s)
                           else rune_error @ unquote (drop 6 s)
                       | None \<Rightarrow> rune_error @ unquote (drop 6 s))
                    else encode_rune r @ unquote (drop 6 s))
             else escape_char e # unquote t1)
      else if is_ascii c then c # unquote t
      else if rune_len s = 0 then rune_error @ unquote t
      else take (rune_len s) s @ unquote (drop (rune_len s) s))"
  by auto
termination by (relation "measure length") auto

declare unquote.simps [simp del]

section \<open>Values\<close>

datatype json = JNull | JBool bool | JNum string | JStr string
  | JArr "json list" | JObj "(string \<times> json) list"

definition json_ws :: "char \<Rightarrow> bool" where
  "json_ws c \<longleftrightarrow> char_code c \<in> {9, 10, 13, 32}"

abbreviation skip_ws :: "string \<Rightarrow> string" where
  "skip_ws \<equiv> dropWhile json_ws"

text \<open>A number literal: sign, integer part without leading zero, fraction, exponent.\<close>

definition lex_digits :: "string \<Rightarrow> (string \<times> string) option" where
  "lex_digits s = (let d = takeWhile is_digit s in
     if d = [] then None else Some (d, dropWhile is_digit s))"

definition lex_int :: "string \<Rightarrow> (string \<times> string) option" where
  "lex_int s = (case s of
     [] \<Rightarrow> None
   | c # t \<Rightarrow> if c = CHR ''0'' then Some ([c], t) else lex_digits s)"

definition lex_frac :: "string \<Rightarrow> (string \<times> string) option" where
  "lex_frac s = (case s of
     c # t \<Rightarrow> if c = CHR ''.'' then map_option (\<lambda>(d, r). (c # d, r)) (lex_digits t) else Some ([], s)
   | [] \<Rightarrow> Some ([], s))"

definition lex_exp :: "string \<Rightarrow> (string \<times> string) option" where
  "lex_exp s = (case s of
     c # t \<Rightarrow>
       if c = CHR ''e'' \<or> c = CHR ''E'' then
         (case t of
            g # t1 \<Rightarrow> if g = CHR ''+'' \<or> g = CHR ''-''
                     then map_option (\<lambda>(d, r). (c # g # d, r)) (lex_digits t1)
                     else map_option (\<lambda>(d, r). (c # d, r)) (lex_digits t)
          | [] \<Rightarrow> None)
       else Some ([], s)
   | [] \<Rightarrow> Some ([], s))"

definition lex_number :: "string \<Rightarrow> (string \<times> string) option" where
  "lex_number s =
     (let (sg, s0) = (if s \<noteq> [] \<and> hd s = CHR ''-'' then ([hd s], tl s) else ([], s)) in
      (case lex_int s0 of None \<Rightarrow> None | Some (i, s1) \<Rightarrow>
        (case lex_frac s1 of None \<Rightarrow> None | Some (f, s2) \<Rightarrow>
          (case lex_exp s2 of None \<Rightarrow> None | Some (e, s3) \<Rightarrow> Some (sg @ i @ f @ e, s3)))))"

definition strip :: "string \<Rightarrow> string \<Rightarrow> string option" where
  "strip p s = (if take (length p) s = p then Some (drop (length p) s) else None)"

text \<open>
  A value, the members of an object (behind the brace or a comma, up to and including the
  closing brace) and the elements of an array. \<open>d\<close> is the number of composite values still
  allowed to nest (Go's limit is 10000).
\<close>

fun json_value :: "nat \<Rightarrow> nat \<Rightarrow> string \<Rightarrow> (json \<times> string) option"
and json_members :: "nat \<Rightarrow> nat \<Rightarrow> string \<Rightarrow> ((string \<times> json) list \<times> string) option"
and json_elements :: "nat \<Rightarrow> nat \<Rightarrow> string \<Rightarrow> (json list \<times> string) option"
where
  "json_value 0 d s = None"
| "json_value (Suc f) d s =
     (case skip_ws s of
        [] \<Rightarrow> None
      | c # t \<Rightarrow>
          if c = CHR ''{'' then
            (if d = 0 then None
             else (case skip_ws t of
                     [] \<Rightarrow> None
                   | c1 # t1 \<Rightarrow> if c1 = CHR ''}'' then Some (JObj [], t1)
                               else map_option (\<lambda>(ms, r). (JObj ms, r)) (json_members f (d - 1) (c1 # t1))))
          else if c = CHR ''['' then
            (if d = 0 then None
             else (case skip_ws t of
                     [] \<Rightarrow> None
                   | c1 # t1 \<Rightarrow> if c1 = CHR '']'' then Some (JArr [], t1)
                               else map_option (\<lambda>(es, r). (JArr es, r)) (json_elements f (d - 1) (c1 # t1))))
          else if c = CHR 0x22 then map_option (\<lambda>(raw, r). (JStr (unquote raw), r)) (scan_string t)
          else if c = CHR ''-'' \<or> is_digit c then map_option (\<lambda>(n, r). (JNum n, r)) (lex_number (c # t))
          else if c = CHR ''t'' then map_option (Pair (JBool True)) (strip ''rue'' t)
          else if c = CHR ''f'' then map_option (Pair (JBool False)) (strip ''alse'' t)
          else if c = CHR ''n'' then map_option (Pair JNull) (strip ''ull'' t)
          else None)"
| "json_members 0 d s = None"
| "json_members (Suc f) d s =
     (case skip_ws s of
        [] \<Rightarrow> None
      | c # t \<Rightarrow>
          if c \<noteq> CHR 0x22 then None
          else (case scan_string t of None \<Rightarrow> None | Some (raw, t1) \<Rightarrow>
            (case skip_ws t1 of
               [] \<Rightarrow> None
             | c2 # t2 \<Rightarrow>
                 if c2 \<noteq> CHR '':'' then None
                 else (case json_value f d t2 of None \<Rightarrow> None | Some (v, t3) \<Rightarrow>
                   (case skip_ws t3 of
                      [] \<Rightarrow> None
                    | c4 # t4 \<Rightarrow>
                        if c4 = CHR ''}'' then Some ([(unquote raw, v)], t4)
                        else if c4 = CHR '','' then
                          map_option (\<lambda>(ms, r). ((unquote raw, v) # ms, r)) (json_members f d t4)
                        else None)))))"
| "json_elements 0 d s = None"
| "json_elements (Suc f) d s =
     (case json_value f d s of None \<Rightarrow> None | Some (v, t) \<Rightarrow>
        (case skip_ws t of
           [] \<Rightarrow> None
         | c1 # t1 \<Rightarrow>
             if c1 = CHR '']'' then Some ([v], t1)
             else if c1 = CHR '','' then map_option (\<lambda>(es, r). (v # es, r)) (json_elements f d t1)
             else None))"

definition json_fuel :: "string \<Rightarrow> nat" where
  "json_fuel s = 2 * length s + 2"

definition json_parse :: "string \<Rightarrow> json option" where
  "json_parse s = (case json_value (json_fuel s) 10000 s of
     Some (v, r) \<Rightarrow> if skip_ws r = [] then Some v else None
   | None \<Rightarrow> None)"

subsection \<open>The parser consumes input, and the fuel is enough\<close>

lemma length_skip_ws: "skip_ws s = c # t \<Longrightarrow> length t < length s"
  by (metis Suc_le_eq length_Cons length_dropWhile_le)

lemma scan_string_less: "scan_string s = Some (r, t) \<Longrightarrow> length t < length s"
proof (induction s arbitrary: r t rule: measure_induct_rule [where f = length])
  case (less s)
  have IH: "length x < length s \<longrightarrow> length t' < length x" if "scan_string x = Some (r', t')" for x r' t'
    using less.IH that by blast
  from less.prems obtain c u where "s = c # u" by (cases s) auto
  with less.prems show ?case
    by (auto split: if_splits list.splits dest!: IH)
qed

lemma lex_digits_less: "lex_digits s = Some (d, r) \<Longrightarrow> length r < length s"
proof -
  assume "lex_digits s = Some (d, r)"
  then have "takeWhile is_digit s \<noteq> []" "r = dropWhile is_digit s"
    by (auto simp: lex_digits_def Let_def split: if_splits)
  moreover have "length s = length (takeWhile is_digit s) + length (dropWhile is_digit s)"
    by (metis length_append takeWhile_dropWhile_id)
  ultimately show "length r < length s" by simp
qed

lemma lex_int_less: "lex_int s = Some (d, r) \<Longrightarrow> length r < length s"
  by (auto simp: lex_int_def split: list.splits if_splits dest: lex_digits_less)

lemma lex_frac_le: "lex_frac s = Some (d, r) \<Longrightarrow> length r \<le> length s"
  by (auto simp: lex_frac_def split: list.splits if_splits dest: lex_digits_less)

lemma lex_exp_le: "lex_exp s = Some (d, r) \<Longrightarrow> length r \<le> length s"
  by (fastforce simp: lex_exp_def split: list.splits if_splits dest: lex_digits_less)

lemma lex_number_less: "lex_number s = Some (n, r) \<Longrightarrow> length r < length s"
  by (cases s)
    (fastforce simp: lex_number_def split: if_splits option.splits prod.splits
       dest!: lex_int_less lex_frac_le lex_exp_le)+

lemma strip_le: "strip p s = Some r \<Longrightarrow> length r \<le> length s"
  by (auto simp: strip_def split: if_splits)

lemma json_consumes_all:
  "(\<forall>d s v r. json_value f d s = Some (v, r) \<longrightarrow> length r < length s)
   \<and> (\<forall>d s ms r. json_members f d s = Some (ms, r) \<longrightarrow> length r < length s)
   \<and> (\<forall>d s es r. json_elements f d s = Some (es, r) \<longrightarrow> length r < length s)"
proof (induction f)
  case 0
  then show ?case by simp
next
  case (Suc f)
  then have V: "json_value f d s = Some (v, r) \<Longrightarrow> length r < length s"
    and M: "json_members f d s = Some (ms, r) \<Longrightarrow> length r < length s"
    and E: "json_elements f d s = Some (es, r) \<Longrightarrow> length r < length s" for d s v ms es r
    by blast+
  have "length r < length s" if "json_value (Suc f) d s = Some (v, r)" for d s v r
  proof -
    from that obtain c t where ct: "skip_ws s = c # t" by (auto split: list.splits)
    have lt: "length t < length s" using ct by (rule length_skip_ws)
    show ?thesis
      using that ct lt
      by (auto split: if_splits list.splits
          dest!: length_skip_ws scan_string_less lex_number_less strip_le M E)
  qed
  moreover have "length r < length s" if "json_members (Suc f) d s = Some (ms, r)" for d s ms r
    using that
    by (auto split: if_splits list.splits option.splits dest!: length_skip_ws scan_string_less V M)
  moreover have "length r < length s" if "json_elements (Suc f) d s = Some (es, r)" for d s es r
    using that by (auto split: if_splits list.splits option.splits dest!: length_skip_ws V E)
  ultimately show ?case by blast
qed

lemma json_consumes:
  "json_value f d s = Some (v, r) \<Longrightarrow> length r < length s"
  "json_members f d s = Some (ms, r) \<Longrightarrow> length r < length s"
  "json_elements f d s = Some (es, r) \<Longrightarrow> length r < length s"
  using json_consumes_all by blast+

lemma length_skip_ws_Cons: "skip_ws s = c # t \<Longrightarrow> Suc (length t) \<le> length s"
  using length_skip_ws [of s c t] by simp

lemma json_fuel_all:
  "\<forall>f' d s. (2 * length s + 1 \<le> f \<longrightarrow> 2 * length s + 1 \<le> f' \<longrightarrow> json_value f d s = json_value f' d s)
     \<and> (2 * length s + 1 \<le> f \<longrightarrow> 2 * length s + 1 \<le> f' \<longrightarrow> json_members f d s = json_members f' d s)
     \<and> (2 * length s + 2 \<le> f \<longrightarrow> 2 * length s + 2 \<le> f' \<longrightarrow> json_elements f d s = json_elements f' d s)"
proof (induction f)
  case 0
  then show ?case by simp
next
  case (Suc f)
  have V: "2 * length s + 1 \<le> f \<Longrightarrow> 2 * length s + 1 \<le> f' \<Longrightarrow> json_value f d s = json_value f' d s"
    and M: "2 * length s + 1 \<le> f \<Longrightarrow> 2 * length s + 1 \<le> f' \<Longrightarrow> json_members f d s = json_members f' d s"
    and E: "2 * length s + 2 \<le> f \<Longrightarrow> 2 * length s + 2 \<le> f' \<Longrightarrow> json_elements f d s = json_elements f' d s"
    for f' d s using Suc.IH by blast+
  have "json_value (Suc f) d s = json_value f' d s"
    if h: "2 * length s + 1 \<le> Suc f" "2 * length s + 1 \<le> f'" for f' d s
  proof -
    obtain g where g: "f' = Suc g" using h by (cases f') auto
    have sub: "json_members f (d - 1) (c1 # t1) = json_members g (d - 1) (c1 # t1)
        \<and> json_elements f (d - 1) (c1 # t1) = json_elements g (d - 1) (c1 # t1)"
      if "skip_ws s = c # t" "skip_ws t = c1 # t1" for c t c1 t1
      using that(1,2) [THEN length_skip_ws_Cons] h g
      by (intro conjI M E) simp_all
    show ?thesis
    proof (cases "skip_ws s")
      case (Cons c t)
      then show ?thesis unfolding g using sub [OF Cons] by (cases "skip_ws t") (auto simp del: dropWhile_eq_Nil_conv)
    qed (simp add: g del: dropWhile_eq_Nil_conv)
  qed
  moreover have "json_members (Suc f) d s = json_members f' d s"
    if h: "2 * length s + 1 \<le> Suc f" "2 * length s + 1 \<le> f'" for f' d s
  proof -
    obtain g where g: "f' = Suc g" using h by (cases f') auto
    have v: "json_value f d t2 = json_value g d t2"
      if "skip_ws s = c # t" "scan_string t = Some (raw, t1)" "skip_ws t1 = c2 # t2" for c t raw t1 c2 t2
      using that(1,3) [THEN length_skip_ws_Cons] scan_string_less [OF that(2)]
        h g
      by (intro V) simp_all
    have m: "json_members f d t4 = json_members g d t4"
      if "skip_ws s = c # t" "scan_string t = Some (raw, t1)" "skip_ws t1 = c2 # t2"
        "json_value g d t2 = Some (v, t3)" "skip_ws t3 = c4 # t4" for c t raw t1 c2 t2 v t3 c4 t4
      using that(1,3,5) [THEN length_skip_ws_Cons] scan_string_less [OF that(2)]
        json_consumes(1) [OF that(4)] h g
      by (intro M) simp_all
    show ?thesis unfolding g
      by (auto split: list.split option.split simp: v m simp del: dropWhile_eq_Nil_conv)
  qed
  moreover have "json_elements (Suc f) d s = json_elements f' d s"
    if h: "2 * length s + 2 \<le> Suc f" "2 * length s + 2 \<le> f'" for f' d s
  proof -
    obtain g where g: "f' = Suc g" using h by (cases f') auto
    have "json_value f d s = json_value g d s"
      using h g by (intro V) simp_all
    moreover have "json_elements f d t1 = json_elements g d t1"
      if "json_value g d s = Some (v, t)" "skip_ws t = c1 # t1" for v t c1 t1
      using length_skip_ws_Cons [OF that(2)] json_consumes(1) [OF that(1)]
        h g
      by (intro E) simp_all
    ultimately show ?thesis unfolding g
      by (auto split: list.split option.split simp del: dropWhile_eq_Nil_conv)
  qed
  ultimately show ?case by blast
qed

theorem json_fuel_enough:
  assumes "json_fuel s \<le> f"
  shows "json_value f d s = json_value (json_fuel s) d s"
  by (rule json_fuel_all [THEN spec, THEN spec, THEN spec, THEN conjunct1, rule_format])
    (use assms in \<open>simp_all add: json_fuel_def\<close>)

section \<open>Decoding an object into a struct\<close>

text \<open>
  A struct's fields with their setters; a setter returns \<open>None\<close> for a value it cannot take
  (an \<open>UnmarshalTypeError\<close>). The result of the whole call is \<open>None\<close> on any error, because the
  callers discard what was decoded then.
\<close>

type_synonym 'r json_field = "string \<times> (json \<Rightarrow> 'r \<Rightarrow> 'r option)"

definition ascii_upper :: "char \<Rightarrow> char" where
  "ascii_upper c = (if 97 \<le> char_code c \<and> char_code c \<le> 122 then char_of (char_code c - 32) else c)"

text \<open>\<open>foldName\<close>, for comparison with an ASCII name.\<close>

function fold_name :: "string \<Rightarrow> string" where
  "fold_name s = (case s of
     [] \<Rightarrow> []
   | c # t \<Rightarrow>
      if map char_code (take 2 s) = [197, 191] then CHR ''S'' # fold_name (drop 2 s)
      else if map char_code (take 3 s) = [226, 132, 170] then CHR ''K'' # fold_name (drop 3 s)
      else ascii_upper c # fold_name t)"
  by auto
termination by (relation "measure length") auto

declare fold_name.simps [simp del]

fun folded_field :: "'r json_field list \<Rightarrow> string \<Rightarrow> (json \<Rightarrow> 'r \<Rightarrow> 'r option) option" where
  "folded_field [] k = None"
| "folded_field ((n, g) # fs) k = (if fold_name n = fold_name k then Some g else folded_field fs k)"

definition field_of :: "'r json_field list \<Rightarrow> string \<Rightarrow> (json \<Rightarrow> 'r \<Rightarrow> 'r option) option" where
  "field_of fs k = (case map_of fs k of Some g \<Rightarrow> Some g | None \<Rightarrow> folded_field fs k)"

fun decode_members :: "'r json_field list \<Rightarrow> (string \<times> json) list \<Rightarrow> 'r \<Rightarrow> 'r option" where
  "decode_members fs [] r = Some r"
| "decode_members fs ((k, v) # ms) r =
     (case field_of fs k of
        None \<Rightarrow> decode_members fs ms r
      | Some g \<Rightarrow> (case g v r of None \<Rightarrow> None | Some r' \<Rightarrow> decode_members fs ms r'))"

text \<open>\<open>json.Unmarshal(data, &r)\<close> into a struct.\<close>

definition json_Unmarshal :: "'r json_field list \<Rightarrow> string \<Rightarrow> 'r \<Rightarrow> 'r option" where
  "json_Unmarshal fs s r = (case json_parse s of
     Some JNull \<Rightarrow> Some r
   | Some (JObj ms) \<Rightarrow> decode_members fs ms r
   | _ \<Rightarrow> None)"

definition set_int64 :: "(int64 \<Rightarrow> 'r \<Rightarrow> 'r) \<Rightarrow> json \<Rightarrow> 'r \<Rightarrow> 'r option" where
  "set_int64 upd v r = (case v of
     JNull \<Rightarrow> Some r | JNum n \<Rightarrow> map_option (\<lambda>i. upd i r) (ParseInt n) | _ \<Rightarrow> None)"

definition set_uint64 :: "(uint64 \<Rightarrow> 'r \<Rightarrow> 'r) \<Rightarrow> json \<Rightarrow> 'r \<Rightarrow> 'r option" where
  "set_uint64 upd v r = (case v of
     JNull \<Rightarrow> Some r | JNum n \<Rightarrow> map_option (\<lambda>i. upd i r) (ParseUint n 64) | _ \<Rightarrow> None)"

definition set_string :: "(string \<Rightarrow> 'r \<Rightarrow> 'r) \<Rightarrow> json \<Rightarrow> 'r \<Rightarrow> 'r option" where
  "set_string upd v r = (case v of JNull \<Rightarrow> Some r | JStr s \<Rightarrow> Some (upd s r) | _ \<Rightarrow> None)"

section \<open>Encoding\<close>

definition hex_digit :: "nat \<Rightarrow> char" where
  "hex_digit n = ''0123456789abcdef'' ! n"

definition escape_ascii :: "char \<Rightarrow> string" where
  "escape_ascii c =
     (let x = char_code c in
      if x = 34 \<or> x = 92 then [CHR 0x5C, c]
      else if x = 8 then [CHR 0x5C, CHR ''b''] else if x = 12 then [CHR 0x5C, CHR ''f'']
      else if x = 10 then [CHR 0x5C, CHR ''n''] else if x = 13 then [CHR 0x5C, CHR ''r'']
      else if x = 9 then [CHR 0x5C, CHR ''t'']
      else if x < 32 \<or> x = 60 \<or> x = 62 \<or> x = 38
        then [CHR 0x5C, CHR ''u'', CHR ''0'', CHR ''0'', hex_digit (x div 16), hex_digit (x mod 16)]
      else [c])"

text \<open>\<open>appendString\<close> with HTML escaping, as \<open>json.Marshal\<close> calls it.\<close>

function json_escape :: "string \<Rightarrow> string" where
  "json_escape s = (case s of
     [] \<Rightarrow> []
   | c # t \<Rightarrow>
      if is_ascii c then escape_ascii c @ json_escape t
      else if rune_len s = 0 then CHR 0x5C # ''ufffd'' @ json_escape t
      else if map char_code (take 3 s) = [226, 128, 168] then CHR 0x5C # ''u2028'' @ json_escape (drop 3 s)
      else if map char_code (take 3 s) = [226, 128, 169] then CHR 0x5C # ''u2029'' @ json_escape (drop 3 s)
      else take (rune_len s) s @ json_escape (drop (rune_len s) s))"
  by auto
termination by (relation "measure length") auto

declare json_escape.simps [simp del]

definition json_quote :: "string \<Rightarrow> string" where
  "json_quote s = CHR 0x22 # json_escape s @ [CHR 0x22]"

text \<open>The members of a struct, from the field names and the encoded values.\<close>

fun json_fields :: "(string \<times> string) list \<Rightarrow> string" where
  "json_fields [] = ''}''"
| "json_fields [(k, v)] = json_quote k @ '':'' @ v @ ''}''"
| "json_fields ((k, v) # ms) = json_quote k @ '':'' @ v @ '','' @ json_fields ms"

definition json_object :: "(string \<times> string) list \<Rightarrow> string" where
  "json_object ms = ''{'' @ json_fields ms"

section \<open>Decoding what was encoded\<close>

text \<open>
  A plain string: visible ASCII without the characters the encoder escapes. Field names, decimal
  numbers, base64 text and printed IP addresses are plain.
\<close>

definition json_plain_char :: "char \<Rightarrow> bool" where
  "json_plain_char c \<longleftrightarrow> 32 \<le> char_code c \<and> char_code c \<le> 126 \<and> char_code c \<notin> {34, 92, 60, 62, 38}"

definition json_plain :: "string \<Rightarrow> bool" where
  "json_plain s \<longleftrightarrow> list_all json_plain_char s"

lemma json_plain_Nil [simp]: "json_plain []"
  by (simp add: json_plain_def)

lemma json_plain_append [simp]: "json_plain (s @ t) \<longleftrightarrow> json_plain s \<and> json_plain t"
  by (simp add: json_plain_def)

lemma json_plain_Cons [simp]: "json_plain (c # t) \<longleftrightarrow> json_plain_char c \<and> json_plain t"
  by (simp add: json_plain_def)

lemma json_plain_char_facts:
  assumes "json_plain_char c"
  shows "is_ascii c" "escape_ascii c = [c]" "c \<noteq> CHR 0x22" "c \<noteq> CHR 0x5C" "\<not> char_code c < 32"
  using assms by (auto simp: json_plain_char_def is_ascii_def escape_ascii_def Let_def char_code_def)

lemma json_escape_plain: "json_plain s \<Longrightarrow> json_escape s = s"
proof (induction s)
  case Nil
  then show ?case by (simp add: json_escape.simps)
next
  case (Cons c s)
  then show ?case
    by (subst json_escape.simps) (simp add: json_plain_char_facts)
qed

lemma json_quote_plain: "json_plain s \<Longrightarrow> json_quote s = CHR 0x22 # s @ [CHR 0x22]"
  by (simp add: json_quote_def json_escape_plain)

lemma scan_string_plain: "json_plain s \<Longrightarrow> scan_string (s @ CHR 0x22 # r) = Some (s, r)"
proof (induction s)
  case (Cons c s)
  then have "json_plain_char c" "scan_string (s @ CHR 0x22 # r) = Some (s, r)" by simp_all
  then show ?case using json_plain_char_facts [of c] by simp
qed simp

lemma unquote_plain: "json_plain s \<Longrightarrow> unquote s = s"
proof (induction s)
  case Nil
  then show ?case by (simp add: unquote.simps)
next
  case (Cons c s)
  then show ?case
    by (subst unquote.simps) (simp add: json_plain_char_facts)
qed

lemma digit_plain: "is_digit c \<Longrightarrow> json_plain_char c"
  by (simp add: is_digit_def json_plain_char_def)

subsection \<open>Numbers\<close>

lemma digits_of_hd_zero: "hd (digits_of n) = CHR ''0'' \<longleftrightarrow> n = 0"
proof (induction n rule: digits_of.induct)
  case (1 n)
  show ?case
  proof (cases "n < 10")
    case True
    have "char_of (48 + n) = CHR ''0'' \<longleftrightarrow> char_code (char_of (48 + n)) = char_code CHR ''0''"
      by (simp add: char_code_inj)
    with True show ?thesis
      by (subst digits_of.simps) (simp add: char_code_def)
  next
    case False
    with 1 have "hd (digits_of (n div 10)) = CHR ''0'' \<longleftrightarrow> n div 10 = 0" by simp
    with False show ?thesis by (subst digits_of.simps) simp
  qed
qed

lemma digits_of_0: "digits_of 0 = ''0''"
proof -
  have "char_code (char_of (48 :: nat)) = char_code CHR ''0''" by (simp add: char_code_def)
  then have "char_of (48 :: nat) = CHR ''0''" by (simp only: char_code_inj)
  then show ?thesis by (subst digits_of.simps) simp
qed

lemma lex_digits_append:
  assumes "list_all is_digit d" "d \<noteq> []" "\<not> is_digit c"
  shows "lex_digits (d @ c # r) = Some (d, c # r)"
proof -
  have "takeWhile is_digit (d @ c # r) = d \<and> dropWhile is_digit (d @ c # r) = c # r"
    using assms by (simp add: list_all_iff takeWhile_append dropWhile_append)
  with assms show ?thesis by (simp add: lex_digits_def)
qed

lemma lex_int_digits_of:
  assumes "\<not> is_digit c"
  shows "lex_int (digits_of n @ c # r) = Some (digits_of n, c # r)"
proof (cases "n = 0")
  case True
  then show ?thesis by (simp add: digits_of_0 lex_int_def)
next
  case False
  obtain x t where x: "digits_of n = x # t" by (cases "digits_of n") auto
  with False digits_of_hd_zero [of n] have "x \<noteq> CHR ''0''" by simp
  then have "lex_int (digits_of n @ c # r) = lex_digits (digits_of n @ c # r)"
    by (simp add: lex_int_def x)
  also have "\<dots> = Some (digits_of n, c # r)"
    using assms digits_of_digits by (intro lex_digits_append) simp_all
  finally show ?thesis .
qed

lemma lex_number_digits_of:
  assumes "c \<in> {CHR '','', CHR ''}''}"
  shows "lex_number (digits_of n @ c # r) = Some (digits_of n, c # r)"
    and "lex_number (CHR ''-'' # digits_of n @ c # r) = Some (CHR ''-'' # digits_of n, c # r)"
proof -
  have nd: "\<not> is_digit c" using assms by (auto simp: is_digit_def char_code_def)
  have fe: "lex_frac (c # r) = Some ([], c # r)" "lex_exp (c # r) = Some ([], c # r)"
    using assms by (auto simp: lex_frac_def lex_exp_def)
  have "hd (digits_of n @ c # r) \<noteq> CHR ''-''"
    using is_digit_not_sign [OF hd_digits_of [of n]] by simp
  then show "lex_number (digits_of n @ c # r) = Some (digits_of n, c # r)"
    by (simp add: lex_number_def lex_int_digits_of [OF nd] fe)
  show "lex_number (CHR ''-'' # digits_of n @ c # r) = Some (CHR ''-'' # digits_of n, c # r)"
    by (simp add: lex_number_def lex_int_digits_of [OF nd] fe)
qed

subsection \<open>Values and objects\<close>

text \<open>A piece of text that the parser reads as one value, whatever delimiter follows.\<close>

definition json_text :: "string \<Rightarrow> json \<Rightarrow> bool" where
  "json_text t v \<longleftrightarrow> (\<forall>f d c r. c \<in> {CHR '','', CHR ''}''} \<longrightarrow> json_value (Suc f) d (t @ c # r) = Some (v, c # r))"

lemma not_ws_digit: "is_digit c \<Longrightarrow> \<not> json_ws c"
  by (auto simp: is_digit_def json_ws_def)

lemma json_value_digit_start:
  assumes "c = CHR ''-'' \<or> is_digit c"
  shows "json_value (Suc f) d (c # t) = map_option (\<lambda>(n, r). (JNum n, r)) (lex_number (c # t))"
proof -
  have "\<not> json_ws c" using assms not_ws_digit by (auto simp: json_ws_def char_code_def)
  moreover have "c \<noteq> CHR ''{'' \<and> c \<noteq> CHR ''['' \<and> c \<noteq> CHR 0x22"
    using assms by (auto simp: is_digit_def char_code_def)
  ultimately show ?thesis using assms by simp
qed

lemma json_text_digits: "json_text (digits_of n) (JNum (digits_of n))"
  unfolding json_text_def
proof (intro allI impI)
  fix f d c r assume c: "c \<in> {CHR '','', CHR ''}''}"
  obtain x t where x: "digits_of n = x # t" by (cases "digits_of n") auto
  then have "is_digit x" using hd_digits_of [of n] by simp
  then show "json_value (Suc f) d (digits_of n @ c # r) = Some (JNum (digits_of n), c # r)"
    using json_value_digit_start [of x f d "t @ c # r"] lex_number_digits_of(1) [OF c, of n r]
    by (simp add: x)
qed

lemma json_text_Itoa: "json_text (Itoa i) (JNum (Itoa i))"
proof (cases "sint i < 0")
  case True
  then show ?thesis
    unfolding json_text_def Itoa_def
    using json_value_digit_start [of "CHR ''-''"] lex_number_digits_of(2)
    by (auto simp del: json_value.simps)
next
  case False
  then show ?thesis by (simp add: Itoa_def json_text_digits)
qed

lemma json_text_FormatUint: "json_text (FormatUint u) (JNum (FormatUint u))"
  by (simp add: FormatUint_def json_text_digits)

lemma json_text_quote: "json_plain s \<Longrightarrow> json_text (json_quote s) (JStr s)"
  unfolding json_text_def
  by (simp add: json_quote_plain json_ws_def char_code_def scan_string_plain unquote_plain)

lemma json_members_fields:
  assumes "list_all (\<lambda>((k, t), v). json_plain k \<and> json_text t v) (zip ms vs)"
    and "length vs = length ms" and "ms \<noteq> []" and "length ms < f"
  shows "json_members f d (json_fields ms @ r) = Some (zip (map fst ms) vs, r)"
  using assms
proof (induction ms arbitrary: vs f rule: json_fields.induct)
  case 1
  then show ?case by simp
next
  case (2 k t)
  then obtain v g where vs: "vs = [v]" and f: "f = Suc (Suc g)"
    by (cases f; cases "f - 1"; cases vs) auto
  with 2 have k: "json_plain k" and t: "json_text t v" by auto
  have "json_value (Suc g) d (t @ CHR ''}'' # r) = Some (v, CHR ''}'' # r)"
    using t by (simp add: json_text_def del: json_value.simps)
  then show ?case
    using k by (simp add: vs f json_quote_plain scan_string_plain unquote_plain json_ws_def
        char_code_def del: json_value.simps)
next
  case (3 k t m ms)
  then obtain v vs' where vs: "vs = v # vs'" by (cases vs) auto
  from 3 obtain g where f: "f = Suc (Suc g)" by (cases f; cases "f - 1") auto
  from 3 vs have k: "json_plain k" and t: "json_text t v" by auto
  have v: "json_value (Suc g) d (t @ CHR '','' # json_fields (m # ms) @ r)
      = Some (v, CHR '','' # json_fields (m # ms) @ r)"
    using t by (simp add: json_text_def del: json_value.simps)
  have "json_members (Suc g) d (json_fields (m # ms) @ r) = Some (zip (map fst (m # ms)) vs', r)"
    using 3 vs f by (intro "3.IH") auto
  with v show ?case
    using k by (simp add: vs f json_quote_plain scan_string_plain unquote_plain json_ws_def
        char_code_def del: json_value.simps json_members.simps(2)
        add: json_members.simps(2) [of "Suc g"])
qed

lemma json_fields_start: "ms \<noteq> [] \<Longrightarrow> \<exists>t. json_fields ms = CHR 0x22 # t"
  by (cases ms rule: json_fields.cases) (auto simp: json_quote_def)

lemma length_json_fields: "length ms < length (json_fields ms)"
  by (induction ms rule: json_fields.induct) (auto simp: json_quote_def)

theorem json_parse_object:
  assumes "list_all (\<lambda>((k, t), v). json_plain k \<and> json_text t v) (zip ms vs)"
    and "length vs = length ms" and "ms \<noteq> []"
  shows "json_parse (json_object ms) = Some (JObj (zip (map fst ms) vs))"
proof -
  obtain t where t: "json_fields ms = CHR 0x22 # t" using json_fields_start [OF assms(3)] ..
  have "json_members (2 * length (json_object ms) + 1) 9999 (json_fields ms @ []) = Some (zip (map fst ms) vs, [])"
    using assms length_json_fields [of ms] by (intro json_members_fields) (simp_all add: json_object_def)
  then show ?thesis
    by (simp add: json_parse_def json_fuel_def json_object_def t json_ws_def char_code_def
        del: json_members.simps)
qed

end
