(* ===== verification/Crypt.thy ===== *)
theory Crypt
  imports Sha256 Go_Json
begin

text \<open>
  Challenges, proofs of work and clearance tokens: \<^verbatim>\<open>src/crypt.go\<close>.

  \<^item> The clock is an argument: \<open>now\<close> is \<open>time.Now().Unix()\<close> at the call, in seconds, and
    \<open>now.Add(d).Unix()\<close> for a whole number of seconds \<open>d\<close> is \<open>now + d\<close>.
  \<^item> \<open>crypto/rand\<close> is an argument: \<open>rnd n\<close> is the outcome of reading \<open>n\<close> bytes, \<open>None\<close> for
    an error.
  \<^item> The digester of the plugin is passed and returned, as the code shares one object.
  \<^item> A Go \<open>error\<close> is an \<open>err option\<close> (\<open>None\<close> is nil); a pair of a value and an error is a sum.
\<close>

section \<open>Constants, identities and payloads\<close>

definition DefaultDifficulty :: uint64 where "DefaultDifficulty = 18"
definition ChallengeLifetime :: int64 where "ChallengeLifetime = 60"
definition ClearanceLifetime :: int64 where "ClearanceLifetime = 30 * 60"
definition MinSecretLen :: nat where "MinSecretLen = 32"
definition RenewalTTLMultiple :: int64 where "RenewalTTLMultiple = 6"
definition clearanceSaltLen :: nat where "clearanceSaltLen = 16"
definition clearanceFixedPrefix :: nat where "clearanceFixedPrefix = 8 + clearanceSaltLen"

definition ChallengeCookieMaxAge :: int64 where "ChallengeCookieMaxAge = ChallengeLifetime"
definition ClearanceCookieMaxAge :: int64 where "ClearanceCookieMaxAge = ClearanceLifetime"

lemmas crypt_constants = DefaultDifficulty_def ChallengeLifetime_def ClearanceLifetime_def
  MinSecretLen_def RenewalTTLMultiple_def clearanceSaltLen_def clearanceFixedPrefix_def
  ChallengeCookieMaxAge_def ClearanceCookieMaxAge_def

datatype err = ErrInvalidToken | ErrExpired | ErrBadSignature | ErrBadPoW | ErrContextMismatch
  | ErrRandom

record ClientContext =
  IP :: string
  ConnID :: string

definition ClearanceBind :: "ClientContext \<Rightarrow> string" where
  "ClearanceBind c = IP c"

definition ClientContext_String :: "ClientContext \<Rightarrow> string" where
  "ClientContext_String c =
     (if IP c = [] \<and> ConnID c = [] then []
      else if ConnID c = [] then IP c
      else if IP c = [] then ''cid='' @ ConnID c
      else IP c @ '';cid='' @ ConnID c)"

record ChallengePayload =
  Timestamp :: int64
  Expiry :: int64
  Difficulty :: uint64
  Salt :: string
  Context :: string
  CtxConnID :: string

record SignedChallenge =
  Challenge :: string
  Signature :: string

text \<open>\<open>Solution\<close> embeds \<open>SignedChallenge\<close>.\<close>

record Solution = SignedChallenge +
  Nonce :: uint64

text \<open>\<open>json.Marshal\<close> of the payload, by its struct tags (\<open>ctx\<close> and \<open>cid\<close> are \<open>omitempty\<close>).\<close>

definition payload_members :: "ChallengePayload \<Rightarrow> (string \<times> string) list" where
  "payload_members p =
     [(''ts'', Itoa (Timestamp p)), (''exp'', Itoa (Expiry p)),
      (''diff'', FormatUint (Difficulty p)), (''salt'', json_quote (Salt p))]
     @ (if Context p = [] then [] else [(''ctx'', json_quote (Context p))])
     @ (if CtxConnID p = [] then [] else [(''cid'', json_quote (CtxConnID p))])"

definition ChallengePayload_Marshal :: "ChallengePayload \<Rightarrow> string" where
  "ChallengePayload_Marshal p = json_object (payload_members p)"

definition payload_fields :: "ChallengePayload json_field list" where
  "payload_fields =
     [(''ts'', set_int64 (\<lambda>i p. p\<lparr>Timestamp := i\<rparr>)),
      (''exp'', set_int64 (\<lambda>i p. p\<lparr>Expiry := i\<rparr>)),
      (''diff'', set_uint64 (\<lambda>u p. p\<lparr>Difficulty := u\<rparr>)),
      (''salt'', set_string (\<lambda>s p. p\<lparr>Salt := s\<rparr>)),
      (''ctx'', set_string (\<lambda>s p. p\<lparr>Context := s\<rparr>)),
      (''cid'', set_string (\<lambda>s p. p\<lparr>CtxConnID := s\<rparr>))]"

definition zero_payload :: ChallengePayload where
  "zero_payload = \<lparr>Timestamp = 0, Expiry = 0, Difficulty = 0, Salt = [], Context = [], CtxConnID = []\<rparr>"

definition ChallengePayload_Unmarshal :: "string \<Rightarrow> ChallengePayload option" where
  "ChallengePayload_Unmarshal s = json_Unmarshal payload_fields s zero_payload"

definition Solution_Unmarshal :: "string \<Rightarrow> Solution option" where
  "Solution_Unmarshal s = json_Unmarshal
     [(''c'', set_string (\<lambda>v p. p\<lparr>Challenge := v\<rparr>)),
      (''s'', set_string (\<lambda>v p. p\<lparr>Signature := v\<rparr>)),
      (''n'', set_uint64 (\<lambda>u p. p\<lparr>Nonce := u\<rparr>))]
     s \<lparr>Challenge = [], Signature = [], Nonce = 0\<rparr>"

section \<open>Issuing challenges and clearances\<close>

definition randomBytes :: "(nat \<Rightarrow> bytes option) \<Rightarrow> nat \<Rightarrow> bytes option" where
  "randomBytes rnd n = rnd n"

definition generateChallengeMAC ::
  "int64 \<Rightarrow> (nat \<Rightarrow> bytes option) \<Rightarrow> hmac \<Rightarrow> bytes \<Rightarrow> uint64 \<Rightarrow> ClientContext
   \<Rightarrow> hmac \<times> (err + SignedChallenge)" where
  "generateChallengeMAC now rnd mac sumBuf difficulty client =
     (let difficulty = (if difficulty < 1 then DefaultDifficulty else difficulty);
          payload = \<lparr>Timestamp = now, Expiry = now + ChallengeLifetime, Difficulty = difficulty,
                     Salt = [], Context = IP client, CtxConnID = ConnID client\<rparr>
      in case randomBytes rnd 32 of
           None \<Rightarrow> (mac, Inl ErrRandom)
         | Some salt \<Rightarrow>
             let payload = payload\<lparr>Salt := b64_encode salt\<rparr>;
                 challenge = b64_encode (bytes_of (ChallengePayload_Marshal payload));
                 mac = mac_Write (bytes_of challenge) (mac_Reset mac);
                 sig = mac_Sum mac sumBuf
             in (mac, Inr \<lparr>Challenge = challenge, Signature = b64_encode sig\<rparr>))"

definition GenerateChallenge ::
  "int64 \<Rightarrow> (nat \<Rightarrow> bytes option) \<Rightarrow> bytes \<Rightarrow> uint64 \<Rightarrow> ClientContext \<Rightarrow> err + SignedChallenge" where
  "GenerateChallenge now rnd secret difficulty client =
     snd (generateChallengeMAC now rnd (hmac_New secret) [] difficulty client)"

text \<open>\<open>copy(raw[8:24], salt)\<close> copies at most 16 bytes into a zeroed buffer.\<close>

definition encodeClearanceBody :: "int64 \<Rightarrow> bytes \<Rightarrow> string \<Rightarrow> string" where
  "encodeClearanceBody exp salt ip =
     b64_encode (PutUint64_BE exp
       @ take clearanceSaltLen (salt @ replicate clearanceSaltLen 0)
       @ bytes_of ip)"

definition decodeClearanceBody :: "string \<Rightarrow> err + int64 \<times> string" where
  "decodeClearanceBody body =
     (case b64_decode body of
        None \<Rightarrow> Inl ErrInvalidToken
      | Some raw \<Rightarrow>
          if length raw < clearanceFixedPrefix then Inl ErrInvalidToken
          else Inr (Uint64_BE raw, string_of (drop clearanceFixedPrefix raw)))"

definition generateClearanceMAC ::
  "int64 \<Rightarrow> (nat \<Rightarrow> bytes option) \<Rightarrow> hmac \<Rightarrow> bytes \<Rightarrow> string \<Rightarrow> hmac \<times> (err + string)" where
  "generateClearanceMAC now rnd mac sumBuf context =
     (case randomBytes rnd clearanceSaltLen of
        None \<Rightarrow> (mac, Inl ErrRandom)
      | Some salt \<Rightarrow>
          let exp = now + ClearanceLifetime;
              body = encodeClearanceBody exp salt context;
              mac = mac_Write (bytes_of body) (mac_Reset mac);
              sig = b64_encode (mac_Sum mac sumBuf)
          in (mac, Inr (body @ ''.'' @ sig)))"

definition GenerateClearance ::
  "int64 \<Rightarrow> (nat \<Rightarrow> bytes option) \<Rightarrow> bytes \<Rightarrow> string \<Rightarrow> err + string" where
  "GenerateClearance now rnd secret context =
     snd (generateClearanceMAC now rnd (hmac_New secret) [] context)"

section \<open>Verification\<close>

text \<open>The loop over the bit index \<open>i\<close>, with its early returns.\<close>

function leading_zero_loop :: "bytes \<Rightarrow> nat \<Rightarrow> nat \<Rightarrow> bool" where
  "leading_zero_loop hash bits i =
     (if i < bits then
        (let byteIdx = i div 8 in
         if byteIdx \<ge> length hash then False
         else (let bitIdx = 7 - i mod 8 in
               if hash ! byteIdx AND push_bit bitIdx 1 \<noteq> 0 then False
               else leading_zero_loop hash bits (Suc i)))
      else True)"
  by auto
termination by (relation "measure (\<lambda>(hash, bits, i). bits - i)") auto

declare leading_zero_loop.simps [simp del]

definition hasLeadingZeroBits :: "bytes \<Rightarrow> uint64 \<Rightarrow> bool" where
  "hasLeadingZeroBits hash bits = (if bits = 0 then True else leading_zero_loop hash (unat bits) 0)"

definition matchChallengeContext :: "string \<Rightarrow> string \<Rightarrow> ClientContext \<Rightarrow> err option" where
  "matchChallengeContext tokenIP tokenCID expected =
     (if IP expected \<noteq> [] \<and> (tokenIP = [] \<or> tokenIP \<noteq> IP expected) then Some ErrContextMismatch
      else if tokenCID \<noteq> [] \<and> ConnID expected \<noteq> [] \<and> tokenCID \<noteq> ConnID expected
        then Some ErrContextMismatch
      else None)"

text \<open>\<open>sha256.Sum256(chBytes || nonce_be64)\<close>, the hash a nonce is tried against.\<close>

definition pow_hash :: "bytes \<Rightarrow> uint64 \<Rightarrow> bytes" where
  "pow_hash chBytes nonce = sha256 (chBytes @ PutUint64_BE nonce)"

definition verifySolutionMAC ::
  "int64 \<Rightarrow> hmac \<Rightarrow> bytes \<Rightarrow> Solution \<Rightarrow> ClientContext \<Rightarrow> hmac \<times> err option" where
  "verifySolutionMAC now mac sumBuf sol expected =
     (if Challenge sol = [] \<or> Signature sol = [] then (mac, Some ErrInvalidToken)
      else case b64_decode (Challenge sol) of
        None \<Rightarrow> (mac, Some ErrInvalidToken)
      | Some chBytes \<Rightarrow>
          (case ChallengePayload_Unmarshal (string_of chBytes) of
             None \<Rightarrow> (mac, Some ErrInvalidToken)
           | Some payload \<Rightarrow>
               if Expiry payload <s now then (mac, Some ErrExpired)
               else
                 let mac = mac_Write (bytes_of (Challenge sol)) (mac_Reset mac);
                     expectedSig = mac_Sum mac sumBuf
                 in (case b64_decode (Signature sol) of
                       None \<Rightarrow> (mac, Some ErrBadSignature)
                     | Some sigBytes \<Rightarrow>
                         if ConstantTimeCompare expectedSig sigBytes \<noteq> 1 then (mac, Some ErrBadSignature)
                         else if \<not> hasLeadingZeroBits (pow_hash chBytes (Nonce sol)) (Difficulty payload)
                           then (mac, Some ErrBadPoW)
                         else (mac, matchChallengeContext (Context payload) (CtxConnID payload) expected))))"

definition VerifySolution :: "int64 \<Rightarrow> bytes \<Rightarrow> Solution \<Rightarrow> ClientContext \<Rightarrow> err option" where
  "VerifySolution now secret sol expected =
     snd (verifySolutionMAC now (hmac_New secret) [] sol expected)"

definition parseClearanceMAC :: "hmac \<Rightarrow> bytes \<Rightarrow> string \<Rightarrow> string \<Rightarrow> hmac \<times> (err + int64)" where
  "parseClearanceMAC mac sumBuf token expectedIP =
     (let (body, sig, ok) = Cut token CHR ''.'' in
      if \<not> ok \<or> body = [] \<or> sig = [] then (mac, Inl ErrInvalidToken)
      else
        let mac = mac_Write (bytes_of body) (mac_Reset mac);
            expectedSig = mac_Sum mac sumBuf
        in (case b64_decode sig of
              None \<Rightarrow> (mac, Inl ErrBadSignature)
            | Some sigBytes \<Rightarrow>
                if ConstantTimeCompare expectedSig sigBytes \<noteq> 1 then (mac, Inl ErrBadSignature)
                else (case decodeClearanceBody body of
                        Inl e \<Rightarrow> (mac, Inl e)
                      | Inr (exp, tokenIP) \<Rightarrow>
                          if expectedIP \<noteq> [] \<and> (tokenIP = [] \<or> tokenIP \<noteq> expectedIP)
                          then (mac, Inl ErrContextMismatch)
                          else (mac, Inr exp))))"

definition verifyClearanceMAC ::
  "int64 \<Rightarrow> hmac \<Rightarrow> bytes \<Rightarrow> string \<Rightarrow> string \<Rightarrow> hmac \<times> err option" where
  "verifyClearanceMAC now mac sumBuf token expectedIP =
     (case parseClearanceMAC mac sumBuf token expectedIP of
        (mac, Inl e) \<Rightarrow> (mac, Some e)
      | (mac, Inr exp) \<Rightarrow> (mac, if exp <s now then Some ErrExpired else None))"

definition VerifyClearance :: "int64 \<Rightarrow> bytes \<Rightarrow> string \<Rightarrow> string \<Rightarrow> err option" where
  "VerifyClearance now secret token expectedIP =
     snd (verifyClearanceMAC now (hmac_New secret) [] token expectedIP)"

definition shouldRenewClearance :: "int64 \<Rightarrow> int64 \<Rightarrow> int64 \<Rightarrow> bool" where
  "shouldRenewClearance exp now windowSec \<longleftrightarrow>
     0 <s windowSec \<and> exp <s now \<and> now - exp \<le>s windowSec"

section \<open>Leading zero bits\<close>

lemma and_push_bit_iff: "x AND push_bit k 1 \<noteq> 0 \<longleftrightarrow> bit (x :: byte) k"
  by (simp add: and_exp_eq_0_iff_not_bit)

lemma leading_zero_loop_iff:
  "leading_zero_loop h n i \<longleftrightarrow> (\<forall>j. i \<le> j \<and> j < n \<longrightarrow> j < 8 * length h \<and> \<not> bit_at h j)"
proof (induction h n i rule: leading_zero_loop.induct)
  case (1 h n i)
  show ?case
  proof (cases "i < n \<and> i < 8 * length h \<and> \<not> bit_at h i")
    case True
    then have "i div 8 < length h" by (simp add: less_mult_imp_div_less mult.commute)
    moreover have nz: "h ! (i div 8) AND push_bit (7 - i mod 8) 1 = 0"
      using True and_push_bit_iff [of "h ! (i div 8)" "7 - i mod 8"] by (auto simp: bit_at_def)
    ultimately have "leading_zero_loop h n i = leading_zero_loop h n (Suc i)"
      using True by (subst leading_zero_loop.simps) (simp add: Let_def)
    also have "\<dots> \<longleftrightarrow> (\<forall>j. Suc i \<le> j \<and> j < n \<longrightarrow> j < 8 * length h \<and> \<not> bit_at h j)"
      using True nz \<open>i div 8 < length h\<close> by (intro "1.IH") auto
    also have "\<dots> \<longleftrightarrow> (\<forall>j. i \<le> j \<and> j < n \<longrightarrow> j < 8 * length h \<and> \<not> bit_at h j)"
      using True by (metis Suc_leD Suc_leI le_neq_implies_less)
    finally show ?thesis .
  next
    case False
    show ?thesis
    proof (cases "i < n")
      case True
      have "\<not> leading_zero_loop h n i"
      proof (cases "i < 8 * length h")
        case False
        then have "length h \<le> i div 8" by (simp add: less_eq_div_iff_mult_less_eq mult.commute)
        with \<open>i < n\<close> show ?thesis by (subst leading_zero_loop.simps) simp
      next
        case inb: True
        with False \<open>i < n\<close> have "bit_at h i" by simp
        then have "h ! (i div 8) AND push_bit (7 - i mod 8) 1 \<noteq> 0"
          by (simp only: and_push_bit_iff bit_at_def)
        with \<open>i < n\<close> show ?thesis by (subst leading_zero_loop.simps) (simp add: Let_def)
      qed
      with False \<open>i < n\<close> show ?thesis by blast
    next
      case ge: False
      then show ?thesis by (subst leading_zero_loop.simps) auto
    qed
  qed
qed

lemma less_exp_iff_high_bits: "(v :: nat) < 2 ^ m \<longleftrightarrow> (\<forall>k\<ge>m. \<not> bit v k)"
proof -
  have "v < 2 ^ m \<longleftrightarrow> take_bit m v = v" by (simp add: take_bit_nat_eq_self_iff)
  also have "\<dots> \<longleftrightarrow> (\<forall>k\<ge>m. \<not> bit v k)"
    by (auto simp: bit_eq_iff bit_take_bit_iff not_less [symmetric])
  finally show ?thesis .
qed

text \<open>A value with \<open>n\<close> leading zero bits is one below \<open>2\<close> to the number of remaining bits.\<close>

lemma leading_zero_loop_be_val:
  "leading_zero_loop h n 0 \<longleftrightarrow> n \<le> 8 * length h \<and> be_val h < 2 ^ (8 * length h - n)"
proof (cases "n \<le> 8 * length h")
  case True
  let ?N = "8 * length h"
  have "be_val h < 2 ^ (?N - n) \<longleftrightarrow> (\<forall>k. ?N - n \<le> k \<and> k < ?N \<longrightarrow> \<not> bit_at h (?N - 1 - k))"
    by (auto simp: less_exp_iff_high_bits bit_be_val)
  also have "\<dots> \<longleftrightarrow> (\<forall>j<n. \<not> bit_at h j)"
  proof (intro iffI allI impI)
    fix j assume all: "\<forall>k. ?N - n \<le> k \<and> k < ?N \<longrightarrow> \<not> bit_at h (?N - 1 - k)" and j: "j < n"
    then have "\<not> bit_at h (?N - 1 - (?N - 1 - j))" using True by (intro all [rule_format]) auto
    then show "\<not> bit_at h j" using True j by simp
  next
    fix k assume all: "\<forall>j<n. \<not> bit_at h j" and k: "?N - n \<le> k \<and> k < ?N"
    then have "?N - 1 - k < n" using True by linarith
    with all show "\<not> bit_at h (?N - 1 - k)" by blast
  qed
  finally show ?thesis using True by (auto simp: leading_zero_loop_iff)
next
  case False
  then show ?thesis by (auto simp: leading_zero_loop_iff intro: exI [of _ "8 * length h"])
qed

section \<open>Clearance tokens\<close>

lemma length_salt_field [simp]: "length (take clearanceSaltLen (salt @ replicate clearanceSaltLen 0)) = 16"
  by (simp add: crypt_constants)

lemma decode_encode_clearance:
  "decodeClearanceBody (encodeClearanceBody exp salt ip) = Inr (exp, ip)"
  by (simp add: decodeClearanceBody_def encodeClearanceBody_def crypt_constants)

lemma encodeClearanceBody_chars:
  "CHR ''.'' \<notin> set (encodeClearanceBody exp salt ip)" "encodeClearanceBody exp salt ip \<noteq> []"
  "list_all visible (encodeClearanceBody exp salt ip)"
  "CHR '';'' \<notin> set (encodeClearanceBody exp salt ip)"
  by (simp_all add: encodeClearanceBody_def b64.enc_avoids b64.enc_visible)

text \<open>\<open>parseClearanceMAC\<close> with the digester's state resolved.\<close>

lemma parseClearanceMAC_eq:
  "snd (parseClearanceMAC mac [] token ip) =
     (let (body, sig, ok) = Cut token CHR ''.'' in
      if \<not> ok \<or> body = [] \<or> sig = [] then Inl ErrInvalidToken
      else if b64_decode sig \<noteq> Some (hmac_sha256 (hmac_secret mac) (bytes_of body)) then Inl ErrBadSignature
      else (case decodeClearanceBody body of
              Inl e \<Rightarrow> Inl e
            | Inr (exp, tip) \<Rightarrow> if ip \<noteq> [] \<and> (tip = [] \<or> tip \<noteq> ip) then Inl ErrContextMismatch else Inr exp))"
  by (auto simp: parseClearanceMAC_def Let_def hm.sum_tag split: option.split sum.split prod.split)

lemma parseClearanceMAC_key [simp]:
  "hmac_secret (fst (parseClearanceMAC mac b token ip)) = hmac_secret mac"
  by (auto simp: parseClearanceMAC_def Let_def hmac_object_simps split: option.split sum.split prod.split)

lemma generateClearanceMAC_key [simp]:
  "hmac_secret (fst (generateClearanceMAC now rnd mac b ctx)) = hmac_secret mac"
  by (auto simp: generateClearanceMAC_def Let_def hmac_object_simps split: option.split)

lemma verifySolutionMAC_key [simp]:
  "hmac_secret (fst (verifySolutionMAC now mac b sol cl)) = hmac_secret mac"
  by (auto simp: verifySolutionMAC_def Let_def hmac_object_simps split: option.split)

lemma generateChallengeMAC_key [simp]:
  "hmac_secret (fst (generateChallengeMAC now rnd mac b d cl)) = hmac_secret mac"
  by (auto simp: generateChallengeMAC_def Let_def hmac_object_simps split: option.split)

lemma hmac_nonempty [simp]: "hmac_sha256 k d \<noteq> []"
  using length_hmac_sha256 [of k d] by (metis list.size(3) zero_neq_numeral)

lemma b64_decode_Nil [simp]: "b64_decode [] = Some []"
  by (simp add: b64_decode_def)

lemma decodeClearanceBody_Nil [simp]: "decodeClearanceBody [] = Inl ErrInvalidToken"
  by (simp add: decodeClearanceBody_def crypt_constants)

lemma generateClearanceMAC_token:
  "snd (generateClearanceMAC now (\<lambda>_. Some salt) mac [] ctx) =
     Inr (encodeClearanceBody (now + ClearanceLifetime) salt ctx @ CHR ''.'' #
          b64_encode (hmac_sha256 (hmac_secret mac) (bytes_of (encodeClearanceBody (now + ClearanceLifetime) salt ctx))))"
  by (simp add: generateClearanceMAC_def randomBytes_def hm.sum_tag Let_def)

lemma parse_signed_clearance:
  assumes "hmac_secret mac = k"
  shows "snd (parseClearanceMAC mac []
      (encodeClearanceBody exp salt ctx @ CHR ''.'' # b64_encode (hmac_sha256 k (bytes_of (encodeClearanceBody exp salt ctx)))) ip)
    = (if ip \<noteq> [] \<and> ctx \<noteq> ip then Inl ErrContextMismatch else Inr exp)"
  using assms encodeClearanceBody_chars [of exp salt ctx]
  by (auto simp: parseClearanceMAC_eq Cut_append decode_encode_clearance)

section \<open>Challenges\<close>

lemma is_b64_plain: "is_b64 c \<Longrightarrow> json_plain_char c"
  by (auto simp: is_b64_def b64_alphabet_def json_plain_char_def char_code_def)

lemma b64_encode_plain [simp]: "json_plain (b64_encode bs)"
  using b64_encode_is_b64 [of bs] by (auto simp: json_plain_def list_all_iff is_b64_plain)

text \<open>A payload whose strings need no escaping.\<close>

definition plain_payload :: "ChallengePayload \<Rightarrow> bool" where
  "plain_payload p \<longleftrightarrow> json_plain (Salt p) \<and> json_plain (Context p) \<and> json_plain (CtxConnID p)"

definition payload_values :: "ChallengePayload \<Rightarrow> json list" where
  "payload_values p =
     [JNum (Itoa (Timestamp p)), JNum (Itoa (Expiry p)), JNum (FormatUint (Difficulty p)), JStr (Salt p)]
     @ (if Context p = [] then [] else [JStr (Context p)])
     @ (if CtxConnID p = [] then [] else [JStr (CtxConnID p)])"

lemma json_plain_names [simp]:
  "json_plain ''ts''" "json_plain ''exp''" "json_plain ''diff''" "json_plain ''salt''"
  "json_plain ''ctx''" "json_plain ''cid''"
  by (simp_all add: json_plain_char_def char_code_def)

lemma json_parse_payload:
  assumes "plain_payload p"
  shows "json_parse (ChallengePayload_Marshal p)
    = Some (JObj (zip (map fst (payload_members p)) (payload_values p)))"
  unfolding ChallengePayload_Marshal_def
  using assms
  by (intro json_parse_object)
    (simp_all add: payload_members_def payload_values_def plain_payload_def json_text_Itoa
       json_text_FormatUint json_text_quote del: json_plain_Cons)

lemma payload_roundtrip:
  assumes "plain_payload p"
  shows "ChallengePayload_Unmarshal (ChallengePayload_Marshal p) = Some p"
  by (simp add: ChallengePayload_Unmarshal_def json_Unmarshal_def json_parse_payload [OF assms]
      payload_members_def payload_values_def field_of_def payload_fields_def
      set_int64_def set_uint64_def set_string_def zero_payload_def)

text \<open>The payload of a challenge issued at \<open>now\<close>.\<close>

definition issued_payload :: "int64 \<Rightarrow> bytes \<Rightarrow> uint64 \<Rightarrow> ClientContext \<Rightarrow> ChallengePayload" where
  "issued_payload now salt d client =
     \<lparr>Timestamp = now, Expiry = now + ChallengeLifetime,
      Difficulty = (if d < 1 then DefaultDifficulty else d), Salt = b64_encode salt,
      Context = IP client, CtxConnID = ConnID client\<rparr>"

definition issued_bytes :: "int64 \<Rightarrow> bytes \<Rightarrow> uint64 \<Rightarrow> ClientContext \<Rightarrow> bytes" where
  "issued_bytes now salt d client = bytes_of (ChallengePayload_Marshal (issued_payload now salt d client))"

definition issued_challenge ::
  "bytes \<Rightarrow> int64 \<Rightarrow> bytes \<Rightarrow> uint64 \<Rightarrow> ClientContext \<Rightarrow> SignedChallenge" where
  "issued_challenge k now salt d client =
     (let c = b64_encode (issued_bytes now salt d client)
      in \<lparr>Challenge = c, Signature = b64_encode (hmac_sha256 k (bytes_of c))\<rparr>)"

lemma generateChallengeMAC_issued:
  "snd (generateChallengeMAC now (\<lambda>_. Some salt) mac [] d client)
    = Inr (issued_challenge (hmac_secret mac) now salt d client)"
  by (simp add: generateChallengeMAC_def randomBytes_def issued_challenge_def issued_bytes_def
      issued_payload_def hm.sum_tag Let_def)

lemma ChallengePayload_Marshal_nonempty [simp]: "ChallengePayload_Marshal p \<noteq> []"
  by (simp add: ChallengePayload_Marshal_def json_object_def)

lemma issued_challenge_nonempty [simp]:
  "Challenge (issued_challenge k now salt d client) \<noteq> []"
  "Signature (issued_challenge k now salt d client) \<noteq> []"
  by (simp_all add: issued_challenge_def issued_bytes_def Let_def)

text \<open>\<open>verifySolutionMAC\<close> with the digester's state resolved.\<close>

lemma verifySolutionMAC_eq:
  "snd (verifySolutionMAC now mac [] sol cl) =
     (if Challenge sol = [] \<or> Signature sol = [] then Some ErrInvalidToken
      else case b64_decode (Challenge sol) of
        None \<Rightarrow> Some ErrInvalidToken
      | Some ch \<Rightarrow>
          (case ChallengePayload_Unmarshal (string_of ch) of
             None \<Rightarrow> Some ErrInvalidToken
           | Some p \<Rightarrow>
               if Expiry p <s now then Some ErrExpired
               else if b64_decode (Signature sol) \<noteq> Some (hmac_sha256 (hmac_secret mac) (bytes_of (Challenge sol)))
                 then Some ErrBadSignature
               else if \<not> hasLeadingZeroBits (pow_hash ch (Nonce sol)) (Difficulty p) then Some ErrBadPoW
               else matchChallengeContext (Context p) (CtxConnID p) cl))"
  by (auto simp: verifySolutionMAC_def Let_def hm.sum_tag split: option.split)

definition solution_of :: "SignedChallenge \<Rightarrow> uint64 \<Rightarrow> Solution" where
  "solution_of ch n = SignedChallenge.extend ch \<lparr>Nonce = n\<rparr>"

lemma solution_of_sel [simp]:
  "Challenge (solution_of ch n) = Challenge ch" "Signature (solution_of ch n) = Signature ch"
  "Nonce (solution_of ch n) = n"
  by (simp_all add: solution_of_def SignedChallenge.defs Solution.defs)

lemma verify_signed_payload:
  assumes "plain_payload p" "Challenge sol = b64_encode (bytes_of (ChallengePayload_Marshal p))"
    and "Signature sol = b64_encode (hmac_sha256 (hmac_secret mac) (bytes_of (Challenge sol)))"
  shows "snd (verifySolutionMAC t mac [] sol cl)
    = (if Expiry p <s t then Some ErrExpired
       else if \<not> hasLeadingZeroBits (pow_hash (bytes_of (ChallengePayload_Marshal p)) (Nonce sol)) (Difficulty p)
         then Some ErrBadPoW
       else matchChallengeContext (Context p) (CtxConnID p) cl)"
  using assms by (simp add: verifySolutionMAC_eq payload_roundtrip)

lemma verify_issued:
  assumes "json_plain (IP client)" "json_plain (ConnID client)" "hmac_secret mac = k"
  shows "snd (verifySolutionMAC t mac [] (solution_of (issued_challenge k now salt d client) n) cl)
    = (if now + ChallengeLifetime <s t then Some ErrExpired
       else if \<not> hasLeadingZeroBits (pow_hash (issued_bytes now salt d client) n)
                  (if d < 1 then DefaultDifficulty else d) then Some ErrBadPoW
       else matchChallengeContext (IP client) (ConnID client) cl)"
proof -
  let ?p = "issued_payload now salt d client"
  have "plain_payload ?p" using assms by (simp add: plain_payload_def issued_payload_def)
  from verify_signed_payload [OF this, of "solution_of (issued_challenge k now salt d client) n" mac t cl]
  show ?thesis
    using assms(3) by (simp add: issued_challenge_def Let_def issued_bytes_def) (simp add: issued_payload_def)
qed

lemma matchChallengeContext_None:
  "matchChallengeContext ip cid cl = None \<longleftrightarrow>
     (IP cl = [] \<or> ip = IP cl) \<and> (cid = [] \<or> ConnID cl = [] \<or> cid = ConnID cl)"
  by (auto simp: matchChallengeContext_def)

section \<open>Properties\<close>

text \<open>A clearance token minted for an address at time \<open>t0\<close> is accepted at any time \<open>t\<close> up to
  thirty minutes later from the same address (or when the address is unknown), is reported
  expired afterwards and as a context mismatch from any other address; whatever the shared
  digester had absorbed before.\<close>

lemma clearance_mint_verify:
  "\<exists>tok. snd (generateClearanceMAC t0 (\<lambda>_. Some salt) \<lparr>hmac_secret = k, hmac_written = w\<rparr> [] ctx) = Inr tok \<and>
     (\<forall>t w' ip. snd (verifyClearanceMAC t \<lparr>hmac_secret = k, hmac_written = w'\<rparr> [] tok ip) =
        (if ip \<noteq> [] \<and> ctx \<noteq> ip then Some ErrContextMismatch
         else if t0 + 1800 <s t then Some ErrExpired else None))"
proof (intro exI conjI allI)
  fix t w' ip
  let ?m = "\<lparr>hmac_secret = k, hmac_written = w'\<rparr>"
  show "snd (verifyClearanceMAC t ?m []
      (encodeClearanceBody (t0 + ClearanceLifetime) salt ctx @ CHR ''.'' #
        b64_encode (hmac_sha256 k (bytes_of (encodeClearanceBody (t0 + ClearanceLifetime) salt ctx)))) ip)
    = (if ip \<noteq> [] \<and> ctx \<noteq> ip then Some ErrContextMismatch
       else if t0 + 1800 <s t then Some ErrExpired else None)"
    using parse_signed_clearance [of ?m k "t0 + ClearanceLifetime" salt ctx ip]
    by (auto simp: verifyClearanceMAC_def ClearanceLifetime_def split: prod.split sum.split if_splits)
qed (simp add: generateClearanceMAC_token)

text \<open>C13: \<open>parseClearanceMAC\<close> returns an expiry exactly for a token that consists of a body and a
  signature separated by its first dot, where the signature decodes to the HMAC of the body
  under the plugin's secret, the body decodes to that expiry and an address, and the address is
  the expected one unless none is expected.\<close>

theorem parse_clearance_iff:
  "snd (parseClearanceMAC mac [] token ip) = Inr exp \<longleftrightarrow>
     (\<exists>body sig tip. token = body @ CHR ''.'' # sig \<and> CHR ''.'' \<notin> set body
        \<and> b64_decode sig = Some (hmac_sha256 (hmac_secret mac) (bytes_of body))
        \<and> decodeClearanceBody body = Inr (exp, tip) \<and> (ip = [] \<or> tip = ip))"
  (is "?L \<longleftrightarrow> ?R")
proof
  assume ?L
  then show ?R
    by (auto simp: parseClearanceMAC_eq Let_def split: prod.splits if_splits sum.splits dest!: Cut_TrueD)
next
  assume ?R
  then obtain body sig tip where t: "token = body @ CHR ''.'' # sig" "CHR ''.'' \<notin> set body"
    and s: "b64_decode sig = Some (hmac_sha256 (hmac_secret mac) (bytes_of body))"
    and b: "decodeClearanceBody body = Inr (exp, tip)" and i: "ip = [] \<or> tip = ip" by blast
  have "body \<noteq> []" using b by auto
  moreover have "sig \<noteq> []"
  proof
    assume "sig = []"
    with s have "hmac_sha256 (hmac_secret mac) (bytes_of body) = []" by simp
    then show False by simp
  qed
  ultimately show ?L using t s b i by (auto simp: parseClearanceMAC_eq Cut_append)
qed


text \<open>C19: A hash passes the leading-zero test for \<open>bits\<close> exactly if it is at least \<open>bits\<close> bits
  long and, read as a big-endian number, lies below two to the number of remaining bits: the
  bit loop with its early returns decides the target a miner has to hit.\<close>

theorem hasLeadingZeroBits_target:
  "hasLeadingZeroBits h bits \<longleftrightarrow>
     unat bits \<le> 8 * length h \<and> be_val h < 2 ^ (8 * length h - unat bits)"
proof (cases "bits = 0")
  case True
  have "be_val h < 256 ^ length h" by (rule be_val_bound)
  also have "(256 :: nat) ^ length h = 2 ^ (8 * length h)" by (simp add: power_mult)
  finally show ?thesis using True by (simp add: hasLeadingZeroBits_def)
next
  case False
  then show ?thesis by (simp add: hasLeadingZeroBits_def leading_zero_loop_be_val)
qed

text \<open>C12: A submitted solution is accepted exactly if its challenge decodes to a payload that has
  not expired, its signature decodes to the HMAC of the challenge text under the plugin's secret,
  the hash of the challenge and nonce has the signed number of leading zero bits, the signed
  address is the client's (unless the client's is unknown) and the signed connection is the
  client's (unless one of them is unknown). No unsigned part of the solution is trusted.\<close>

theorem verifySolution_accepts_iff:
  "snd (verifySolutionMAC now mac [] sol client) = None \<longleftrightarrow>
     Challenge sol \<noteq> [] \<and> Signature sol \<noteq> [] \<and>
     (\<exists>ch p. b64_decode (Challenge sol) = Some ch
        \<and> ChallengePayload_Unmarshal (string_of ch) = Some p
        \<and> now \<le>s Expiry p
        \<and> b64_decode (Signature sol) = Some (hmac_sha256 (hmac_secret mac) (bytes_of (Challenge sol)))
        \<and> hasLeadingZeroBits (sha256 (ch @ PutUint64_BE (Nonce sol))) (Difficulty p)
        \<and> (IP client = [] \<or> Context p = IP client)
        \<and> (CtxConnID p = [] \<or> ConnID client = [] \<or> CtxConnID p = ConnID client))"
  by (auto simp: verifySolutionMAC_eq matchChallengeContext_None pow_hash_def word_sle_eq word_sless_alt
      not_less split: option.split)

text \<open>C22: A challenge issued to a client at \<open>now\<close> with difficulty \<open>d\<close> (raised to the default when
  zero) is accepted for a nonce from the same client for sixty seconds exactly if the nonce solves
  it, and is reported expired afterwards; whatever the shared digester had absorbed when it was
  issued or verified.\<close>

theorem issued_challenge_verifies:
  assumes "json_plain (IP client)" and "json_plain (ConnID client)"
  shows "\<exists>ch. snd (generateChallengeMAC now (\<lambda>_. Some salt) \<lparr>hmac_secret = k, hmac_written = w\<rparr> [] d client) = Inr ch \<and>
     (\<forall>t w' n. snd (verifySolutionMAC t \<lparr>hmac_secret = k, hmac_written = w'\<rparr> [] (solution_of ch n) client) =
        (if now + 60 <s t then Some ErrExpired
         else if hasLeadingZeroBits (pow_hash (the (b64_decode (Challenge ch))) n) (if d = 0 then 18 else d)
           then None else Some ErrBadPoW))"
proof (intro exI conjI allI)
  show "snd (generateChallengeMAC now (\<lambda>_. Some salt) \<lparr>hmac_secret = k, hmac_written = w\<rparr> [] d client) =
      Inr (issued_challenge k now salt d client)"
    by (simp add: generateChallengeMAC_issued)
next
  fix t w' n
  have m: "matchChallengeContext (IP client) (ConnID client) client = None"
    by (simp add: matchChallengeContext_None)
  have c: "the (b64_decode (Challenge (issued_challenge k now salt d client))) = issued_bytes now salt d client"
    by (simp add: issued_challenge_def Let_def)
  show "snd (verifySolutionMAC t \<lparr>hmac_secret = k, hmac_written = w'\<rparr> []
          (solution_of (issued_challenge k now salt d client) n) client) =
        (if now + 60 <s t then Some ErrExpired
         else if hasLeadingZeroBits (pow_hash (the (b64_decode (Challenge (issued_challenge k now salt d client)))) n)
             (if d = 0 then 18 else d)
           then None else Some ErrBadPoW)"
    using verify_issued [OF assms, of "\<lparr>hmac_secret = k, hmac_written = w'\<rparr>" k t now salt d n client]
    by (simp add: m c crypt_constants)
qed

lemma plain_example [simp]: "json_plain ''192.0.2.1''" "json_plain ''42''"
  by (simp_all add: json_plain_char_def char_code_def)

theorem issued_challenge_verifies_witness:
  "\<exists>ch. snd (generateChallengeMAC 1000 (\<lambda>_. Some []) \<lparr>hmac_secret = [], hmac_written = []\<rparr> [] 0
        \<lparr>IP = ''192.0.2.1'', ConnID = ''42''\<rparr>) = Inr ch \<and>
     snd (verifySolutionMAC 1061 \<lparr>hmac_secret = [], hmac_written = []\<rparr> [] (solution_of ch 7)
        \<lparr>IP = ''192.0.2.1'', ConnID = ''42''\<rparr>) = Some ErrExpired"
proof -
  let ?c = "\<lparr>IP = ''192.0.2.1'', ConnID = ''42''\<rparr>" and ?m = "\<lparr>hmac_secret = [], hmac_written = []\<rparr>"
  have late: "(1000 :: int64) + 60 <s 1061" by (simp add: word_sless_alt)
  obtain ch where "snd (generateChallengeMAC 1000 (\<lambda>_. Some []) ?m [] 0 ?c) = Inr ch"
    and "snd (verifySolutionMAC 1061 ?m [] (solution_of ch 7) ?c) = Some ErrExpired"
    using issued_challenge_verifies [of ?c 1000 "[]" "[]" "[]" 0] late plain_example
    by (metis ClientContext.select_convs)
  then show ?thesis by blast
qed

text \<open>Sliding renewal, in the integers the 64-bit times stand for: with a non-negative expiry
  and clock, an expired clearance is renewed exactly if it expired within the positive window.\<close>

lemma shouldRenew_window:
  assumes "0 \<le> sint exp" and "0 \<le> sint now"
  shows "shouldRenewClearance exp now window \<longleftrightarrow>
     0 < sint window \<and> sint exp < sint now \<and> sint now \<le> sint exp + sint window"
proof -
  have "sint (now - exp) = sint now - sint exp"
    using assms sint64_bounds [of now] sint64_bounds [of exp] by (intro sint64_sub) linarith+
  then show ?thesis
    by (auto simp: shouldRenewClearance_def word_sle_eq word_sless_alt)
qed

lemma shouldRenew_window_example:
  "shouldRenewClearance 100 130 30 \<and> \<not> shouldRenewClearance 100 131 30"
  using shouldRenew_window [of 100 130 30] shouldRenew_window [of 100 131 30] by simp

text \<open>The bound on the signs is needed: the subtraction wraps, so a token whose signed expiry
  lies near the least 64-bit integer is renewed by any positive window.\<close>

lemma shouldRenew_wraps: "shouldRenewClearance (- (2 ^ 63)) 10 30"
  by (simp add: shouldRenewClearance_def word_sle_eq word_sless_alt)

lemma generate_sum_tag:
  "snd (generateChallengeMAC now rnd mac [] d cl) =
     (case rnd 32 of None \<Rightarrow> Inl ErrRandom
      | Some salt \<Rightarrow> Inr (issued_challenge (hmac_secret mac) now salt d cl))"
  "snd (generateClearanceMAC now rnd mac [] ctx) =
     (case rnd 16 of None \<Rightarrow> Inl ErrRandom
      | Some salt \<Rightarrow>
          let body = encodeClearanceBody (now + ClearanceLifetime) salt ctx
          in Inr (body @ CHR ''.'' # b64_encode (hmac_sha256 (hmac_secret mac) (bytes_of body))))"
  by (simp_all add: generateChallengeMAC_def generateClearanceMAC_def randomBytes_def issued_challenge_def
      issued_bytes_def issued_payload_def clearanceSaltLen_def hm.sum_tag Let_def split: option.split)

lemma verifyClearanceMAC_eq:
  "snd (verifyClearanceMAC now mac [] token ip) =
     (case snd (parseClearanceMAC mac [] token ip) of
        Inl e \<Rightarrow> Some e
      | Inr exp \<Rightarrow> if exp <s now then Some ErrExpired else None)"
  by (simp add: verifyClearanceMAC_def split: prod.split sum.split)

lemma verifyClearanceMAC_key [simp]:
  "hmac_secret (fst (verifyClearanceMAC now mac b token ip)) = hmac_secret mac"
  using parseClearanceMAC_key [of mac b token ip]
  by (auto simp: verifyClearanceMAC_def simp del: parseClearanceMAC_key split: prod.split sum.split)

lemma same_key_same_result:
  assumes "hmac_secret m = hmac_secret m'"
  shows "snd (generateChallengeMAC now rnd m [] d cl) = snd (generateChallengeMAC now rnd m' [] d cl)"
    and "snd (generateClearanceMAC now rnd m [] ctx) = snd (generateClearanceMAC now rnd m' [] ctx)"
    and "snd (verifySolutionMAC now m [] sol cl) = snd (verifySolutionMAC now m' [] sol cl)"
    and "snd (verifyClearanceMAC now m [] token ip) = snd (verifyClearanceMAC now m' [] token ip)"
  using assms
  by (simp_all only: generate_sum_tag verifySolutionMAC_eq verifyClearanceMAC_eq parseClearanceMAC_eq)

text \<open>C23: Sharing one digester among all requests is the same as a fresh digester for each call:
  whatever an earlier call left in it, every generator and verifier returns what its one-shot
  variant with a new HMAC returns, and leaves the key as it was.\<close>

theorem digester_reuse:
  "let m = \<lparr>hmac_secret = k, hmac_written = w\<rparr> in
     snd (generateChallengeMAC now rnd m [] d client) = GenerateChallenge now rnd k d client
   \<and> snd (generateClearanceMAC now rnd m [] ctx) = GenerateClearance now rnd k ctx
   \<and> snd (verifySolutionMAC now m [] sol client) = VerifySolution now k sol client
   \<and> snd (verifyClearanceMAC now m [] token ip) = VerifyClearance now k token ip
   \<and> hmac_secret (fst (generateChallengeMAC now rnd m [] d client)) = k
   \<and> hmac_secret (fst (generateClearanceMAC now rnd m [] ctx)) = k
   \<and> hmac_secret (fst (verifySolutionMAC now m [] sol client)) = k
   \<and> hmac_secret (fst (verifyClearanceMAC now m [] token ip)) = k"
  unfolding Let_def GenerateChallenge_def GenerateClearance_def VerifySolution_def VerifyClearance_def
    hmac_New_def
  by (intro conjI same_key_same_result) simp_all

end
