(* ===== verification/Cookies.thy ===== *)
theory Cookies
  imports Crypt
begin

text \<open>
  The cookie helpers of \<^verbatim>\<open>src/main.go\<close>: rendering of \<open>Set-Cookie\<close> values, the one-pass scanner
  over a \<open>Cookie\<close> header and the lookup of a single cookie. The scanner's position in the header
  is modelled by the rest of the header that is still to be read.

  The lemmas show what both readers return on a header written the way browsers write it
  (\<open>render_cookies\<close>), and how a \<open>Set-Cookie\<close> value splits into its attributes.
\<close>

section \<open>Definitions\<close>

definition setCookie :: "string \<Rightarrow> string \<Rightarrow> int64 \<Rightarrow> bool \<Rightarrow> bool \<Rightarrow> string" where
  "setCookie name value maxAge httpOnly secure =
     (let b = name @ ''='' @ value @ ''; Path=/; Max-Age='' @ Itoa maxAge @ ''; SameSite=Lax'';
          b = (if httpOnly then b @ ''; HttpOnly'' else b);
          b = (if secure then b @ ''; Secure'' else b)
      in b)"

definition clearCookie :: "string \<Rightarrow> bool \<Rightarrow> string" where
  "clearCookie name secure =
     (let b = name @ ''=; Path=/; Max-Age=0; SameSite=Lax'';
          b = (if secure then b @ ''; Secure'' else b);
          b = (if name = ''challenge-clearance'' then b @ ''; HttpOnly'' else b)
      in b)"

record challengeCookies =
  ck_clearance :: string
  ck_challenge :: string
  ck_signature :: string
  ck_nonce :: string

definition no_cookies :: challengeCookies where
  "no_cookies = \<lparr>ck_clearance = [], ck_challenge = [], ck_signature = [], ck_nonce = []\<rparr>"

text \<open>The \<open>switch\<close> on the cookie's name.\<close>

definition assign_cookie :: "string \<Rightarrow> string \<Rightarrow> challengeCookies \<Rightarrow> challengeCookies" where
  "assign_cookie name val out =
     (if name = ''challenge-clearance'' then out\<lparr>ck_clearance := val\<rparr>
      else if name = ''challenge'' then out\<lparr>ck_challenge := val\<rparr>
      else if name = ''challenge-sig'' then out\<lparr>ck_signature := val\<rparr>
      else if name = ''challenge-nonce'' then out\<lparr>ck_nonce := val\<rparr>
      else out)"

definition cookie_sep :: "char \<Rightarrow> bool" where
  "cookie_sep c \<longleftrightarrow> c = CHR '' '' \<or> c = CHR '';''"

function scan_cookies :: "string \<Rightarrow> challengeCookies \<Rightarrow> challengeCookies" where
  "scan_cookies s out =
     (let s = dropWhile cookie_sep s in
      if s = [] then out
      else case IndexByte s CHR ''='' of
        None \<Rightarrow> out
      | Some eq \<Rightarrow>
          (let name = TrimSpace (take eq s); rest = drop (Suc eq) s
           in case IndexByte rest CHR '';'' of
                None \<Rightarrow> assign_cookie name (TrimSpace rest) out
              | Some semi \<Rightarrow>
                  scan_cookies (drop (Suc semi) rest) (assign_cookie name (TrimSpace (take semi rest)) out)))"
  by auto
termination
proof (relation "measure (length \<circ> fst)", simp)
  fix s :: string and out t eq name rest semi
  assume "t = dropWhile cookie_sep s" "rest = drop (Suc eq) t" "t \<noteq> []"
    "IndexByte t CHR ''='' = Some eq" "IndexByte rest CHR '';'' = Some semi"
  then have "length (drop (Suc semi) rest) < length t" "length t \<le> length s"
    by (auto dest!: IndexByte_SomeD(3))
  then show "((drop (Suc semi) rest, assign_cookie name (TrimSpace (take semi rest)) out), s, out)
      \<in> measure (length \<circ> fst)"
    by simp
qed

declare scan_cookies.simps [simp del]

definition parseChallengeCookies :: "string \<Rightarrow> challengeCookies" where
  "parseChallengeCookies cookieHeader =
     (if cookieHeader = [] then no_cookies else scan_cookies cookieHeader no_cookies)"

text \<open>The value from a position up to the next semicolon.\<close>

definition cookie_value_at :: "string \<Rightarrow> nat \<Rightarrow> string" where
  "cookie_value_at header start =
     (case IndexByte (drop start header) CHR '';'' of
        Some end \<Rightarrow> TrimSpace (take end (drop start header))
      | None \<Rightarrow> TrimSpace (drop start header))"

definition getCookie :: "string \<Rightarrow> string \<Rightarrow> string" where
  "getCookie cookieHeader name =
     (if cookieHeader = [] then []
      else
        let prefix = name @ ''='' in
        if HasPrefix cookieHeader prefix then cookie_value_at cookieHeader (length prefix)
        else
          let search = ''; '' @ prefix in
          (case Index cookieHeader search of
             Some idx \<Rightarrow> cookie_value_at cookieHeader (idx + length search)
           | None \<Rightarrow>
               let search2 = '';'' @ prefix in
               (case Index cookieHeader search2 of
                  Some idx \<Rightarrow> cookie_value_at cookieHeader (idx + length search2)
                | None \<Rightarrow> [])))"

section \<open>Headers as browsers write them\<close>

fun render_cookies :: "(string \<times> string) list \<Rightarrow> string" where
  "render_cookies [] = []"
| "render_cookies [(n, v)] = n @ ''='' @ v"
| "render_cookies ((n, v) # ps) = n @ ''='' @ v @ ''; '' @ render_cookies ps"

text \<open>Names and values of visible characters, a name without \<open>=\<close> and neither with a semicolon.\<close>

definition plain_cookie :: "string \<times> string \<Rightarrow> bool" where
  "plain_cookie p \<longleftrightarrow>
     fst p \<noteq> [] \<and> list_all visible (fst p) \<and> CHR ''='' \<notin> set (fst p) \<and> CHR '';'' \<notin> set (fst p)
     \<and> list_all visible (snd p) \<and> CHR '';'' \<notin> set (snd p)"

lemma not_visible_space [simp]: "\<not> visible CHR '' ''"
  by (simp add: visible_def char_code_def)

lemma dropWhile_sep_name:
  assumes "n \<noteq> []" "list_all visible n" "CHR '';'' \<notin> set n"
  shows "dropWhile cookie_sep (n @ s) = n @ s"
  using assms by (cases n) (auto simp: cookie_sep_def)

lemma scan_one:
  assumes "plain_cookie (n, v)"
  shows "scan_cookies (n @ CHR ''='' # v) out = assign_cookie n v out"
proof -
  have "IndexByte v CHR '';'' = None" using assms by (simp add: plain_cookie_def)
  then show ?thesis
    using assms
    by (subst scan_cookies.simps)
      (simp add: plain_cookie_def dropWhile_sep_name IndexByte_append_notin TrimSpace_all_visible
        del: IndexByte_None)
qed

lemma scan_more:
  assumes "plain_cookie (n, v)"
  shows "scan_cookies (n @ CHR ''='' # v @ CHR '';'' # s) out = scan_cookies s (assign_cookie n v out)"
  using assms
  by (subst scan_cookies.simps)
    (simp add: plain_cookie_def dropWhile_sep_name IndexByte_append_notin TrimSpace_all_visible)

lemma scan_skip_sep: "cookie_sep c \<Longrightarrow> scan_cookies (c # s) out = scan_cookies s out"
  by (subst (1 2) scan_cookies.simps) simp

lemma scan_render:
  assumes "list_all plain_cookie ps" "ps \<noteq> []"
  shows "scan_cookies (render_cookies ps) out = foldl (\<lambda>out (n, v). assign_cookie n v out) out ps"
  using assms
proof (induction ps arbitrary: out rule: render_cookies.induct)
  case (3 n v p ps)
  then have "scan_cookies (render_cookies ((n, v) # p # ps)) out
      = scan_cookies (CHR '' '' # render_cookies (p # ps)) (assign_cookie n v out)"
    by (simp add: scan_more)
  also have "\<dots> = scan_cookies (render_cookies (p # ps)) (assign_cookie n v out)"
    by (rule scan_skip_sep) (simp add: cookie_sep_def)
  finally show ?case using 3 by simp
qed (simp_all add: scan_one)

lemma parse_render:
  assumes "list_all plain_cookie ps"
  shows "parseChallengeCookies (render_cookies ps) = foldl (\<lambda>out (n, v). assign_cookie n v out) no_cookies ps"
proof (cases ps rule: render_cookies.cases)
  case 1
  then show ?thesis by (simp add: parseChallengeCookies_def)
qed (use assms scan_render [of ps no_cookies] in \<open>simp_all add: parseChallengeCookies_def\<close>)

text \<open>The scanner keeps the last cookie of each name.\<close>

definition last_cookie :: "(string \<times> string) list \<Rightarrow> string \<Rightarrow> string" where
  "last_cookie ps n = (case map_of (rev ps) n of None \<Rightarrow> [] | Some v \<Rightarrow> v)"

lemma foldl_assign_cookie:
  "foldl (\<lambda>out (n, v). assign_cookie n v out) no_cookies ps =
     \<lparr>ck_clearance = last_cookie ps ''challenge-clearance'', ck_challenge = last_cookie ps ''challenge'',
      ck_signature = last_cookie ps ''challenge-sig'', ck_nonce = last_cookie ps ''challenge-nonce''\<rparr>"
  by (induction ps rule: rev_induct) (auto simp: no_cookies_def last_cookie_def assign_cookie_def)

section \<open>The lookup of one cookie\<close>

definition cookie_text :: "string \<Rightarrow> string" where
  "cookie_text s = (case IndexByte s CHR '';'' of Some i \<Rightarrow> TrimSpace (take i s) | None \<Rightarrow> TrimSpace s)"

lemma cookie_value_at_text: "cookie_value_at h k = cookie_text (drop k h)"
  by (simp add: cookie_value_at_def cookie_text_def)

lemma cookie_text_simps:
  assumes "list_all visible v" "CHR '';'' \<notin> set v"
  shows "cookie_text v = v" "cookie_text (v @ CHR '';'' # s) = v"
proof -
  have "IndexByte v CHR '';'' = None" using assms by simp
  then show "cookie_text v = v" "cookie_text (v @ CHR '';'' # s) = v"
    using assms by (simp_all add: cookie_text_def TrimSpace_all_visible IndexByte_append_notin del: IndexByte_None)
qed

definition find_cookie :: "string \<Rightarrow> string \<Rightarrow> string option" where
  "find_cookie s search = map_option (\<lambda>i. cookie_text (drop (i + length search) s)) (Index s search)"

lemma Index_skip:
  "c \<notin> set p \<Longrightarrow> Index (p @ s) (c # t) = map_option (\<lambda>i. length p + i) (Index s (c # t))"
proof (induction p)
  case Nil
  then show ?case by (cases "Index s (c # t)") auto
next
  case (Cons a p)
  then show ?case by (cases "Index s (c # t)") (auto simp: HasPrefix_iff)
qed

lemma find_cookie_skip: "c \<notin> set p \<Longrightarrow> find_cookie (p @ s) (c # t) = find_cookie s (c # t)"
  by (simp add: find_cookie_def Index_skip option.map_comp comp_def add.assoc)

lemma find_cookie_here: "find_cookie (p @ s) p = Some (cookie_text s)"
proof -
  have "HasPrefix (p @ s) p" by (simp add: HasPrefix_iff)
  then have "Index (p @ s) p = Some 0"
    by (cases "p @ s") (simp_all add: HasPrefix_def)
  then show ?thesis by (simp add: find_cookie_def)
qed

lemma find_cookie_Cons:
  "\<not> HasPrefix (c # s) p \<Longrightarrow> find_cookie (c # s) p = find_cookie s p"
  by (simp add: find_cookie_def option.map_comp comp_def)

lemma HasPrefix_name:
  assumes "CHR ''='' \<notin> set n" "CHR ''='' \<notin> set m"
  shows "HasPrefix (m @ CHR ''='' # s) (n @ [CHR ''='']) \<longleftrightarrow> m = n"
proof
  assume "HasPrefix (m @ CHR ''='' # s) (n @ [CHR ''=''])"
  then obtain t where "m @ CHR ''='' # s = n @ CHR ''='' # t" by (auto simp: HasPrefix_iff)
  from arg_cong [OF this, where f = "\<lambda>s. fst (Cut s CHR ''='')"] show "m = n"
    using assms by (simp add: Cut_append)
qed (simp add: HasPrefix_iff)

lemma render_Cons:
  "render_cookies ((n, v) # ps) = n @ CHR ''='' # v @ (if ps = [] then [] else ''; '' @ render_cookies ps)"
  by (cases ps) auto

lemma cookie_text_render:
  assumes "plain_cookie (n, v)"
  shows "cookie_text (v @ (if ps = [] then [] else ''; '' @ render_cookies ps)) = v"
  using assms cookie_text_simps [of v] by (auto simp: plain_cookie_def)

lemma find_cookie_none: "c \<notin> set s \<Longrightarrow> find_cookie s (c # t) = None"
  using Index_None_first [of s c t] by (auto simp: find_cookie_def simp del: not_None_eq)

lemma find_render:
  assumes "list_all plain_cookie ps" "ps \<noteq> []" "CHR ''='' \<notin> set n"
  shows "find_cookie (render_cookies ps) (CHR '';'' # CHR '' '' # n @ [CHR ''='']) = map_of (tl ps) n"
  using assms
proof (induction ps)
  case (Cons p ps)
  obtain m v where p: "p = (m, v)" by (cases p)
  let ?key = "CHR '';'' # CHR '' '' # n @ [CHR ''='']"
  have nosemi: "CHR '';'' \<notin> set (m @ CHR ''='' # v)"
    using Cons.prems by (simp add: p plain_cookie_def)
  show ?case
  proof (cases ps)
    case Nil
    then show ?thesis using nosemi by (simp add: p find_cookie_none)
  next
    case (Cons q qs)
    obtain m' v' where q: "q = (m', v')" by (cases q)
    have q': "plain_cookie (m', v')" using Cons.prems by (simp add: Cons q)
    have "find_cookie (render_cookies (p # ps)) ?key = find_cookie (''; '' @ render_cookies ps) ?key"
      using find_cookie_skip [OF nosemi] by (simp add: p Cons)
    also have "\<dots> = map_of ps n"
    proof (cases "m' = n")
      case True
      have "''; '' @ render_cookies ps = ?key @ v' @ (if qs = [] then [] else ''; '' @ render_cookies qs)"
        by (simp add: Cons q render_Cons True)
      then show ?thesis
        using find_cookie_here [of ?key] cookie_text_render [OF q'] by (simp add: Cons q True)
    next
      case False
      then have "\<not> HasPrefix (''; '' @ render_cookies ps) ?key"
        using HasPrefix_name [of n m' "v' @ (if qs = [] then [] else ''; '' @ render_cookies qs)"]
          q' Cons.prems by (simp add: Cons q render_Cons plain_cookie_def HasPrefix_def)
      then have "find_cookie (''; '' @ render_cookies ps) ?key = find_cookie ('' '' @ render_cookies ps) ?key"
        by (simp add: find_cookie_Cons)
      also have "\<dots> = find_cookie (render_cookies ps) ?key"
        by (rule find_cookie_skip) simp
      finally show ?thesis using Cons.IH Cons.prems False by (simp add: Cons q)
    qed
    finally show ?thesis by simp
  qed
qed simp

lemma Index_tight_none:
  assumes "list_all plain_cookie ps" "n = [] \<or> visible (hd n)"
  shows "Index (render_cookies ps) (CHR '';'' # n @ [CHR ''='']) = None"
  using assms(1)
proof (induction ps)
  case (Cons p ps)
  obtain m v where p: "p = (m, v)" by (cases p)
  let ?key = "CHR '';'' # n @ [CHR ''='']"
  have nosemi: "CHR '';'' \<notin> set (m @ CHR ''='' # v)"
    using Cons.prems by (simp add: p plain_cookie_def)
  have "\<not> HasPrefix (''; '' @ render_cookies ps) ?key"
    using assms(2) by (cases n) (auto simp: HasPrefix_def)
  moreover have "Index ('' '' @ render_cookies ps) ?key = None"
    using Cons by (subst Index_skip) simp_all
  ultimately have "Index (''; '' @ render_cookies ps) ?key = None" by simp
  moreover have "Index [] ?key = None" by simp
  ultimately show ?case
    using Index_skip [OF nosemi] by (simp add: p render_Cons)
qed simp

lemma getCookie_render:
  assumes "list_all plain_cookie ps" "CHR ''='' \<notin> set n" "n = [] \<or> visible (hd n)"
  shows "getCookie (render_cookies ps) n = (case map_of ps n of None \<Rightarrow> [] | Some v \<Rightarrow> v)"
proof (cases ps)
  case Nil
  then show ?thesis by (simp add: getCookie_def)
next
  case (Cons p qs)
  obtain m v where p: "p = (m, v)" by (cases p)
  let ?tail = "v @ (if qs = [] then [] else ''; '' @ render_cookies qs)"
  have r: "render_cookies ps = m @ CHR ''='' # ?tail" by (simp add: Cons p render_Cons)
  have pv: "plain_cookie (m, v)" using assms(1) by (simp add: Cons p)
  have h: "HasPrefix (render_cookies ps) (n @ ''='') \<longleftrightarrow> m = n"
    unfolding r using HasPrefix_name [of n m ?tail] assms(2) pv by (simp add: plain_cookie_def)
  have f: "find_cookie (render_cookies ps) (''; '' @ n @ ''='') = map_of qs n"
    using find_render [OF assms(1) _ assms(2)] by (simp add: Cons)
  have i: "Index (render_cookies ps) ('';'' @ n @ ''='') = None"
    using Index_tight_none [OF assms(1,3)] by simp
  show ?thesis
  proof (cases "m = n")
    case True
    then show ?thesis
      using h cookie_text_render [OF pv, of qs] r
      by (simp add: getCookie_def cookie_value_at_text Cons p del: render_cookies.simps)
  next
    case False
    then show ?thesis
      using h i f by (auto simp: getCookie_def cookie_value_at_text find_cookie_def Let_def Cons p split: option.split)
  qed
qed

section \<open>Properties\<close>

text \<open>C39: On a \<open>Cookie\<close> header as browsers write it, the one-pass scanner returns for each of the
  four challenge cookies the value of the last cookie of that name (empty when there is none),
  whatever other cookies surround them.\<close>

theorem parseChallengeCookies_render:
  assumes "list_all plain_cookie ps"
  shows "parseChallengeCookies (render_cookies ps) =
     \<lparr>ck_clearance = last_cookie ps ''challenge-clearance'', ck_challenge = last_cookie ps ''challenge'',
      ck_signature = last_cookie ps ''challenge-sig'', ck_nonce = last_cookie ps ''challenge-nonce''\<rparr>"
  by (simp add: parse_render [OF assms] foldl_assign_cookie)

theorem parseChallengeCookies_render_witness:
  "parseChallengeCookies (render_cookies [(''a'', ''x=y''), (''challenge'', ''T''), (''challenge-nonce'', ''7'')])
    = \<lparr>ck_clearance = [], ck_challenge = ''T'', ck_signature = [], ck_nonce = ''7''\<rparr>"
proof -
  have "list_all plain_cookie [(''a'', ''x=y''), (''challenge'', ''T''), (''challenge-nonce'', ''7'')]"
    by (simp add: plain_cookie_def visible_def char_code_def)
  from parseChallengeCookies_render [OF this] show ?thesis
    by (simp add: last_cookie_def del: render_cookies.simps)
qed

text \<open>The one-pass scanner and the single-cookie lookup agree on every challenge cookie of a
  header as browsers write it, as long as no cookie name occurs twice.\<close>

lemma scanner_agrees_with_lookup:
  assumes "list_all plain_cookie ps" and "distinct (map fst ps)"
  shows "parseChallengeCookies (render_cookies ps) =
     \<lparr>ck_clearance = getCookie (render_cookies ps) ''challenge-clearance'',
      ck_challenge = getCookie (render_cookies ps) ''challenge'',
      ck_signature = getCookie (render_cookies ps) ''challenge-sig'',
      ck_nonce = getCookie (render_cookies ps) ''challenge-nonce''\<rparr>"
proof -
  have "map_of (rev ps) = map_of ps"
    using assms(2) by (simp add: map_of_inject_set rev_map [symmetric])
  then show ?thesis
    using assms(1)
    by (simp add: parse_render foldl_assign_cookie last_cookie_def getCookie_render visible_def char_code_def)
qed

lemma scanner_agrees_with_lookup_witness:
  "getCookie (render_cookies [(''s'', ''1''), (''challenge-nonce'', ''7'')]) ''challenge-nonce''
    = ck_nonce (parseChallengeCookies (render_cookies [(''s'', ''1''), (''challenge-nonce'', ''7'')]))"
proof -
  have "list_all plain_cookie [(''s'', ''1''), (''challenge-nonce'', ''7'')]"
    by (simp add: plain_cookie_def visible_def char_code_def)
  from scanner_agrees_with_lookup [OF this] show ?thesis
    by (simp del: render_cookies.simps)
qed

text \<open>Off the browsers' format the two readers differ: after a cookie without an equals sign the
  scanner takes everything up to the next equals sign for one name and so misses the challenge
  cookie that the lookup finds.\<close>

lemma scanner_misses_after_bare_name:
  "ck_challenge (parseChallengeCookies ''flag; challenge=abc'') = []
   \<and> getCookie ''flag; challenge=abc'' ''challenge'' = ''abc''"
  by code_simp

lemma Itoa_no_semicolon [simp]: "CHR '';'' \<notin> set (Itoa i)"
proof -
  have "CHR '';'' \<notin> set (digits_of n)" for n
    using digits_of_digits [of n] by (auto simp: list_all_iff is_digit_def char_code_def)
  then show ?thesis by (simp add: Itoa_def)
qed

lemma Split_Itoa: "Split (Itoa i @ CHR '';'' # s) CHR '';'' = Itoa i # Split s CHR '';''"
  by (rule Split_append) simp

lemma Split_setCookie:
  assumes "CHR '';'' \<notin> set name" "CHR '';'' \<notin> set value"
  shows "Split (setCookie name value age httpOnly secure) CHR '';'' =
      [name @ ''='' @ value, '' Path=/'', '' Max-Age='' @ Itoa age, '' SameSite=Lax'']
      @ (if httpOnly then ['' HttpOnly''] else []) @ (if secure then ['' Secure''] else [])"
proof -
  have pair: "CHR '';'' \<notin> set (name @ CHR ''='' # value)" using assms by simp
  show ?thesis
    using Split_append [OF pair]
    by (cases httpOnly; cases secure) (simp_all add: setCookie_def Split_Itoa)
qed

lemma Split_clearCookie:
  assumes "CHR '';'' \<notin> set name"
  shows "Split (clearCookie name secure) CHR '';'' =
      [name @ ''='', '' Path=/'', '' Max-Age=0'', '' SameSite=Lax'']
      @ (if secure then ['' Secure''] else []) @ (if name = ''challenge-clearance'' then ['' HttpOnly''] else [])"
proof -
  have pair: "CHR '';'' \<notin> set (name @ ''='')" using assms by simp
  show ?thesis
    using Split_append [OF pair]
    by (cases secure; cases "name = ''challenge-clearance''") (simp_all add: clearCookie_def)
qed

lemma Itoa_0: "Itoa 0 = ''0''"
  by code_simp

text \<open>A \<open>Set-Cookie\<close> value carries exactly the attributes the code writes: splitting it at the
  semicolons, as a browser does, gives the pair \<open>name=value\<close>, then \<open>Path\<close>, \<open>Max-Age\<close>, \<open>SameSite\<close>
  and the optional flags, for every name and value without a semicolon; a cleared cookie carries
  the same attributes with an empty value and age zero.\<close>

lemma setCookie_attributes:
  assumes "CHR '';'' \<notin> set name" and "CHR '';'' \<notin> set value"
  shows "Split (setCookie name value age httpOnly secure) CHR '';'' =
      [name @ ''='' @ value, '' Path=/'', '' Max-Age='' @ Itoa age, '' SameSite=Lax'']
      @ (if httpOnly then ['' HttpOnly''] else []) @ (if secure then ['' Secure''] else [])
    \<and> set (Split (clearCookie name secure) CHR '';'') =
      set (Split (setCookie name [] 0 (name = ''challenge-clearance'') secure) CHR '';'')"
  using assms Split_setCookie [of name "value" age httpOnly secure] Split_clearCookie [of name secure]
    Split_setCookie [of name "[]" 0 "name = ''challenge-clearance''" secure] Itoa_0
  by (simp add: Un_commute)

lemma setCookie_example:
  "Split (setCookie ''challenge'' ''T'' 60 False True) CHR '';'' =
     [''challenge=T'', '' Path=/'', '' Max-Age=60'', '' SameSite=Lax'', '' Secure'']"
proof -
  have "Itoa 60 = ''60''" by code_simp
  then show ?thesis
    using setCookie_attributes [of "''challenge''" "''T''" 60 False True] by simp
qed

end
