(* ===== verification/Go_Net.thy ===== *)
theory Go_Net
  imports Go_Encoding
begin

text \<open>
  The parts of Go's \<open>net\<close> and \<open>net/netip\<close> packages the program uses: \<open>SplitHostPort\<close>,
  \<open>ParseIP\<close> with the parsers for dotted IPv4 and for IPv6 text (ellipsis, trailing IPv4, zones),
  and \<open>IP.String\<close> with its compression of the longest run of zero groups. A parsed address is the
  16-byte form; IPv4 addresses are the IPv4-mapped ones.
\<close>

section \<open>Hosts and ports\<close>

text \<open>The host of \<open>SplitHostPort(hostport)\<close>, \<open>None\<close> for an error.\<close>

definition SplitHostPort :: "string \<Rightarrow> string option" where
  "SplitHostPort hp =
     (case LastIndexByte hp CHR '':'' of
        None \<Rightarrow> None
      | Some i \<Rightarrow>
          if hd hp = CHR ''['' then
            (case IndexByte hp CHR '']'' of
               None \<Rightarrow> None
             | Some end \<Rightarrow>
                 if end + 1 = length hp \<or> end + 1 \<noteq> i then None
                 else if CHR ''['' \<in> set (drop 1 hp) \<or> CHR '']'' \<in> set (drop (end + 1) hp) then None
                 else Some (drop 1 (take end hp)))
          else
            (let host = take i hp in
             if CHR '':'' \<in> set host \<or> CHR ''['' \<in> set hp \<or> CHR '']'' \<in> set hp then None
             else Some host))"

lemma SplitHostPort_no_colon: "CHR '':'' \<notin> set s \<Longrightarrow> SplitHostPort s = None"
  using LastIndexByte_None [of s "CHR '':''"] by (simp add: SplitHostPort_def del: LastIndexByte_None)

section \<open>Parsing addresses\<close>

text \<open>The loop of \<open>parseIPv4Fields\<close>: the previous character, the value and the number of digits of
  the current octet, and the octets that are complete.\<close>

fun parseIPv4Fields :: "string \<Rightarrow> char option \<Rightarrow> nat \<Rightarrow> nat \<Rightarrow> bytes \<Rightarrow> bytes option" where
  "parseIPv4Fields [] prev val digLen fields =
     (if length fields < 3 then None else Some (fields @ [of_nat val]))"
| "parseIPv4Fields (c # s) prev val digLen fields =
     (if is_digit c then
        (if digLen = 1 \<and> val = 0 then None
         else let val = val * 10 + digit_val c in
              if val > 255 then None else parseIPv4Fields s (Some c) val (Suc digLen) fields)
      else if c = CHR ''.'' then
        (if prev = None \<or> s = [] \<or> prev = Some CHR ''.'' then None
         else if length fields = 3 then None
         else parseIPv4Fields s (Some c) 0 0 (fields @ [of_nat val]))
      else None)"

definition parseIPv4 :: "string \<Rightarrow> bytes option" where
  "parseIPv4 s = parseIPv4Fields s None 0 0 []"

definition hexdigit_val :: "char \<Rightarrow> nat option" where
  "hexdigit_val c =
     (let n = char_code c in
      if 48 \<le> n \<and> n \<le> 57 then Some (n - 48)
      else if 97 \<le> n \<and> n \<le> 102 then Some (n - 87)
      else if 65 \<le> n \<and> n \<le> 70 then Some (n - 55)
      else None)"

text \<open>The hex digits of one group: the number read, how many digits, and the rest; \<open>None\<close> when
  there are more than four.\<close>

fun hex_group :: "string \<Rightarrow> nat \<Rightarrow> nat \<Rightarrow> (nat \<times> nat \<times> string) option" where
  "hex_group [] off acc = Some (acc, off, [])"
| "hex_group (c # s) off acc =
     (case hexdigit_val c of
        None \<Rightarrow> Some (acc, off, c # s)
      | Some d \<Rightarrow> if off > 3 then None else hex_group s (Suc off) (acc * 16 + d))"

text \<open>After the loop: the whole string must be used, and the ellipsis fills the missing bytes.\<close>

definition ipv6_finish :: "string \<Rightarrow> bytes \<Rightarrow> nat option \<Rightarrow> bytes option" where
  "ipv6_finish s ip ellipsis =
     (if s \<noteq> [] then None
      else if length ip < 16 then
        (case ellipsis of
           None \<Rightarrow> None
         | Some e \<Rightarrow> Some (take e ip @ replicate (16 - length ip) 0 @ drop e ip))
      else if ellipsis \<noteq> None then None
      else Some ip)"

function ipv6_loop :: "string \<Rightarrow> bytes \<Rightarrow> nat option \<Rightarrow> bytes option" where
  "ipv6_loop s ip ellipsis =
     (if length ip < 16 then
        (case hex_group s 0 0 of
           None \<Rightarrow> None
         | Some (acc, off, rest) \<Rightarrow>
             if off = 0 then None
             else if rest \<noteq> [] \<and> hd rest = CHR ''.'' then
               (if ellipsis = None \<and> length ip \<noteq> 12 then None
                else if length ip + 4 > 16 then None
                else case parseIPv4 s of
                  None \<Rightarrow> None
                | Some v4 \<Rightarrow> ipv6_finish [] (ip @ v4) ellipsis)
             else
               (let ip = ip @ [of_nat (acc div 256), of_nat acc] in
                if rest = [] then ipv6_finish [] ip ellipsis
                else if hd rest \<noteq> CHR '':'' then None
                else if length rest = 1 then None
                else
                  (let s = drop 1 rest in
                   if hd s = CHR '':'' then
                     (if ellipsis \<noteq> None then None
                      else let s = drop 1 s in
                           if s = [] then ipv6_finish [] ip (Some (length ip))
                           else ipv6_loop s ip (Some (length ip)))
                   else ipv6_loop s ip ellipsis)))
      else ipv6_finish s ip ellipsis)"
  by auto
termination by (relation "measure (\<lambda>(s, ip, ellipsis). 16 - length ip)") auto

declare ipv6_loop.simps [simp del]

text \<open>An address with a zone is not accepted by \<open>ParseIP\<close>, an empty zone is an error.\<close>

definition parseIPv6 :: "string \<Rightarrow> bytes option" where
  "parseIPv6 s =
     (if CHR ''%'' \<in> set s then None
      else if HasPrefix s ''::'' then
        (let s = drop 2 s in
         if s = [] then Some (replicate 16 0) else ipv6_loop s [] (Some 0))
      else ipv6_loop s [] None)"

definition v4_prefix :: bytes where
  "v4_prefix = replicate 10 0 @ [255, 255]"

fun find_addr_kind :: "string \<Rightarrow> char option" where
  "find_addr_kind [] = None"
| "find_addr_kind (c # s) =
     (if c = CHR ''.'' \<or> c = CHR '':'' \<or> c = CHR ''%'' then Some c else find_addr_kind s)"

definition ParseIP :: "string \<Rightarrow> bytes option" where
  "ParseIP s =
     (case find_addr_kind s of
        None \<Rightarrow> None
      | Some c \<Rightarrow>
          if c = CHR ''.'' then map_option (\<lambda>v4. v4_prefix @ v4) (parseIPv4 s)
          else if c = CHR '':'' then parseIPv6 s
          else None)"

section \<open>Printing addresses\<close>

definition dotted :: "bytes \<Rightarrow> string" where
  "dotted b = digits_of (unat (b ! 0)) @ ''.'' @ digits_of (unat (b ! 1)) @ ''.''
     @ digits_of (unat (b ! 2)) @ ''.'' @ digits_of (unat (b ! 3))"

definition hex_char :: "nat \<Rightarrow> char" where
  "hex_char n = (if n < 10 then char_of (48 + n) else char_of (87 + n))"

function hex_of :: "nat \<Rightarrow> string" where
  "hex_of n = (if n < 16 then [hex_char n] else hex_of (n div 16) @ [hex_char (n mod 16)])"
  by auto
termination by (relation "measure id") auto

declare hex_of.simps [simp del]

definition v6u16 :: "bytes \<Rightarrow> nat \<Rightarrow> nat" where
  "v6u16 ip i = 256 * unat (ip ! (2 * i)) + unat (ip ! (2 * i + 1))"

text \<open>The end of the run of zero groups that starts at \<open>j\<close>.\<close>

function zero_run_end :: "bytes \<Rightarrow> nat \<Rightarrow> nat" where
  "zero_run_end ip j = (if j < 8 \<and> v6u16 ip j = 0 then zero_run_end ip (Suc j) else j)"
  by auto
termination by (relation "measure (\<lambda>(ip, j). 8 - j)") auto

declare zero_run_end.simps [simp del]

text \<open>The first longest run of at least two zero groups, \<open>(255, 255)\<close> when there is none.\<close>

definition longer_run :: "bytes \<Rightarrow> nat \<times> nat \<Rightarrow> nat \<Rightarrow> nat \<times> nat" where
  "longer_run ip z i =
     (let j = zero_run_end ip i in if j - i \<ge> 2 \<and> j - i > snd z - fst z then (i, j) else z)"

definition zero_run :: "bytes \<Rightarrow> nat \<times> nat" where
  "zero_run ip = foldl (longer_run ip) (255, 255) [0..<8]"

function appendTo6 :: "bytes \<Rightarrow> nat \<times> nat \<Rightarrow> nat \<Rightarrow> string" where
  "appendTo6 ip z i =
     (if i < 8 then
        (if i = fst z then
           ''::'' @ (if snd z \<ge> 8 \<or> snd z \<le> i then []
                     else hex_of (v6u16 ip (snd z)) @ appendTo6 ip z (Suc (snd z)))
         else (if i > 0 then '':'' else []) @ hex_of (v6u16 ip i) @ appendTo6 ip z (Suc i))
      else [])"
  by auto
termination by (relation "measure (\<lambda>(ip, z, i). 8 - i)") auto

declare appendTo6.simps [simp del]

definition is_v4 :: "bytes \<Rightarrow> bool" where
  "is_v4 ip \<longleftrightarrow> take 12 ip = v4_prefix"

definition IP_String :: "bytes \<Rightarrow> string" where
  "IP_String ip = (if is_v4 ip then dotted (drop 12 ip) else appendTo6 ip (zero_run ip) 0)"

section \<open>Lengths and characters\<close>

lemma parseIPv4Fields_length:
  "parseIPv4Fields s prev val dl fs = Some b \<Longrightarrow> length fs \<le> 3 \<Longrightarrow> length b = 4"
  by (induction s prev val dl fs rule: parseIPv4Fields.induct) (auto simp: Let_def split: if_splits)

lemma parseIPv4_length: "parseIPv4 s = Some b \<Longrightarrow> length b = 4"
  by (auto simp: parseIPv4_def dest: parseIPv4Fields_length)

lemma ipv6_finish_length: "ipv6_finish s ip e = Some b \<Longrightarrow> length ip \<le> 16 \<Longrightarrow> length b = 16"
  by (auto simp: ipv6_finish_def split: if_splits option.splits)

lemma ipv6_loop_length:
  "ipv6_loop s ip e = Some b \<Longrightarrow> length ip \<le> 16 \<Longrightarrow> even (length ip) \<Longrightarrow> length b = 16"
proof (induction "16 - length ip" arbitrary: s ip e rule: less_induct)
  case less
  show ?case
  proof (cases "length ip < 16")
    case False
    then show ?thesis using less.prems by (subst (asm) ipv6_loop.simps) (auto dest: ipv6_finish_length)
  next
    case True
    then have two: "length ip + 2 \<le> 16" using less.prems(3) by presburger
    have IH: "ipv6_loop s' (ip @ [x, y]) e' = Some b \<Longrightarrow> length b = 16" for s' x y e'
      using less.hyps [of "ip @ [x, y]" s' e'] True two less.prems(3) by simp
    show ?thesis
      using less.prems True two
      by (subst (asm) ipv6_loop.simps)
        (auto simp: Let_def dest!: ipv6_finish_length dest: IH parseIPv4_length
           split: option.splits prod.splits if_splits)
  qed
qed

lemma ParseIP_length: "ParseIP s = Some b \<Longrightarrow> length b = 16"
  by (auto simp: ParseIP_def parseIPv6_def v4_prefix_def dest: parseIPv4_length ipv6_loop_length
      split: option.splits if_splits)

definition ip_char :: "char \<Rightarrow> bool" where
  "ip_char c \<longleftrightarrow> hexdigit_val c \<noteq> None \<or> c = CHR ''.'' \<or> c = CHR '':''"

lemma hexdigit_val_hex_char [simp]: "n < 16 \<Longrightarrow> hexdigit_val (hex_char n) = Some n"
  by (auto simp: hex_char_def hexdigit_val_def)

lemma hex_of_chars: "list_all (\<lambda>c. hexdigit_val c \<noteq> None) (hex_of n)"
  by (induction n rule: hex_of.induct) (subst hex_of.simps, simp)

lemma hex_of_nonempty [simp]: "hex_of n \<noteq> []"
  by (subst hex_of.simps) simp

lemma ip_char_hex_of [simp]: "list_all ip_char (hex_of n)"
  using hex_of_chars [of n] by (auto simp: list_all_iff ip_char_def)

lemma is_digit_hexdigit: "is_digit c \<Longrightarrow> hexdigit_val c = Some (digit_val c)"
  by (simp add: is_digit_def hexdigit_val_def digit_val_def Let_def)

lemma ip_char_digits_of [simp]: "list_all ip_char (digits_of n)"
  using digits_of_digits [of n] by (auto simp: list_all_iff ip_char_def is_digit_hexdigit)

lemma ip_char_punct [simp]: "ip_char CHR ''.''" "ip_char CHR '':''"
  by (simp_all add: ip_char_def)

lemma ip_char_appendTo6 [simp]: "list_all ip_char (appendTo6 ip z i)"
  by (induction ip z i rule: appendTo6.induct) (subst appendTo6.simps, simp)

lemma IP_String_chars: "list_all ip_char (IP_String ip)"
  by (simp add: IP_String_def dotted_def)

lemma ip_char_visible: "ip_char c \<Longrightarrow> visible c"
  by (auto simp: ip_char_def hexdigit_val_def visible_def char_code_def Let_def split: if_splits)

lemma ip_char_range:
  "ip_char c \<Longrightarrow> 46 \<le> char_code c \<and> char_code c \<le> 102 \<and> char_code c \<noteq> 92 \<and> char_code c \<noteq> 47 \<and> char_code c \<noteq> 91 \<and> char_code c \<noteq> 93
     \<and> char_code c \<noteq> 60 \<and> char_code c \<noteq> 62"
  by (auto simp: ip_char_def hexdigit_val_def Let_def char_code_def split: if_splits)

section \<open>What is printed is parsed back\<close>

lemma parseIPv4Fields_digits:
  assumes "n < 256"
  shows "\<exists>d. is_digit d \<and> (\<forall>rest. parseIPv4Fields (digits_of n @ rest) prev 0 0 fs
    = parseIPv4Fields rest (Some d) n (length (digits_of n)) fs)"
  using assms
proof (induction n rule: digits_of.induct)
  case (1 n)
  show ?case
  proof (cases "n < 10")
    case True
    have "is_digit (char_of (48 + n))" "digit_val (char_of (48 + n)) = n"
      using True by (simp_all add: is_digit_def digit_val_def)
    moreover have "digits_of n = [char_of (48 + n)]" using True by (simp add: digits_of.simps)
    ultimately show ?thesis using "1.prems" by (intro exI [of _ "char_of (48 + n)"]) simp
  next
    case False
    have "n div 10 < 256" using "1.prems" by simp
    from "1.IH" [OF False this]
    obtain d where d: "\<And>rest. parseIPv4Fields (digits_of (n div 10) @ rest) prev 0 0 fs
        = parseIPv4Fields rest (Some d) (n div 10) (length (digits_of (n div 10))) fs"
      by blast
    let ?c = "char_of (48 + n mod 10) :: char"
    have c: "is_digit ?c" "digit_val ?c = n mod 10" by (simp_all add: is_digit_def digit_val_def)
    have "digits_of n = digits_of (n div 10) @ [?c]" using False by (subst digits_of.simps) simp
    moreover have "n div 10 \<noteq> 0" using False by (simp add: div_eq_0_iff)
    ultimately show ?thesis
      using d c "1.prems" by (intro exI [of _ ?c]) simp
  qed
qed

lemma is_digit_punct [simp]: "\<not> is_digit CHR ''.''" "\<not> is_digit CHR '':''"
  by (simp_all add: is_digit_def char_code_def)

lemma parseIPv4Fields_octet:
  assumes "n < 256" "length fs < 3" "rest \<noteq> []"
  shows "parseIPv4Fields (digits_of n @ CHR ''.'' # rest) prev 0 0 fs
    = parseIPv4Fields rest (Some CHR ''.'') 0 0 (fs @ [of_nat n])"
proof -
  from parseIPv4Fields_digits [OF assms(1)] obtain d where "is_digit d"
    "\<And>rest. parseIPv4Fields (digits_of n @ rest) prev 0 0 fs
      = parseIPv4Fields rest (Some d) n (length (digits_of n)) fs" by blast
  then show ?thesis using assms(2,3) by auto
qed

lemma parseIPv4_dotted:
  assumes "length b = 4"
  shows "parseIPv4 (dotted b) = Some b"
proof -
  obtain p q r t where b: "b = [p, q, r, t]"
    using assms by (auto simp: numeral_eq_Suc length_Suc_conv)
  have last: "parseIPv4Fields (digits_of (unat t)) (Some CHR ''.'') 0 0 fs = Some (fs @ [t])"
    if "length fs = 3" for fs
  proof -
    from parseIPv4Fields_digits [of "unat t" "Some CHR ''.''" fs] obtain d where
      "\<And>rest. parseIPv4Fields (digits_of (unat t) @ rest) (Some CHR ''.'') 0 0 fs
        = parseIPv4Fields rest (Some d) (unat t) (length (digits_of (unat t))) fs" by auto
    from this [of "[]"] that show ?thesis by simp
  qed
  show ?thesis
    by (simp add: parseIPv4_def dotted_def b parseIPv4Fields_octet last)
qed

text \<open>What happens after a group of hex digits was read into \<open>ip\<close>.\<close>

definition after_group :: "string \<Rightarrow> bytes \<Rightarrow> nat option \<Rightarrow> bytes option" where
  "after_group rest ip ellipsis =
     (if rest = [] then ipv6_finish [] ip ellipsis
      else if hd rest \<noteq> CHR '':'' then None
      else if length rest = 1 then None
      else if hd (drop 1 rest) = CHR '':'' then
        (if ellipsis \<noteq> None then None
         else if drop 2 rest = [] then ipv6_finish [] ip (Some (length ip))
         else ipv6_loop (drop 2 rest) ip (Some (length ip)))
      else ipv6_loop (drop 1 rest) ip ellipsis)"

lemma hex_group_hex_of:
  assumes "n < 65536"
  shows "hex_group (hex_of n @ rest) 0 0 = hex_group rest (length (hex_of n)) n"
proof -
  have len: "m < 16 ^ k \<Longrightarrow> 0 < k \<Longrightarrow> length (hex_of m) \<le> k" for m k
  proof (induction m arbitrary: k rule: hex_of.induct)
    case (1 m)
    show ?case
    proof (cases "m < 16")
      case True
      then show ?thesis using 1 by (simp add: hex_of.simps)
    next
      case False
      then obtain j where k: "k = Suc j" "0 < j" using "1.prems" by (cases k; cases "k - 1") auto
      then have "length (hex_of (m div 16)) \<le> j"
        using "1.IH" [OF False, of j] "1.prems" by (simp add: less_mult_imp_div_less mult.commute)
      then show ?thesis using False k by (subst hex_of.simps) simp
    qed
  qed
  show ?thesis
    using assms
  proof (induction n arbitrary: rest rule: hex_of.induct)
    case (1 n)
    show ?case
    proof (cases "n < 16")
      case True
      then show ?thesis by (simp add: hex_of.simps)
    next
      case False
      have "n div 16 < 16 ^ 3" using "1.prems" by simp
      then have "length (hex_of (n div 16)) \<le> 3" by (rule len) simp
      moreover have "hex_of n = hex_of (n div 16) @ [hex_char (n mod 16)]"
        using False by (subst hex_of.simps) simp
      moreover have "n div 16 < 65536" using "1.prems" by simp
      ultimately show ?thesis using "1.IH" [OF False] by simp
    qed
  qed
qed

lemma hex_group_stop: "rest = [] \<or> hexdigit_val (hd rest) = None \<Longrightarrow> hex_group rest off acc = Some (acc, off, rest)"
  by (cases rest) auto

lemma hexdigit_val_colon [simp]: "hexdigit_val CHR '':'' = None"
  by (simp add: hexdigit_val_def char_code_def)

lemma ipv6_loop_group:
  assumes "n < 65536" "length ip < 16" "rest = [] \<or> hd rest = CHR '':''"
  shows "ipv6_loop (hex_of n @ rest) ip e = after_group rest (ip @ [of_nat (n div 256), of_nat n]) e"
proof -
  have "rest = [] \<or> hexdigit_val (hd rest) = None" using assms(3) by auto
  then have "hex_group (hex_of n @ rest) 0 0 = Some (n, length (hex_of n), rest)"
    using assms(1) by (simp add: hex_group_hex_of hex_group_stop)
  then show ?thesis
    using assms(2,3) by (subst ipv6_loop.simps) (auto simp: after_group_def numeral_2_eq_2)
qed

lemma v6u16_less: "v6u16 ip i < 65536"
  using unat_byte_less [of "ip ! (2 * i)"] unat_byte_less [of "ip ! (2 * i + 1)"]
  unfolding v6u16_def by linarith

lemma byte_256 [simp]: "(256 :: byte) = 0"
  by code_simp

lemma v6u16_bytes:
  "(of_nat (v6u16 ip i div 256) :: byte) = ip ! (2 * i)" "(of_nat (v6u16 ip i) :: byte) = ip ! (2 * i + 1)"
  by (simp_all add: v6u16_def)

lemma drop_two:
  assumes "length ip = 16" "i < 8"
  shows "drop (2 * i) ip = [ip ! (2 * i), ip ! (2 * i + 1)] @ drop (2 * Suc i) ip"
  using assms by (simp add: Cons_nth_drop_Suc)

lemma take_two:
  assumes "length ip = 16" "i < 8"
  shows "take (2 * Suc i) ip = take (2 * i) ip @ [ip ! (2 * i), ip ! (2 * i + 1)]"
  using assms by (simp add: take_Suc_conv_app_nth)

lemma appendTo6_start: "0 < i \<Longrightarrow> appendTo6 ip z i = [] \<or> hd (appendTo6 ip z i) = CHR '':''"
  by (subst (1 2) appendTo6.simps) auto

lemma hd_hex_of: "hd (hex_of n @ s) \<noteq> CHR '':''"
proof -
  have "hexdigit_val (hd (hex_of n)) \<noteq> None" using hex_of_chars [of n] by (cases "hex_of n") auto
  then show ?thesis by (metis hd_append2 hex_of_nonempty hexdigit_val_colon)
qed

text \<open>From group \<open>i\<close> on, with no run of zeros ahead.\<close>

lemma after_group_plain:
  assumes "length ip = 16" "0 < i" "i \<le> 8" "\<forall>j\<ge>i. j < 8 \<longrightarrow> j \<noteq> fst z" "length acc + 2 * (8 - i) \<le> 16"
  shows "after_group (appendTo6 ip z i) acc e = ipv6_finish [] (acc @ drop (2 * i) ip) e"
  using assms
proof (induction "8 - i" arbitrary: i acc)
  case 0
  then have "i = 8" by simp
  then have "appendTo6 ip z i = []" by (subst appendTo6.simps) simp
  then show ?case using 0 \<open>i = 8\<close> by (simp add: after_group_def)
next
  case (Suc m)
  then have i: "i < 8" by simp
  let ?t = "hex_of (v6u16 ip i) @ appendTo6 ip z (Suc i)"
  have "appendTo6 ip z i = CHR '':'' # ?t"
    using Suc.prems i by (subst appendTo6.simps) auto
  then have "after_group (appendTo6 ip z i) acc e = ipv6_loop ?t acc e"
    using hd_hex_of by (simp add: after_group_def)
  also have "\<dots> = after_group (appendTo6 ip z (Suc i)) (acc @ [ip ! (2 * i), ip ! (2 * i + 1)]) e"
    using ipv6_loop_group [OF v6u16_less, of acc "appendTo6 ip z (Suc i)" ip i e] i Suc.prems
      appendTo6_start [of "Suc i" ip z] by (simp add: v6u16_bytes)
  also have "\<dots> = ipv6_finish [] ((acc @ [ip ! (2 * i), ip ! (2 * i + 1)]) @ drop (2 * Suc i) ip) e"
    using Suc.prems i Suc.hyps(2) by (intro Suc.hyps(1)) auto
  finally show ?case using drop_two [OF Suc.prems(1) i] by simp
qed

text \<open>Up to the run of zeros, which starts at group \<open>fst z\<close>.\<close>

lemma after_group_run:
  assumes "length ip = 16" "0 < i" "i \<le> fst z" "fst z < snd z" "snd z \<le> 8"
  shows "after_group (appendTo6 ip z i) (take (2 * i) ip) None
    = ipv6_finish [] (take (2 * fst z) ip @ drop (2 * snd z) ip) (Some (2 * fst z))"
  using assms
proof (induction "fst z - i" arbitrary: i)
  case 0
  then have i: "i = fst z" by simp
  let ?acc = "take (2 * i) ip" and ?ze = "snd z"
  let ?x = "if ?ze = 8 then [] else hex_of (v6u16 ip ?ze) @ appendTo6 ip z (Suc ?ze)"
  have l: "length ?acc = 2 * i" using 0 by simp
  have x: "appendTo6 ip z i = CHR '':'' # CHR '':'' # ?x"
    using 0 i by (subst appendTo6.simps) auto
  show ?case
  proof (cases "?ze = 8")
    case True
    then show ?thesis using x 0 l by (simp add: after_group_def i)
  next
    case False
    with 0 have ze: "?ze < 8" by simp
    have "after_group (appendTo6 ip z i) ?acc None
        = ipv6_loop (hex_of (v6u16 ip ?ze) @ appendTo6 ip z (Suc ?ze)) ?acc (Some (2 * i))"
      using x False l by (simp add: after_group_def)
    also have "\<dots> = after_group (appendTo6 ip z (Suc ?ze)) (?acc @ [ip ! (2 * ?ze), ip ! (2 * ?ze + 1)]) (Some (2 * i))"
      using ipv6_loop_group [OF v6u16_less, of ?acc "appendTo6 ip z (Suc ?ze)" ip ?ze "Some (2 * i)"]
        appendTo6_start [of "Suc ?ze" ip z] 0 i l by (simp add: v6u16_bytes)
    also have "\<dots> = ipv6_finish [] ((?acc @ [ip ! (2 * ?ze), ip ! (2 * ?ze + 1)]) @ drop (2 * Suc ?ze) ip) (Some (2 * i))"
      using 0 i ze l by (intro after_group_plain) auto
    finally show ?thesis using drop_two [OF 0(2) ze] i by simp
  qed
next
  case (Suc m)
  then have i: "i < 8" "i \<noteq> fst z" by auto
  let ?t = "hex_of (v6u16 ip i) @ appendTo6 ip z (Suc i)"
  have "appendTo6 ip z i = CHR '':'' # ?t"
    using Suc.prems i by (subst appendTo6.simps) auto
  then have "after_group (appendTo6 ip z i) (take (2 * i) ip) None = ipv6_loop ?t (take (2 * i) ip) None"
    using hd_hex_of by (simp add: after_group_def)
  also have "\<dots> = after_group (appendTo6 ip z (Suc i)) (take (2 * Suc i) ip) None"
    using ipv6_loop_group [OF v6u16_less, of "take (2 * i) ip" "appendTo6 ip z (Suc i)" ip i None]
      i Suc.prems appendTo6_start [of "Suc i" ip z] take_two [OF Suc.prems(1) i(1)]
    by (simp add: v6u16_bytes)
  also have "\<dots> = ipv6_finish [] (take (2 * fst z) ip @ drop (2 * snd z) ip) (Some (2 * fst z))"
    using Suc i by (intro Suc.hyps(1)) auto
  finally show ?case .
qed

lemma zero_run_end:
  "j \<le> 8 \<Longrightarrow> j \<le> zero_run_end ip j \<and> zero_run_end ip j \<le> 8 \<and> (\<forall>k. j \<le> k \<and> k < zero_run_end ip j \<longrightarrow> v6u16 ip k = 0)"
proof (induction ip j rule: zero_run_end.induct)
  case (1 ip j)
  show ?case
  proof (cases "j < 8 \<and> v6u16 ip j = 0")
    case True
    then have "zero_run_end ip j = zero_run_end ip (Suc j)" by (subst zero_run_end.simps) simp
    then show ?thesis using "1.IH" True by (auto simp: Suc_le_eq) (metis le_neq_implies_less)
  next
    case False
    then have "zero_run_end ip j = j" by (subst zero_run_end.simps) auto
    then show ?thesis using "1.prems" by simp
  qed
qed

definition run_ok :: "bytes \<Rightarrow> nat \<times> nat \<Rightarrow> bool" where
  "run_ok ip z \<longleftrightarrow> z = (255, 255) \<or>
     (fst z < snd z \<and> snd z \<le> 8 \<and> (\<forall>k. fst z \<le> k \<and> k < snd z \<longrightarrow> v6u16 ip k = 0))"

lemma run_ok_step: "run_ok ip z \<Longrightarrow> i < 8 \<Longrightarrow> run_ok ip (longer_run ip z i)"
  using zero_run_end [of i ip] by (auto simp: run_ok_def longer_run_def Let_def)

lemma run_ok_zero_run: "run_ok ip (zero_run ip)"
proof -
  have "run_ok ip z \<Longrightarrow> \<forall>i \<in> set is. i < 8 \<Longrightarrow> run_ok ip (foldl (longer_run ip) z is)" for z "is"
    by (induction "is" arbitrary: z) (simp_all add: run_ok_step)
  then show ?thesis by (simp add: zero_run_def run_ok_def)
qed

lemma v6u16_zero:
  assumes "v6u16 ip k = 0"
  shows "ip ! (2 * k) = 0" "ip ! (2 * k + 1) = 0"
  using assms by (simp_all add: v6u16_def unat_eq_zero)

lemma zero_run_bytes:
  assumes "length ip = 16" "a < b" "b \<le> 8" "\<forall>k. a \<le> k \<and> k < b \<longrightarrow> v6u16 ip k = 0"
  shows "take (2 * a) ip @ replicate (2 * b - 2 * a) 0 @ drop (2 * b) ip = ip"
proof (rule nth_equalityI)
  fix n assume n: "n < length (take (2 * a) ip @ replicate (2 * b - 2 * a) 0 @ drop (2 * b) ip)"
  have z: "ip ! n = 0" if "2 * a \<le> n" "n < 2 * b"
  proof -
    have "a \<le> n div 2 \<and> n div 2 < b" using that by linarith
    with assms(4) have "v6u16 ip (n div 2) = 0" by blast
    from v6u16_zero [OF this] show ?thesis by (cases "even n") (auto elim!: evenE oddE)
  qed
  show "(take (2 * a) ip @ replicate (2 * b - 2 * a) 0 @ drop (2 * b) ip) ! n = ip ! n"
    using assms n z by (auto simp: nth_append)
qed (use assms in auto)

lemma find_addr_kind_skip:
  "list_all (\<lambda>c. hexdigit_val c \<noteq> None) p \<Longrightarrow> find_addr_kind (p @ s) = find_addr_kind s"
  by (induction p) (auto simp: hexdigit_val_def char_code_def)

lemma find_addr_kind_hex_of [simp]: "find_addr_kind (hex_of n @ s) = find_addr_kind s"
  by (rule find_addr_kind_skip) (rule hex_of_chars)

lemma find_addr_kind_digits_of [simp]: "find_addr_kind (digits_of n @ s) = find_addr_kind s"
  using digits_of_digits [of n] by (intro find_addr_kind_skip) (auto simp: list_all_iff is_digit_hexdigit)

lemma no_percent: "list_all ip_char s \<Longrightarrow> CHR ''%'' \<notin> set s"
  by (auto simp: list_all_iff ip_char_def hexdigit_val_def char_code_def)

lemma ipv6_finish_run:
  assumes "length ip = 16" "a < b" "b \<le> 8" "\<forall>k. a \<le> k \<and> k < b \<longrightarrow> v6u16 ip k = 0"
  shows "ipv6_finish [] (take (2 * a) ip @ drop (2 * b) ip) (Some (2 * a)) = Some ip"
proof -
  have "16 - (2 * a + (16 - 2 * b)) = 2 * b - 2 * a" "2 * a + (16 - 2 * b) < 16" using assms by auto
  then show ?thesis using zero_run_bytes [OF assms] assms by (simp add: ipv6_finish_def)
qed

lemma parse_ipv6_text:
  assumes l: "length ip = 16"
  shows "parseIPv6 (appendTo6 ip (zero_run ip) 0) = Some ip \<and> find_addr_kind (appendTo6 ip (zero_run ip) 0) = Some CHR '':''"
proof -
  let ?z = "zero_run ip"
  let ?t = "appendTo6 ip ?z 0"
  have nop: "CHR ''%'' \<notin> set ?t" by (simp add: no_percent)
  consider (hex) "fst ?z \<noteq> 0" | (run) "fst ?z = 0" by blast
  then show ?thesis
  proof cases
    case hex
    let ?r = "appendTo6 ip ?z (Suc 0)"
    have t: "?t = hex_of (v6u16 ip 0) @ ?r" using hex by (subst appendTo6.simps) simp
    have kind: "find_addr_kind ?r = Some CHR '':''"
      by (subst appendTo6.simps) auto
    have nopre: "\<not> HasPrefix ?t ''::''"
      unfolding t using hd_hex_of [of "v6u16 ip 0" ?r]
      by (cases "hex_of (v6u16 ip 0)") (auto simp: HasPrefix_iff)
    have "parseIPv6 ?t = ipv6_loop ?t [] None" using nop nopre by (simp add: parseIPv6_def)
    also have "\<dots> = after_group ?r (take (2 * Suc 0) ip) None"
      using ipv6_loop_group [OF v6u16_less, of "[]" ?r ip 0 None] appendTo6_start [of "Suc 0" ip ?z]
        t take_two [OF l, of 0] by (simp add: v6u16_bytes)
    also have "\<dots> = Some ip"
    proof (cases "?z = (255, 255)")
      case True
      then have "after_group ?r (take (2 * Suc 0) ip) None = ipv6_finish [] (take (2 * Suc 0) ip @ drop (2 * Suc 0) ip) None"
        using l by (intro after_group_plain) auto
      then show ?thesis using l by (simp add: ipv6_finish_def)
    next
      case False
      with run_ok_zero_run [of ip] have z: "fst ?z < snd ?z" "snd ?z \<le> 8"
        "\<forall>k. fst ?z \<le> k \<and> k < snd ?z \<longrightarrow> v6u16 ip k = 0" by (auto simp: run_ok_def)
      then show ?thesis
        using after_group_run [OF l, of "Suc 0" ?z] hex ipv6_finish_run [OF l z] by simp
    qed
    finally show ?thesis using kind t by simp
  next
    case run
    with run_ok_zero_run [of ip] have z: "0 < snd ?z" "snd ?z \<le> 8"
      "\<forall>k. 0 \<le> k \<and> k < snd ?z \<longrightarrow> v6u16 ip k = 0" by (auto simp: run_ok_def)
    let ?ze = "snd ?z"
    let ?x = "if ?ze = 8 then [] else hex_of (v6u16 ip ?ze) @ appendTo6 ip ?z (Suc ?ze)"
    have t: "?t = CHR '':'' # CHR '':'' # ?x" using run z by (subst appendTo6.simps) auto
    then have pre: "HasPrefix ?t ''::''" "drop 2 ?t = ?x" by (simp_all add: HasPrefix_def)
    have fin: "ipv6_finish [] (drop (2 * ?ze) ip) (Some 0) = Some ip"
      using ipv6_finish_run [OF l z] by simp
    have "parseIPv6 ?t = Some ip"
    proof (cases "?ze = 8")
      case True
      then have "replicate 16 0 = ip" using fin l by (simp add: ipv6_finish_def)
      then show ?thesis using nop pre True by (simp add: parseIPv6_def)
    next
      case False
      with z have ze: "?ze < 8" by simp
      have "parseIPv6 ?t = ipv6_loop (hex_of (v6u16 ip ?ze) @ appendTo6 ip ?z (Suc ?ze)) [] (Some 0)"
        using nop pre False by (simp add: parseIPv6_def)
      also have "\<dots> = after_group (appendTo6 ip ?z (Suc ?ze)) [ip ! (2 * ?ze), ip ! (2 * ?ze + 1)] (Some 0)"
        using ipv6_loop_group [OF v6u16_less, of "[]" "appendTo6 ip ?z (Suc ?ze)" ip ?ze "Some 0"]
          appendTo6_start [of "Suc ?ze" ip ?z] by (simp add: v6u16_bytes)
      also have "\<dots> = ipv6_finish [] ([ip ! (2 * ?ze), ip ! (2 * ?ze + 1)] @ drop (2 * Suc ?ze) ip) (Some 0)"
        using run z ze l by (intro after_group_plain) auto
      finally show ?thesis using drop_two [OF l ze] fin by simp
    qed
    then show ?thesis using t by simp
  qed
qed

lemma parse_dotted:
  assumes "length b = 4"
  shows "ParseIP (dotted b) = Some (v4_prefix @ b)"
proof -
  have "find_addr_kind (dotted b) = Some CHR ''.''" by (simp add: dotted_def)
  then show ?thesis using parseIPv4_dotted [OF assms] by (simp add: ParseIP_def)
qed

lemma ParseIP_String:
  assumes "length ip = 16"
  shows "ParseIP (IP_String ip) = Some ip"
proof (cases "is_v4 ip")
  case True
  then have "ip = v4_prefix @ drop 12 ip" by (metis append_take_drop_id is_v4_def)
  then show ?thesis using True assms parse_dotted [of "drop 12 ip"] by (simp add: IP_String_def)
next
  case False
  then show ?thesis using parse_ipv6_text [OF assms] by (simp add: IP_String_def ParseIP_def)
qed

section \<open>Addresses of \<open>net/netip\<close>\<close>

text \<open>A \<open>netip.Addr\<close>: four bytes, or sixteen bytes with a zone.\<close>

datatype addr = Addr4 bytes | Addr6 bytes string

definition ParseAddr :: "string \<Rightarrow> addr option" where
  "ParseAddr s =
     (case find_addr_kind s of
        None \<Rightarrow> None
      | Some c \<Rightarrow>
          if c = CHR ''.'' then map_option Addr4 (parseIPv4 s)
          else if c = CHR '':'' then
            (let (t, zone, found) = Cut s CHR ''%'' in
             if found \<and> zone = [] then None else map_option (\<lambda>ip. Addr6 ip zone) (parseIPv6 t))
          else None)"

definition Unmap :: "addr \<Rightarrow> addr" where
  "Unmap a = (case a of Addr6 ip zone \<Rightarrow> if is_v4 ip then Addr4 (drop 12 ip) else a | Addr4 b \<Rightarrow> a)"

definition Addr_String :: "addr \<Rightarrow> string" where
  "Addr_String a =
     (case a of
        Addr4 b \<Rightarrow> dotted b
      | Addr6 ip zone \<Rightarrow>
          (if is_v4 ip then ''::ffff:'' @ dotted (drop 12 ip) else appendTo6 ip (zero_run ip) 0)
          @ (if zone = [] then [] else CHR ''%'' # zone))"

lemma ParseAddr_IP_String:
  assumes "length b = 16"
  shows "ParseAddr (IP_String b) = Some (Unmap (Addr6 b []))"
proof (cases "is_v4 b")
  case True
  then show ?thesis
    using assms parseIPv4_dotted [of "drop 12 b"]
    by (simp add: ParseAddr_def IP_String_def Unmap_def) (simp add: dotted_def)
next
  case False
  have "CHR ''%'' \<notin> set (IP_String b)" using IP_String_chars [of b] by (rule no_percent)
  then show ?thesis
    using False parse_ipv6_text [OF assms]
    by (simp add: ParseAddr_def IP_String_def Unmap_def Cut_notin)
qed

end
