(* ===== verification/Client_Identity.thy ===== *)
theory Client_Identity
  imports Go_Net Crypt
begin

text \<open>
  Client identity, \<^verbatim>\<open>src/main.go\<close>: the address and connection a token is bound to, and whether
  the request came over HTTPS. What the proxy tells the plugin about a request is the record
  \<open>request\<close>: its headers and properties (\<open>None\<close> where the host call returns an error), the clock
  at each point where the code reads it, and the outcomes of the random source.

  The lemmas show that a resolved address is in canonical form, which is what makes the code's
  comparison of address strings a comparison of addresses.
\<close>

section \<open>Definitions\<close>

datatype clock_read = ClearanceClock | CookieClock | TokenClock | IssueClock

record request =
  req_header :: "string \<Rightarrow> string option"
  req_property :: "string list \<Rightarrow> bytes option"
  req_clock :: "clock_read \<Rightarrow> int64"
  req_rand :: "nat \<Rightarrow> bytes option"

text \<open>A header whose error the code drops: the value is then the empty string.\<close>

definition header_or_empty :: "request \<Rightarrow> string \<Rightarrow> string" where
  "header_or_empty req name = (case req_header req name of None \<Rightarrow> [] | Some v \<Rightarrow> v)"

datatype clientIPSource = ipSourceAuto | ipSourcePeer

definition clientIPSourceString :: "clientIPSource \<Rightarrow> string" where
  "clientIPSourceString src = (if src = ipSourcePeer then ''source_address'' else ''auto'')"

definition normalizeIP :: "string \<Rightarrow> string" where
  "normalizeIP s =
     (let s = TrimSpace s in
      if s = [] then []
      else
        let s = (case SplitHostPort s of
                   Some host \<Rightarrow> host
                 | None \<Rightarrow> TrimSuffix (TrimPrefix s ''['') '']'');
            s = TrimSpace s
        in if s = [] then []
           else case ParseIP s of Some parsed \<Rightarrow> IP_String parsed | None \<Rightarrow> [])"

fun first_usable :: "string list \<Rightarrow> string" where
  "first_usable [] = []"
| "first_usable (part # parts) = (let ip = normalizeIP part in if ip \<noteq> [] then ip else first_usable parts)"

definition firstForwardedIP :: "string \<Rightarrow> string" where
  "firstForwardedIP xff = first_usable (Split xff CHR '','')"

definition peerIP :: "request \<Rightarrow> string" where
  "peerIP req = (case req_property req [''source'', ''address''] of
     None \<Rightarrow> [] | Some raw \<Rightarrow> normalizeIP (string_of raw))"

definition forwardedIP :: "request \<Rightarrow> string" where
  "forwardedIP req = (case req_header req ''x-forwarded-for'' of
     None \<Rightarrow> [] | Some xff \<Rightarrow> if xff \<noteq> [] then firstForwardedIP xff else [])"

definition realIP :: "request \<Rightarrow> string" where
  "realIP req = (case req_header req ''x-real-ip'' of
     None \<Rightarrow> [] | Some rip \<Rightarrow> if rip \<noteq> [] then normalizeIP rip else [])"

definition resolveClientIP :: "clientIPSource \<Rightarrow> request \<Rightarrow> string" where
  "resolveClientIP src req =
     (if peerIP req \<noteq> [] then peerIP req
      else if src = ipSourcePeer then []
      else if forwardedIP req \<noteq> [] then forwardedIP req
      else if realIP req \<noteq> [] then realIP req
      else [])"

definition resolveConnectionID :: "request \<Rightarrow> string" where
  "resolveConnectionID req =
     (case req_property req [''connection'', ''id''] of
        None \<Rightarrow> []
      | Some raw \<Rightarrow>
          if length raw = 0 then []
          else if length raw \<ge> 8 then FormatUint (Uint64_LE (take 8 raw))
          else (let s = TrimSpace (string_of raw) in if s = [] \<or> s = ''0'' then [] else s))"

definition resolveClientContext :: "clientIPSource \<Rightarrow> request \<Rightarrow> ClientContext" where
  "resolveClientContext src req =
     \<lparr>IP = resolveClientIP src req, ConnID = resolveConnectionID req\<rparr>"

definition requestIsHTTPS :: "request \<Rightarrow> bool" where
  "requestIsHTTPS req =
     (case req_header req '':scheme'' of
        Some scheme \<Rightarrow> EqualFold scheme ''https''
      | None \<Rightarrow>
          (case req_property req [''request'', ''scheme''] of
             Some raw \<Rightarrow> EqualFold (string_of raw) ''https''
           | None \<Rightarrow> False))"

section \<open>Canonical addresses\<close>

lemma IP_String_visible: "list_all visible (IP_String b)"
  using IP_String_chars [of b] ip_char_visible by (auto simp: list_all_iff)

lemma IP_String_trim [simp]: "TrimSpace (IP_String b) = IP_String b"
  by (rule TrimSpace_all_visible) (rule IP_String_visible)

lemma IP_String_no_brackets [simp]: "CHR ''['' \<notin> set (IP_String b)" "CHR '']'' \<notin> set (IP_String b)"
proof -
  have "\<not> ip_char CHR ''[''" "\<not> ip_char CHR '']''" by (simp_all add: ip_char_def hexdigit_val_def char_code_def)
  then show "CHR ''['' \<notin> set (IP_String b)" "CHR '']'' \<notin> set (IP_String b)"
    using IP_String_chars [of b] by (auto simp: list_all_iff)
qed

lemma IP_String_nonempty [simp]: "length b = 16 \<Longrightarrow> IP_String b \<noteq> []"
  using ParseIP_String [of b] by (auto simp: ParseIP_def)

lemma dotted_no_colon: "CHR '':'' \<notin> set (dotted b)"
proof -
  have "CHR '':'' \<notin> set (digits_of n)" for n
    using digits_of_digits [of n] by (auto simp: list_all_iff)
  then show ?thesis by (simp add: dotted_def)
qed

lemma hex_of_no_colon: "CHR '':'' \<notin> set (hex_of n)"
  using hex_of_chars [of n] by (auto simp: list_all_iff)

lemma colons_plain:
  assumes "fst z = 255" "0 < i"
  shows "count_list (appendTo6 ip z i) CHR '':'' = 8 - i"
  using assms
proof (induction "8 - i" arbitrary: i)
  case 0
  then show ?case by (subst appendTo6.simps) simp
next
  case (Suc m)
  then have "appendTo6 ip z i = CHR '':'' # hex_of (v6u16 ip i) @ appendTo6 ip z (Suc i)"
    by (subst appendTo6.simps) simp
  moreover have "count_list (hex_of (v6u16 ip i)) CHR '':'' = 0"
    using hex_of_no_colon by (simp add: count_list_0_iff)
  ultimately show ?case using Suc by (simp add: count_list_append)
qed

lemma colons_run: "i \<le> fst z \<Longrightarrow> fst z < 8 \<Longrightarrow> 2 \<le> count_list (appendTo6 ip z i) CHR '':''"
proof (induction "fst z - i" arbitrary: i)
  case 0
  then have "appendTo6 ip z i = CHR '':'' # CHR '':'' # (if snd z \<ge> 8 \<or> snd z \<le> i then []
      else hex_of (v6u16 ip (snd z)) @ appendTo6 ip z (Suc (snd z)))"
    by (subst appendTo6.simps) simp
  then show ?case by simp
next
  case (Suc m)
  then have "i < 8" "i \<noteq> fst z" by auto
  then have "appendTo6 ip z i = (if i > 0 then '':'' else []) @ hex_of (v6u16 ip i) @ appendTo6 ip z (Suc i)"
    by (subst appendTo6.simps) simp
  moreover have "2 \<le> count_list (appendTo6 ip z (Suc i)) CHR '':''" using Suc by simp
  ultimately show ?case by (simp add: count_list_append)
qed

lemma colons_v6: "2 \<le> count_list (appendTo6 ip (zero_run ip) 0) CHR '':''"
proof (cases "zero_run ip = (255, 255)")
  case True
  then have "appendTo6 ip (zero_run ip) 0 = hex_of (v6u16 ip 0) @ appendTo6 ip (zero_run ip) 1"
    by (subst appendTo6.simps) simp
  then show ?thesis using colons_plain [of "zero_run ip" 1 ip] True by (simp add: count_list_append)
next
  case False
  with run_ok_zero_run [of ip] show ?thesis by (intro colons_run) (auto simp: run_ok_def)
qed

lemma two_colons_no_port:
  assumes "2 \<le> count_list s CHR '':''" "hd s \<noteq> CHR ''[''"
  shows "SplitHostPort s = None"
proof (cases "LastIndexByte s CHR '':''")
  case (Some i)
  from LastIndexByte_SomeD [OF this] have s: "s = take i s @ CHR '':'' # drop (Suc i) s"
    and n: "CHR '':'' \<notin> set (drop (Suc i) s)" by blast+
  from n have "count_list (drop (Suc i) s) CHR '':'' = 0" by (simp add: count_list_0_iff)
  then have "count_list s CHR '':'' = Suc (count_list (take i s) CHR '':'')"
    by (subst s) (simp add: count_list_append)
  with assms have "CHR '':'' \<in> set (take i s)" by (metis Suc_1 Suc_le_mono count_list_0_iff not_one_le_zero One_nat_def)
  then show ?thesis using assms Some by (simp add: SplitHostPort_def)
qed (simp add: SplitHostPort_no_colon)

lemma SplitHostPort_IP_String: "length b = 16 \<Longrightarrow> SplitHostPort (IP_String b) = None"
proof (cases "is_v4 b")
  case True
  then show ?thesis by (simp add: SplitHostPort_no_colon IP_String_def dotted_no_colon)
next
  case False
  assume l: "length b = 16"
  have "hd (IP_String b) \<noteq> CHR ''[''"
    using IP_String_no_brackets(1) [of b] IP_String_nonempty [OF l] by (metis hd_in_set)
  then show ?thesis using False colons_v6 [of b] by (intro two_colons_no_port) (simp_all add: IP_String_def)
qed

lemma trim_brackets_IP_String [simp]:
  "TrimPrefix (IP_String b) ''['' = IP_String b" "TrimSuffix (IP_String b) '']'' = IP_String b"
proof -
  have "\<not> HasPrefix (IP_String b) ''[''" "\<not> HasSuffix (IP_String b) '']''"
    using IP_String_no_brackets [of b] by (metis HasPrefix_iff append_Cons list.set_intros(1))
      (use IP_String_no_brackets [of b] in \<open>metis HasSuffix_iff in_set_conv_decomp append_Nil\<close>)
  then show "TrimPrefix (IP_String b) ''['' = IP_String b" "TrimSuffix (IP_String b) '']'' = IP_String b"
    by (simp_all add: TrimPrefix_def TrimSuffix_def)
qed

lemma normalizeIP_IP_String: "length b = 16 \<Longrightarrow> normalizeIP (IP_String b) = IP_String b"
  by (simp add: normalizeIP_def SplitHostPort_IP_String ParseIP_String)

text \<open>A canonical address, or none.\<close>

definition canonical_ip :: "string \<Rightarrow> bool" where
  "canonical_ip s \<longleftrightarrow> s = [] \<or> (\<exists>b. length b = 16 \<and> s = IP_String b)"

lemma canonical_normalizeIP: "canonical_ip (normalizeIP s)"
  by (auto simp: canonical_ip_def normalizeIP_def Let_def dest: ParseIP_length split: option.split)

lemma normalizeIP_canonical_id: "canonical_ip s \<Longrightarrow> normalizeIP s = s"
  by (auto simp: canonical_ip_def normalizeIP_IP_String) (simp add: normalizeIP_def)

lemma canonical_first_usable: "canonical_ip (first_usable ps)"
  by (induction ps) (simp_all add: canonical_normalizeIP Let_def, simp add: canonical_ip_def)

lemma canonical_Nil: "canonical_ip []"
  by (simp add: canonical_ip_def)

lemma canonical_resolveClientIP: "canonical_ip (resolveClientIP src req)"
  by (auto simp: resolveClientIP_def peerIP_def forwardedIP_def realIP_def firstForwardedIP_def
      canonical_normalizeIP canonical_first_usable canonical_Nil split: option.split)

lemma canonical_plain: "canonical_ip s \<Longrightarrow> json_plain s"
proof -
  have "json_plain_char c" if "ip_char c" for c
    using that by (auto simp: ip_char_def hexdigit_val_def json_plain_char_def char_code_def Let_def split: if_splits)
  then show "canonical_ip s \<Longrightarrow> json_plain s"
    using IP_String_chars by (auto simp: canonical_ip_def json_plain_def list_all_iff)
qed

section \<open>Properties\<close>

text \<open>\<open>normalizeIP\<close> returns nothing or the canonical text of an address, text that parses back
  to that address and that normalising again leaves alone. So two resolved addresses are the
  same string exactly if they are the same address, IPv6 forms, mapped IPv4 and ports included.\<close>

lemma normalizeIP_canonical:
  "normalizeIP (normalizeIP s) = normalizeIP s \<and>
   (normalizeIP s = [] \<or>
    (\<exists>b. length b = 16 \<and> normalizeIP s = IP_String b \<and> ParseIP (normalizeIP s) = Some b))"
  using canonical_normalizeIP [of s] normalizeIP_canonical_id [of "normalizeIP s"] ParseIP_String
  by (auto simp: canonical_ip_def)

lemma visible_punct [simp]: "visible CHR ''[''" "visible CHR '']''" "visible CHR '':''"
  by (simp_all add: visible_def char_code_def)

lemma SplitHostPort_bracketed:
  assumes "CHR ''['' \<notin> set h" "CHR '']'' \<notin> set h" "list_all is_digit port"
  shows "SplitHostPort (CHR ''['' # h @ CHR '']'' # CHR '':'' # port) = Some h"
proof -
  have nd: "CHR '':'' \<notin> set port" "CHR ''['' \<notin> set port" "CHR '']'' \<notin> set port"
    using assms(3) by (auto simp: list_all_iff is_digit_def char_code_def)
  have "LastIndexByte ((CHR ''['' # h @ [CHR '']'']) @ CHR '':'' # port) CHR '':'' = Some (length h + 2)"
    by (subst LastIndexByte_append_notin [OF nd(1)]) simp
  moreover have "IndexByte ((CHR ''['' # h) @ CHR '']'' # CHR '':'' # port) CHR '']'' = Some (length h + 1)"
    using assms(2) by (subst IndexByte_append_notin) auto
  ultimately show ?thesis using assms nd by (simp add: SplitHostPort_def)
qed

lemma SplitHostPort_plain:
  assumes "CHR ''['' \<notin> set h" "CHR '']'' \<notin> set h" "CHR '':'' \<notin> set h" "h \<noteq> []" "list_all is_digit port"
  shows "SplitHostPort (h @ CHR '':'' # port) = Some h"
proof -
  have nd: "CHR '':'' \<notin> set port" "CHR ''['' \<notin> set port" "CHR '']'' \<notin> set port"
    using assms(5) by (auto simp: list_all_iff is_digit_def char_code_def)
  have "hd (h @ CHR '':'' # port) \<noteq> CHR ''[''" using assms by (cases h) auto
  then show ?thesis using assms nd by (auto simp: SplitHostPort_def LastIndexByte_append_notin)
qed

text \<open>The forms in which proxies write a client address are read alike: a bare address, one in
  brackets, one in brackets with a port and, for IPv4, one with a port all normalise to the
  canonical text of the address.\<close>

lemma normalizeIP_forms:
  assumes "length b = 16" and "list_all is_digit port"
  shows "normalizeIP (IP_String b) = IP_String b
    \<and> normalizeIP (CHR ''['' # IP_String b @ '']'') = IP_String b
    \<and> normalizeIP (CHR ''['' # IP_String b @ '']:'' @ port) = IP_String b
    \<and> (if is_v4 b then normalizeIP (IP_String b @ '':'' @ port) = IP_String b else True)"
proof (intro conjI)
  let ?s = "IP_String b"
  have vis: "list_all visible port" using assms(2) by (auto simp: list_all_iff digit_visible)
  have v: "list_all visible ?s" by (rule IP_String_visible)
  show "normalizeIP ?s = ?s" by (rule normalizeIP_IP_String) (rule assms(1))
  have "SplitHostPort (CHR ''['' # ?s @ '']'') = None"
  proof (cases "LastIndexByte (CHR ''['' # ?s @ '']'') CHR '':''")
    case (Some i)
    have "IndexByte ((CHR ''['' # ?s) @ CHR '']'' # []) CHR '']'' = Some (length ?s + 1)"
      by (subst IndexByte_append_notin) auto
    then show ?thesis using Some by (simp add: SplitHostPort_def)
  qed (intro SplitHostPort_no_colon, simp)
  then show "normalizeIP (CHR ''['' # ?s @ '']'') = ?s"
    using v assms ParseIP_String
    by (simp add: normalizeIP_def TrimSpace_all_visible TrimPrefix_def TrimSuffix_def HasPrefix_def HasSuffix_def)
  show "normalizeIP (CHR ''['' # ?s @ '']:'' @ port) = ?s"
    using v vis assms ParseIP_String SplitHostPort_bracketed [of ?s port]
    by (simp add: normalizeIP_def TrimSpace_all_visible)
  show "if is_v4 b then normalizeIP (?s @ '':'' @ port) = ?s else True"
  proof (cases "is_v4 b")
    case True
    then have "CHR '':'' \<notin> set ?s" by (simp add: IP_String_def dotted_no_colon)
    then show ?thesis
      using v vis assms ParseIP_String SplitHostPort_plain [of ?s port]
      by (simp add: normalizeIP_def TrimSpace_all_visible)
  qed simp
qed

lemma normalizeIP_forms_witness:
  "normalizeIP (CHR ''['' # IP_String (replicate 15 0 @ [1]) @ '']:8080'') = IP_String (replicate 15 0 @ [1])"
  using normalizeIP_forms [of "replicate 15 0 @ [1]" "''8080''"] by (simp add: is_digit_def char_code_def)

text \<open>The resolved address cannot be spoofed through headers where the proxy reports a usable
  peer address, nor at all when the peer is configured as the only source: changing the request's
  headers then changes nothing.\<close>

lemma resolveClientIP_ignores_headers:
  assumes "src = ipSourcePeer \<or> peerIP req \<noteq> []"
  shows "resolveClientIP src (req\<lparr>req_header := h\<rparr>) = resolveClientIP src req
    \<and> resolveClientIP src req = peerIP req"
  using assms by (auto simp: resolveClientIP_def peerIP_def)

lemma resolveClientIP_sources:
  "\<exists>req. req_header req ''x-forwarded-for'' = Some ''203.0.113.9''
     \<and> resolveClientIP ipSourcePeer req = []
     \<and> resolveClientIP ipSourceAuto req = ''203.0.113.9''"
proof -
  let ?r = "\<lparr>req_header = (\<lambda>n. if n = ''x-forwarded-for'' then Some ''203.0.113.9'' else None),
     req_property = (\<lambda>_. None), req_clock = (\<lambda>_. 0), req_rand = (\<lambda>_. None)\<rparr>"
  have n: "normalizeIP ''203.0.113.9'' = ''203.0.113.9''" by code_simp
  have "Split ''203.0.113.9'' CHR '','' = [''203.0.113.9'']" by code_simp
  then have "resolveClientIP ipSourceAuto ?r = ''203.0.113.9''"
    using n by (simp add: resolveClientIP_def peerIP_def forwardedIP_def firstForwardedIP_def)
  moreover have "resolveClientIP ipSourcePeer ?r = []"
    using resolveClientIP_ignores_headers [of ipSourcePeer ?r "\<lambda>_. None"] by (simp add: peerIP_def)
  ultimately show ?thesis by (intro exI [of _ ?r]) simp
qed

end
