(* ===== verification/Gjson.thy ===== *)
theory Gjson
  imports Prelude
begin

text \<open>
  The third-party package \<open>gjson\<close> as a parameter: the functions of the package the program
  calls, on an abstract type \<open>'r\<close> of results. The configuration theories take a value of this
  record as an argument and assume nothing about it.
\<close>

record 'r gjson =
  gj_ValidBytes :: "bytes \<Rightarrow> bool"
  gj_GetBytes :: "bytes \<Rightarrow> string \<Rightarrow> 'r"
  gj_Get :: "'r \<Rightarrow> string \<Rightarrow> 'r"
  gj_Exists :: "'r \<Rightarrow> bool"
  gj_IsArray :: "'r \<Rightarrow> bool"
  gj_IsObject :: "'r \<Rightarrow> bool"
  gj_TypeIsString :: "'r \<Rightarrow> bool"
  gj_Str :: "'r \<Rightarrow> string"
  gj_String :: "'r \<Rightarrow> string"
  gj_Int :: "'r \<Rightarrow> int64"
  gj_Uint :: "'r \<Rightarrow> uint64"
  gj_Array :: "'r \<Rightarrow> 'r list"
  gj_ForEach_values :: "'r \<Rightarrow> 'r list"

text \<open>\<open>gj_ForEach_values r\<close> are the values \<open>r.ForEach\<close> passes to its callback, in order; a loop
  that returns \<open>false\<close> from the callback is a recursion over this list that stops there.\<close>

end
