(* ===== verification/Protected.thy ===== *)
theory Protected
  imports Gjson Go_Strings
begin

text \<open>
  Selective protection, \<^verbatim>\<open>src/protected.go\<close>: the compiled matchers, the match of a request's
  authority and path, and the compilation of the \<open>protected\<close> configuration list with the problems
  it reports. \<open>ul\<close> is the mapping of \<open>strings.ToLower\<close> outside ASCII (see \<open>Go_Strings\<close>).
\<close>

section \<open>Matching\<close>

record protectedHost =
  exact :: string
  dotSuffix :: string

definition protectedHost_matches :: "protectedHost \<Rightarrow> string \<Rightarrow> bool" where
  "protectedHost_matches h host =
     (if dotSuffix h = [] then host = exact h
      else if length host \<le> length (dotSuffix h) \<or> \<not> HasSuffix host (dotSuffix h) then False
      else let remainder = take (length host - length (dotSuffix h)) host
           in IndexByte remainder CHR ''.'' = None)"

record protectedRule =
  anyHost :: bool
  anyPath :: bool
  hosts :: "protectedHost list"
  paths :: "string list"

definition protectedRule_matches :: "protectedRule \<Rightarrow> string \<Rightarrow> string \<Rightarrow> bool" where
  "protectedRule_matches r host path =
     (if \<not> anyHost r \<and> \<not> list_ex (\<lambda>h. protectedHost_matches h host) (hosts r) then False
      else if \<not> anyPath r \<and> \<not> list_ex (HasPrefix path) (paths r) then False
      else True)"

definition normalizeAuthority :: "(string \<Rightarrow> string) \<Rightarrow> string \<Rightarrow> string" where
  "normalizeAuthority ul a =
     (if HasPrefix a ''['' then
        (case IndexByte a CHR '']'' of
           Some i \<Rightarrow> strings_ToLower ul (drop 1 (take i a))
         | None \<Rightarrow> strings_ToLower ul a)
      else
        (case LastIndexByte a CHR '':'' of
           Some i \<Rightarrow>
             if i > 0 \<and> list_all is_digit (drop (Suc i) a) \<and> IndexByte (take i a) CHR '':'' = None
             then strings_ToLower ul (take i a)
             else strings_ToLower ul a
         | None \<Rightarrow> strings_ToLower ul a))"

definition strip_query :: "string \<Rightarrow> string" where
  "strip_query path = (case IndexByte path CHR ''?'' of Some i \<Rightarrow> take i path | None \<Rightarrow> path)"

definition matchProtectedRules ::
  "(string \<Rightarrow> string) \<Rightarrow> protectedRule list \<Rightarrow> string \<Rightarrow> string \<Rightarrow> bool" where
  "matchProtectedRules ul rules authority path =
     (let host = normalizeAuthority ul authority; path = strip_query path
      in list_ex (\<lambda>r. protectedRule_matches r host path) rules)"

section \<open>Compiling the configuration\<close>

text \<open>The host (without the wildcard) and whether it was a wildcard; \<open>None\<close> for an invalid one.\<close>

definition compileProtectedHost :: "(string \<Rightarrow> string) \<Rightarrow> string \<Rightarrow> (string \<times> bool) option" where
  "compileProtectedHost ul h =
     (if h = [] then None
      else if HasPrefix h ''*.'' then
        (let suffix = strings_ToLower ul (drop 2 h) in
         if suffix = [] \<or> CHR ''*'' \<in> set suffix then None else Some (suffix, True))
      else if CHR ''*'' \<in> set h then None
      else Some (strings_ToLower ul h, False))"

definition rule_prefix :: "int64 \<Rightarrow> string" where
  "rule_prefix index = ''rule #'' @ Itoa index @ '': ''"

definition bad_rule :: "int64 \<Rightarrow> string \<Rightarrow> protectedRule option \<times> string list" where
  "bad_rule index reason = (None, [rule_prefix index @ reason @ ''; dropping rule''])"

text \<open>The callbacks of the two loops: the compiled entries, or the problem at which a loop stops.\<close>

fun compile_hosts ::
  "'r gjson \<Rightarrow> (string \<Rightarrow> string) \<Rightarrow> int64 \<Rightarrow> 'r list \<Rightarrow> protectedHost list \<Rightarrow> string + protectedHost list" where
  "compile_hosts gj ul index [] acc = Inr acc"
| "compile_hosts gj ul index (h # hs) acc =
     (if \<not> gj_TypeIsString gj h then Inl (rule_prefix index @ ''non-string `hosts` entry; dropping rule'')
      else case compileProtectedHost ul (gj_String gj h) of
        None \<Rightarrow> Inl (rule_prefix index @ ''invalid host `'' @ gj_String gj h @ ''`; dropping rule'')
      | Some (host, wild) \<Rightarrow>
          compile_hosts gj ul index hs
            (acc @ [if wild then \<lparr>exact = [], dotSuffix = CHR ''.'' # host\<rparr>
                    else \<lparr>exact = host, dotSuffix = []\<rparr>]))"

fun compile_paths ::
  "'r gjson \<Rightarrow> int64 \<Rightarrow> 'r list \<Rightarrow> string list \<Rightarrow> string + string list" where
  "compile_paths gj index [] acc = Inr acc"
| "compile_paths gj index (p # ps) acc =
     (if \<not> gj_TypeIsString gj p then Inl (rule_prefix index @ ''non-string `paths` entry; dropping rule'')
      else if gj_String gj p = [] then Inl (rule_prefix index @ ''empty `paths` entry; dropping rule'')
      else compile_paths gj index ps (acc @ [gj_String gj p]))"

text \<open>A list is given and not the empty array.\<close>

definition restricts :: "'r gjson \<Rightarrow> 'r \<Rightarrow> bool" where
  "restricts gj j \<longleftrightarrow> gj_Exists gj j \<and> \<not> (gj_IsArray gj j \<and> gj_Array gj j = [])"

definition compile_paths_part ::
  "'r gjson \<Rightarrow> int64 \<Rightarrow> 'r \<Rightarrow> protectedRule \<Rightarrow> protectedRule option \<times> string list" where
  "compile_paths_part gj index pathsJ rule =
     (if restricts gj pathsJ then
        (if \<not> gj_IsArray gj pathsJ then bad_rule index ''`paths` must be an array of strings''
         else case compile_paths gj index (gj_ForEach_values gj pathsJ) [] of
           Inl prob \<Rightarrow> (None, [prob])
         | Inr ps \<Rightarrow> (Some (rule\<lparr>anyPath := False, paths := ps\<rparr>), []))
      else (Some (rule\<lparr>anyPath := True\<rparr>), []))"

definition compileProtectedRule ::
  "'r gjson \<Rightarrow> (string \<Rightarrow> string) \<Rightarrow> 'r \<Rightarrow> int64 \<Rightarrow> protectedRule option \<times> string list" where
  "compileProtectedRule gj ul entry index =
     (if \<not> gj_IsObject gj entry then bad_rule index ''entry is not an object''
      else
        let hostsJ = gj_Get gj entry ''hosts''; pathsJ = gj_Get gj entry ''paths'';
            rule = \<lparr>anyHost = False, anyPath = False, hosts = [], paths = []\<rparr> in
        if \<not> gj_Exists gj hostsJ \<and> \<not> gj_Exists gj pathsJ
          then bad_rule index ''rule has neither `hosts` nor `paths`; treating as match-nothing''
        else if restricts gj hostsJ then
          (if \<not> gj_IsArray gj hostsJ then bad_rule index ''`hosts` must be an array of strings''
           else case compile_hosts gj ul index (gj_ForEach_values gj hostsJ) [] of
             Inl prob \<Rightarrow> (None, [prob])
           | Inr hs \<Rightarrow> compile_paths_part gj index pathsJ (rule\<lparr>anyHost := False, hosts := hs\<rparr>))
        else compile_paths_part gj index pathsJ (rule\<lparr>anyHost := True\<rparr>))"

fun compile_rules ::
  "'r gjson \<Rightarrow> (string \<Rightarrow> string) \<Rightarrow> 'r list \<Rightarrow> int64 \<Rightarrow> protectedRule list \<Rightarrow> string list
   \<Rightarrow> protectedRule list \<times> string list" where
  "compile_rules gj ul [] seen rules problems = (rules, problems)"
| "compile_rules gj ul (entry # es) seen rules problems =
     (let seen = seen + 1;
          (rule, probs) = compileProtectedRule gj ul entry seen
      in compile_rules gj ul es seen
           (case rule of None \<Rightarrow> rules | Some r \<Rightarrow> rules @ [r]) (problems @ probs))"

definition parseProtectedConfig ::
  "'r gjson \<Rightarrow> (string \<Rightarrow> string) \<Rightarrow> bytes \<Rightarrow> protectedRule list \<times> bool \<times> string list" where
  "parseProtectedConfig gj ul data =
     (let top = gj_GetBytes gj data ''protected'' in
      if \<not> gj_Exists gj top then ([], True, [])
      else if \<not> gj_IsArray gj top then
        ([], True, [''`protected` must be an array of rule objects; ignoring it and challenging all requests''])
      else
        let (rules, problems) = compile_rules gj ul (gj_ForEach_values gj top) 0 [] [] in
        if gj_ForEach_values gj top = [] then ([], True, [])
        else if rules = [] then
          ([], True, problems @ [''every `protected` rule was invalid; falling back to challenging all requests''])
        else (rules, False, problems))"

section \<open>Facts\<close>

text \<open>A host matches a wildcard exactly if it is one more label in front of its suffix.\<close>

lemma protectedHost_matches_iff:
  "protectedHost_matches h host \<longleftrightarrow>
     (if dotSuffix h = [] then host = exact h
      else \<exists>label. label \<noteq> [] \<and> CHR ''.'' \<notin> set label \<and> host = label @ dotSuffix h)"
proof (cases "dotSuffix h = []")
  case False
  have "protectedHost_matches h host \<longleftrightarrow> (\<exists>label. label \<noteq> [] \<and> CHR ''.'' \<notin> set label \<and> host = label @ dotSuffix h)"
    (is "?L \<longleftrightarrow> ?R")
  proof
    assume ?L
    with False have l: "length (dotSuffix h) < length host" "HasSuffix host (dotSuffix h)"
      and d: "CHR ''.'' \<notin> set (take (length host - length (dotSuffix h)) host)"
      by (auto simp: protectedHost_matches_def split: if_splits)
    then have "host = take (length host - length (dotSuffix h)) host @ dotSuffix h"
      by (auto simp: HasSuffix_def) (metis append_take_drop_id)
    then show ?R using l d by (intro exI [of _ "take (length host - length (dotSuffix h)) host"]) auto
  next
    assume ?R
    then show ?L using False by (auto simp: protectedHost_matches_def HasSuffix_iff)
  qed
  then show ?thesis using False by simp
qed (simp add: protectedHost_matches_def)

lemma strip_query_prefix: "CHR ''?'' \<notin> set (strip_query path)"
  using IndexByte_SomeD(2) [of path "CHR ''?''"]
  by (auto simp: strip_query_def split: option.splits dest: IndexByte_None [THEN iffD1])

lemma strip_query_append: "CHR ''?'' \<notin> set p \<Longrightarrow> strip_query (p @ CHR ''?'' # q) = p"
  by (simp add: strip_query_def IndexByte_append_notin)

lemma strip_query_id: "CHR ''?'' \<notin> set p \<Longrightarrow> strip_query p = p"
  using IndexByte_None [of p "CHR ''?''"] by (simp add: strip_query_def del: IndexByte_None)

lemma ascii_ToLower: "list_all is_ascii s \<Longrightarrow> strings_ToLower ul s = map ascii_lower s"
  by (simp add: strings_ToLower_def)

lemma ascii_lower_punct [simp]: "ascii_lower c = CHR '':'' \<longleftrightarrow> c = CHR '':''"
  "ascii_lower c = CHR ''.'' \<longleftrightarrow> c = CHR ''.''" "ascii_lower c = CHR ''*'' \<longleftrightarrow> c = CHR ''*''"
  by (simp_all add: ascii_lower_eq_iff char_code_def)

lemma ascii_lower_digit: "is_digit (ascii_lower c) = is_digit c"
  by (auto simp: is_digit_def ascii_lower_def)

lemma digit_is_ascii: "is_digit c \<Longrightarrow> is_ascii c"
  by (simp add: is_digit_def is_ascii_def)

lemma colon_notin_lower: "CHR '':'' \<in> set (map ascii_lower s) \<longleftrightarrow> CHR '':'' \<in> set s"
  by (simp add: image_iff eq_commute [of "CHR '':''"])

lemma normalizeAuthority_port:
  assumes "x \<noteq> []" "CHR '':'' \<notin> set x" "hd x \<noteq> CHR ''[''" "list_all is_digit port"
  shows "normalizeAuthority ul (x @ CHR '':'' # port) = strings_ToLower ul x"
proof -
  have "CHR '':'' \<notin> set port" using assms(4) by (auto simp: list_all_iff is_digit_def char_code_def)
  moreover have "\<not> HasPrefix (x @ CHR '':'' # port) ''[''"
    using assms by (cases x) (auto simp: HasPrefix_def)
  ultimately show ?thesis
    using assms IndexByte_None [of x "CHR '':''"]
    by (simp add: normalizeAuthority_def LastIndexByte_append_notin del: IndexByte_None)
qed

lemma normalizeAuthority_plain:
  assumes "CHR '':'' \<notin> set x" "\<not> HasPrefix x ''[''"
  shows "normalizeAuthority ul x = strings_ToLower ul x"
  using assms LastIndexByte_None [of x "CHR '':''"]
  by (simp add: normalizeAuthority_def del: LastIndexByte_None)

text \<open>An unbracketed ASCII authority never normalises to a host with a port.\<close>

lemma normalizeAuthority_no_port:
  assumes "list_all is_ascii a" "\<not> HasPrefix a ''[''" "x \<noteq> []" "CHR '':'' \<notin> set x" "list_all is_digit port"
  shows "normalizeAuthority ul a \<noteq> x @ CHR '':'' # port"
proof
  assume n: "normalizeAuthority ul a = x @ CHR '':'' # port"
  have pc: "CHR '':'' \<notin> set port" using assms(5) by (auto simp: list_all_iff is_digit_def char_code_def)
  show False
  proof (cases "LastIndexByte a CHR '':''")
    case None
    then have "CHR '':'' \<notin> set a" by simp
    then have "CHR '':'' \<notin> set (map ascii_lower a)" by (simp only: colon_notin_lower) simp
    moreover have "map ascii_lower a = x @ CHR '':'' # port"
      using n None assms by (simp add: normalizeAuthority_def ascii_ToLower)
    ultimately show False by simp
  next
    case (Some i)
    from LastIndexByte_SomeD [OF Some] have a: "a = take i a @ CHR '':'' # drop (Suc i) a"
      and d: "CHR '':'' \<notin> set (drop (Suc i) a)" "i < length a" by blast+
    let ?b = "take i a" and ?r = "drop (Suc i) a"
    have asc: "list_all is_ascii ?b" using assms(1) by (auto simp: list_all_iff dest: in_set_takeD)
    show False
    proof (cases "i > 0 \<and> list_all is_digit ?r \<and> CHR '':'' \<notin> set ?b")
      case True
      then have "normalizeAuthority ul a = map ascii_lower ?b"
        using Some assms(2) asc IndexByte_None [of ?b "CHR '':''"]
        by (simp add: normalizeAuthority_def ascii_ToLower del: IndexByte_None)
      moreover have "CHR '':'' \<notin> set (map ascii_lower ?b)" using True by (simp only: colon_notin_lower) simp
      ultimately show False using n by (metis in_set_conv_decomp)
    next
      case False
      then have "normalizeAuthority ul a = map ascii_lower a"
        using Some assms(1,2) by (auto simp: normalizeAuthority_def ascii_ToLower simp del: IndexByte_None
          split: option.split) (metis IndexByte_None not_None_eq)
      then have "map ascii_lower ?b @ CHR '':'' # map ascii_lower ?r = x @ CHR '':'' # port"
        using n by (subst (asm) (2) a) (simp add: ascii_lower_def char_code_def)
      moreover have "CHR '':'' \<notin> set (map ascii_lower ?r)" using d(1) by (simp only: colon_notin_lower) simp
      ultimately have "map ascii_lower ?b = x" "map ascii_lower ?r = port"
        using LastIndexByte_append_notin pc by (metis append_eq_append_conv list.inject option.inject)+
      then have "i > 0 \<and> list_all is_digit ?r \<and> CHR '':'' \<notin> set ?b"
        using assms(3-5) d(2) by (auto simp: list.pred_map comp_def ascii_lower_digit image_iff) (metis ascii_lower_punct(1))
      then show False using False by blast
    qed
  qed
qed

section \<open>The meaning of the configuration\<close>

text \<open>What the README says of an entry of the \<open>protected\<close> list: which are well formed, and which host and
  path each of them covers. A host is a non-empty text whose only asterisk is a leading label of its
  own; a path is a non-empty text.\<close>

definition good_host :: "'r gjson \<Rightarrow> (string \<Rightarrow> string) \<Rightarrow> 'r \<Rightarrow> bool" where
  "good_host gj ul h \<longleftrightarrow> gj_TypeIsString gj h \<and>
     (gj_String gj h \<noteq> [] \<and> CHR ''*'' \<notin> set (gj_String gj h)
      \<or> (\<exists>suffix. gj_String gj h = ''*.'' @ suffix \<and> strings_ToLower ul suffix \<noteq> []
           \<and> CHR ''*'' \<notin> set (strings_ToLower ul suffix)))"

definition good_path :: "'r gjson \<Rightarrow> 'r \<Rightarrow> bool" where
  "good_path gj p \<longleftrightarrow> gj_TypeIsString gj p \<and> gj_String gj p \<noteq> []"

definition good_list :: "'r gjson \<Rightarrow> ('r \<Rightarrow> bool) \<Rightarrow> 'r \<Rightarrow> bool" where
  "good_list gj good j \<longleftrightarrow> (restricts gj j \<longrightarrow> gj_IsArray gj j \<and> list_all good (gj_ForEach_values gj j))"

definition good_entry :: "'r gjson \<Rightarrow> (string \<Rightarrow> string) \<Rightarrow> 'r \<Rightarrow> bool" where
  "good_entry gj ul e \<longleftrightarrow> gj_IsObject gj e
     \<and> (gj_Exists gj (gj_Get gj e ''hosts'') \<or> gj_Exists gj (gj_Get gj e ''paths''))
     \<and> good_list gj (good_host gj ul) (gj_Get gj e ''hosts'') \<and> good_list gj (good_path gj) (gj_Get gj e ''paths'')"

definition host_covers :: "'r gjson \<Rightarrow> (string \<Rightarrow> string) \<Rightarrow> string \<Rightarrow> 'r \<Rightarrow> bool" where
  "host_covers gj ul host h \<longleftrightarrow>
     (if HasPrefix (gj_String gj h) ''*.''
      then \<exists>label. label \<noteq> [] \<and> CHR ''.'' \<notin> set label
             \<and> host = label @ ''.'' @ strings_ToLower ul (drop 2 (gj_String gj h))
      else host = strings_ToLower ul (gj_String gj h))"

definition entry_covers :: "'r gjson \<Rightarrow> (string \<Rightarrow> string) \<Rightarrow> string \<Rightarrow> string \<Rightarrow> 'r \<Rightarrow> bool" where
  "entry_covers gj ul host path e \<longleftrightarrow>
     (restricts gj (gj_Get gj e ''hosts'') \<longrightarrow>
        (\<exists>h\<in>set (gj_ForEach_values gj (gj_Get gj e ''hosts'')). host_covers gj ul host h))
     \<and> (restricts gj (gj_Get gj e ''paths'') \<longrightarrow>
        (\<exists>p\<in>set (gj_ForEach_values gj (gj_Get gj e ''paths'')). \<exists>rest. path = gj_String gj p @ rest))"

lemma compileProtectedHost_good:
  assumes "gj_TypeIsString gj h"
  shows "good_host gj ul h \<longleftrightarrow> compileProtectedHost ul (gj_String gj h) \<noteq> None"
proof (cases "HasPrefix (gj_String gj h) ''*.''")
  case True
  then obtain suffix where "gj_String gj h = ''*.'' @ suffix" by (auto simp: HasPrefix_iff)
  then show ?thesis using assms True by (auto simp: good_host_def compileProtectedHost_def Let_def)
next
  case False
  then have "\<not> (\<exists>suffix. gj_String gj h = ''*.'' @ suffix)" by (auto simp: HasPrefix_iff)
  then show ?thesis using assms False by (auto simp: good_host_def compileProtectedHost_def)
qed

lemma compileProtectedHost_covers:
  assumes "compileProtectedHost ul (gj_String gj h) = Some (host, wild)"
  shows "protectedHost_matches (if wild then \<lparr>exact = [], dotSuffix = CHR ''.'' # host\<rparr> else \<lparr>exact = host, dotSuffix = []\<rparr>) x
    \<longleftrightarrow> host_covers gj ul x h"
  using assms by (auto simp: compileProtectedHost_def host_covers_def protectedHost_matches_iff Let_def split: if_splits)

lemma compile_hosts_cases:
  "case compile_hosts gj ul index hs acc of
     Inl prob \<Rightarrow> \<not> list_all (good_host gj ul) hs \<and> HasPrefix prob (rule_prefix index)
   | Inr res \<Rightarrow> list_all (good_host gj ul) hs
       \<and> (\<forall>host. list_ex (\<lambda>h. protectedHost_matches h host) res
            \<longleftrightarrow> list_ex (\<lambda>h. protectedHost_matches h host) acc \<or> (\<exists>h\<in>set hs. host_covers gj ul host h))"
proof (induction gj ul index hs acc rule: compile_hosts.induct)
  case (2 gj ul index h hs acc)
  show ?case
  proof (cases "gj_TypeIsString gj h")
    case True
    show ?thesis
    proof (cases "compileProtectedHost ul (gj_String gj h)")
      case None
      then show ?thesis using True compileProtectedHost_good [OF True] by (simp add: HasPrefix_iff)
    next
      case (Some p)
      obtain host wild where p: "p = (host, wild)" by (cases p)
      have "\<not> \<not> gj_TypeIsString gj h" using True by simp
      note IH = "2.IH" [OF this Some p [symmetric]]
      define x where "x = (if wild then \<lparr>exact = [], dotSuffix = CHR ''.'' # host\<rparr> else \<lparr>exact = host, dotSuffix = []\<rparr>)"
      have "compile_hosts gj ul index (h # hs) acc = compile_hosts gj ul index hs (acc @ [x])"
        using True Some p by (simp add: x_def)
      moreover have "protectedHost_matches x = (\<lambda>y. host_covers gj ul y h)"
        using compileProtectedHost_covers [of ul gj h host wild] Some p by (auto simp: x_def)
      moreover have "good_host gj ul h" using compileProtectedHost_good [OF True] Some by simp
      ultimately show ?thesis using IH [folded x_def] by (auto split: sum.splits)
    qed
  qed (simp add: good_host_def HasPrefix_iff)
qed simp

lemma compile_paths_cases:
  "case compile_paths gj index ps acc of
     Inl prob \<Rightarrow> \<not> list_all (good_path gj) ps \<and> HasPrefix prob (rule_prefix index)
   | Inr res \<Rightarrow> list_all (good_path gj) ps \<and> res = acc @ map (gj_String gj) ps"
  by (induction gj index ps acc rule: compile_paths.induct) (auto simp: good_path_def HasPrefix_iff split: sum.splits)

text \<open>An entry is compiled to a rule that covers what the entry covers, or dropped with one problem.\<close>

lemma compile_paths_part_cases:
  obtains (dropped) prob where "compile_paths_part gj index pathsJ rule = (None, [prob])"
    "\<not> good_list gj (good_path gj) pathsJ" "HasPrefix prob (rule_prefix index)"
  | (compiled) r where "compile_paths_part gj index pathsJ rule = (Some r, [])" "good_list gj (good_path gj) pathsJ"
    "anyHost r = anyHost rule" "hosts r = hosts rule"
    "\<And>path. anyPath r \<or> list_ex (HasPrefix path) (paths r) \<longleftrightarrow>
       (restricts gj pathsJ \<longrightarrow> (\<exists>p\<in>set (gj_ForEach_values gj pathsJ). \<exists>rest. path = gj_String gj p @ rest))"
proof (cases "restricts gj pathsJ \<and> gj_IsArray gj pathsJ")
  case True
  note c = compile_paths_cases [where gj = gj and index = index and ps = "gj_ForEach_values gj pathsJ" and acc = "[]"]
  show thesis
  proof (cases "compile_paths gj index (gj_ForEach_values gj pathsJ) []")
    case (Inl prob)
    then show ?thesis using dropped [of prob] c True by (simp add: compile_paths_part_def good_list_def)
  next
    case (Inr ps)
    then show ?thesis
      using compiled [of "rule\<lparr>anyPath := False, paths := ps\<rparr>"] c True
      by (simp add: compile_paths_part_def good_list_def list_ex_iff HasPrefix_iff)
  qed
next
  case False
  then show thesis
    using compiled [of "rule\<lparr>anyPath := True\<rparr>"] dropped [of "rule_prefix index @ ''`paths` must be an array of strings'' @ ''; dropping rule''"]
    by (auto simp: compile_paths_part_def good_list_def bad_rule_def HasPrefix_iff)
qed

lemma compileProtectedRule_cases:
  obtains (bad) prob where "compileProtectedRule gj ul e index = (None, [prob])"
    "\<not> good_entry gj ul e" "HasPrefix prob (rule_prefix index)"
  | (good) r where "compileProtectedRule gj ul e index = (Some r, [])" "good_entry gj ul e"
    "\<And>host path. protectedRule_matches r host path = entry_covers gj ul host path e"
proof -
  let ?hj = "gj_Get gj e ''hosts''" and ?pj = "gj_Get gj e ''paths''"
  let ?rule = "\<lparr>anyHost = False, anyPath = False, hosts = [], paths = []\<rparr>"
  have paths: thesis
    if c: "compileProtectedRule gj ul e index = compile_paths_part gj index ?pj rule"
      and g: "good_entry gj ul e \<longleftrightarrow> good_list gj (good_path gj) ?pj"
      and h: "\<And>host. anyHost rule \<or> list_ex (\<lambda>h. protectedHost_matches h host) (hosts rule) \<longleftrightarrow>
        (restricts gj ?hj \<longrightarrow> (\<exists>h\<in>set (gj_ForEach_values gj ?hj). host_covers gj ul host h))" for rule
  proof (cases rule: compile_paths_part_cases [of gj index ?pj rule])
    case (dropped prob)
    then show thesis using bad c g by simp
  next
    case (compiled r)
    have "protectedRule_matches r host path = entry_covers gj ul host path e" for host path
      using compiled(5) [of path] h [of host] unfolding protectedRule_matches_def entry_covers_def compiled(3,4) by auto
    then show thesis using good [of r] compiled(1,2) c g by simp
  qed
  have drop: thesis if "compileProtectedRule gj ul e index = bad_rule index reason" "\<not> good_entry gj ul e" for reason
    using that bad [of "rule_prefix index @ reason @ ''; dropping rule''"] by (simp add: bad_rule_def HasPrefix_iff)
  consider "\<not> gj_IsObject gj e" | "gj_IsObject gj e" "\<not> gj_Exists gj ?hj" "\<not> gj_Exists gj ?pj"
    | (any) "gj_IsObject gj e" "gj_Exists gj ?hj \<or> gj_Exists gj ?pj" "\<not> restricts gj ?hj"
    | (no_list) "gj_IsObject gj e" "restricts gj ?hj" "\<not> gj_IsArray gj ?hj"
    | (hosts) "gj_IsObject gj e" "restricts gj ?hj" "gj_IsArray gj ?hj" by blast
  then show thesis
  proof cases
    case any
    then show ?thesis by (intro paths [of "?rule\<lparr>anyHost := True\<rparr>"]) (auto simp: compileProtectedRule_def good_entry_def good_list_def)
  next
    case hosts
    then have ex: "gj_Exists gj ?hj" by (simp add: restricts_def)
    note c = compile_hosts_cases [where gj = gj and ul = ul and index = index and hs = "gj_ForEach_values gj ?hj" and acc = "[]"]
    show ?thesis
    proof (cases "compile_hosts gj ul index (gj_ForEach_values gj ?hj) []")
      case (Inl prob)
      then show ?thesis
        using hosts ex c bad [of prob] by (simp add: compileProtectedRule_def good_entry_def good_list_def)
    next
      case (Inr hs)
      then show ?thesis
        using hosts ex c
        by (intro paths [of "?rule\<lparr>anyHost := False, hosts := hs\<rparr>"])
          (auto simp: compileProtectedRule_def good_entry_def good_list_def)
    qed
  qed (rule drop; auto simp: compileProtectedRule_def good_entry_def good_list_def restricts_def)+
qed

lemma compile_rules_result:
  assumes "compile_rules gj ul es (of_nat n) rules problems = (rules', problems')"
  shows "\<exists>rs ps. rules' = rules @ rs \<and> problems' = problems @ ps
    \<and> list_all2 (\<lambda>r e. \<forall>host path. protectedRule_matches r host path = entry_covers gj ul host path e) rs (filter (good_entry gj ul) es)
    \<and> list_all2 (\<lambda>prob (i, e). HasPrefix prob (rule_prefix (of_nat i))) ps (filter (\<lambda>(i, e). \<not> good_entry gj ul e) (enumerate (Suc n) es))"
  using assms
proof (induction es arbitrary: n rules problems)
  case (Cons e es)
  have n: "(of_nat n + 1 :: int64) = of_nat (Suc n)" by simp
  show ?case
  proof (cases rule: compileProtectedRule_cases [of gj ul e "of_nat (Suc n)"])
    case (bad prob)
    then have "compile_rules gj ul es (of_nat (Suc n)) rules (problems @ [prob]) = (rules', problems')"
      using Cons.prems by (simp only: compile_rules.simps Let_def n prod.case option.case)
    from Cons.IH [OF this] show ?thesis using bad by fastforce
  next
    case (good r)
    then have "compile_rules gj ul es (of_nat (Suc n)) (rules @ [r]) problems = (rules', problems')"
      using Cons.prems by (simp only: compile_rules.simps Let_def n prod.case option.case append_Nil2)
    from Cons.IH [OF this] show ?thesis using good by fastforce
  qed
qed simp

section \<open>Properties\<close>

text \<open>C24: A request is protected exactly if one rule matches its host and its path: the host equals
  an exact entry or is one label in front of a wildcard's suffix (or the rule names no hosts), and
  the path up to its query starts with one of the prefixes (or the rule names no paths).\<close>

theorem matchProtectedRules_iff:
  "matchProtectedRules ul rules authority path \<longleftrightarrow>
     (\<exists>r \<in> set rules.
        (anyHost r \<or> (\<exists>h \<in> set (hosts r).
           if dotSuffix h = [] then normalizeAuthority ul authority = exact h
           else \<exists>label. label \<noteq> [] \<and> CHR ''.'' \<notin> set label
                  \<and> normalizeAuthority ul authority = label @ dotSuffix h))
        \<and> (anyPath r \<or> (\<exists>p \<in> set (paths r). \<exists>rest. strip_query path = p @ rest)))"
  by (auto simp: matchProtectedRules_def protectedRule_matches_def list_ex_iff HasPrefix_iff Let_def
      protectedHost_matches_iff)

text \<open>C25: The query string has no influence on protection, and neither has the case of an ASCII
  authority nor a port behind its host.\<close>

theorem protection_ignores_query_case_port:
  assumes "CHR ''?'' \<notin> set p" and "list_all is_ascii h" and "list_all is_ascii h'"
    and "map ascii_lower h = map ascii_lower h'" and "h \<noteq> []" and "CHR '':'' \<notin> set h"
    and "hd h \<noteq> CHR ''[''" and "list_all is_digit port"
  shows "matchProtectedRules ul rules (h @ '':'' @ port) (p @ ''?'' @ q) = matchProtectedRules ul rules h' p"
proof -
  have "h' \<noteq> []" using assms(4,5) by auto
  have "CHR '':'' \<notin> set (map ascii_lower h')" using assms(4,6) colon_notin_lower by metis
  then have "CHR '':'' \<notin> set h'" by (simp only: colon_notin_lower) simp
  moreover have "hd h' \<noteq> CHR ''[''"
  proof
    assume e: "hd h' = CHR ''[''"
    have "ascii_lower (hd h) = ascii_lower (hd h')" using assms(4,5) \<open>h' \<noteq> []\<close> by (metis hd_map)
    also have "\<dots> = CHR ''[''" by (simp add: e ascii_lower_def char_code_def)
    finally show False using assms(7) by (simp add: ascii_lower_eq_iff char_code_def)
  qed
  ultimately have "normalizeAuthority ul h' = map ascii_lower h'"
    using assms(3) \<open>h' \<noteq> []\<close> by (subst normalizeAuthority_plain) (auto simp: HasPrefix_iff ascii_ToLower)
  moreover have "normalizeAuthority ul (h @ CHR '':'' # port) = map ascii_lower h"
    using assms by (simp add: normalizeAuthority_port ascii_ToLower)
  ultimately show ?thesis
    using assms(1,4) by (simp add: matchProtectedRules_def strip_query_append strip_query_id)
qed

theorem protection_ignores_query_case_port_witness:
  "matchProtectedRules id [\<lparr>anyHost = False, anyPath = True, hosts = [\<lparr>exact = ''a.b'', dotSuffix = []\<rparr>], paths = []\<rparr>]
     ''A.b:8443'' ''/x?y=1'' = True"
proof -
  let ?r = "[\<lparr>anyHost = False, anyPath = True, hosts = [\<lparr>exact = ''a.b'', dotSuffix = []\<rparr>], paths = []\<rparr>]"
  have "matchProtectedRules id ?r (''A.b'' @ '':'' @ ''8443'') (''/x'' @ ''?'' @ ''y=1'')
      = matchProtectedRules id ?r ''a.b'' ''/x''"
  proof (rule protection_ignores_query_case_port)
    show "map ascii_lower ''A.b'' = map ascii_lower ''a.b''" by code_simp
  qed (simp_all add: is_ascii_def is_digit_def char_code_def)
  moreover have "matchProtectedRules id ?r ''a.b'' ''/x''" by code_simp
  ultimately show ?thesis by simp
qed

text \<open>C26: What a configured list protects. An entry is well formed if it is an object that names hosts or
  paths, each list is an array, each host is a text without an asterisk but for one leading label
  of its own, and each path is a non-empty text. The compiled rules protect exactly the requests that
  a well-formed entry covers, in the terms of the configuration; when no entry is well formed, or
  there is no list, every request is protected. An entry that is not well formed is dropped, with one
  report that begins with its number: what it alone would cover is open when another entry stands.\<close>

theorem parseProtectedConfig_meaning:
  "case parseProtectedConfig gj ul data of (rules, protectAll, problems) \<Rightarrow>
     let top = gj_GetBytes gj data ''protected'';
         entries = (if gj_Exists gj top \<and> gj_IsArray gj top then gj_ForEach_values gj top else []);
         good = filter (good_entry gj ul) entries
     in protectAll = (good = []) \<and> length rules = length good
      \<and> (\<forall>authority path. matchProtectedRules ul rules authority path
           = (\<exists>e\<in>set good. entry_covers gj ul (normalizeAuthority ul authority) (strip_query path) e))
      \<and> (\<exists>reports summary. problems = reports @ summary
           \<and> list_all2 (\<lambda>report (i, e). HasPrefix report (''rule #'' @ Itoa (of_nat i) @ '': '')) reports
               (filter (\<lambda>(i, e). \<not> good_entry gj ul e) (enumerate 1 entries))
           \<and> length summary = (if good \<noteq> [] then 0 else if gj_Exists gj top then if gj_IsArray gj top \<and> entries = [] then 0 else 1 else 0))"
proof -
  let ?top = "gj_GetBytes gj data ''protected''"
  let ?vals = "gj_ForEach_values gj ?top"
  obtain rules problems where c: "compile_rules gj ul ?vals 0 [] [] = (rules, problems)" by fastforce
  have l: "list_all2 (\<lambda>r e. \<forall>host path. protectedRule_matches r host path = entry_covers gj ul host path e)
        rules (filter (good_entry gj ul) ?vals)"
    and p: "list_all2 (\<lambda>prob (i, e). HasPrefix prob (''rule #'' @ Itoa (of_nat i) @ '': '')) problems
        (filter (\<lambda>(i, e). \<not> good_entry gj ul e) (enumerate 1 ?vals))"
    using compile_rules_result [of gj ul ?vals 0 "[]" "[]" rules problems] c by (simp_all add: rule_prefix_def)
  have len: "length rules = length (filter (good_entry gj ul) ?vals)" using l by (rule list_all2_lengthD)
  have m: "matchProtectedRules ul rules authority path
      = (\<exists>e\<in>set (filter (good_entry gj ul) ?vals). entry_covers gj ul (normalizeAuthority ul authority) (strip_query path) e)"
    for authority path
    using l unfolding matchProtectedRules_def Let_def by (induction rule: list_all2_induct) auto
  have none: "matchProtectedRules ul [] authority path = False" for authority path
    by (simp add: matchProtectedRules_def)
  consider "\<not> gj_Exists gj ?top" | "gj_Exists gj ?top" "\<not> gj_IsArray gj ?top"
    | (empty) "gj_Exists gj ?top" "gj_IsArray gj ?top" "?vals = []"
    | (bad) "gj_Exists gj ?top" "gj_IsArray gj ?top" "?vals \<noteq> []" "rules = []"
    | (list) "gj_Exists gj ?top" "gj_IsArray gj ?top" "?vals \<noteq> []" "rules \<noteq> []" by blast
  then show ?thesis
  proof cases
    case bad
    then have e: "filter (good_entry gj ul) ?vals = []" using len by simp
    obtain t where t: "parseProtectedConfig gj ul data = ([], True, problems @ [t])"
      using bad c by (simp add: parseProtectedConfig_def Let_def)
    have "\<exists>reports summary. problems @ [t] = reports @ summary
        \<and> list_all2 (\<lambda>report (i, e). HasPrefix report (''rule #'' @ Itoa (of_nat i) @ '': '')) reports
            (filter (\<lambda>(i, e). \<not> good_entry gj ul e) (enumerate 1 ?vals)) \<and> length summary = 1"
      by (intro exI [of _ problems] exI [of _ "[t]"]) (use p in simp)
    then show ?thesis unfolding t prod.case Let_def using bad(1-3) e none by simp
  next
    case list
    then have "filter (good_entry gj ul) ?vals \<noteq> []" using len by auto
    then show ?thesis using list p c m len by (simp add: parseProtectedConfig_def Let_def)
  qed (simp_all add: parseProtectedConfig_def Let_def none)
qed

text \<open>C40: A host that is configured with a port protects nothing: the entry is accepted without a
  problem, but the port of a request's authority is stripped before the comparison, so no
  authority without brackets matches it.\<close>

theorem configured_port_never_matches:
  assumes "list_all is_ascii (x @ port)" and "CHR ''*'' \<notin> set x" and "x \<noteq> []"
    and "CHR '':'' \<notin> set x" and "list_all is_digit port"
    and "list_all is_ascii a" and "\<not> HasPrefix a ''[''"
  shows "\<exists>host. compileProtectedHost ul (x @ '':'' @ port) = Some (host, False)
     \<and> \<not> protectedHost_matches \<lparr>exact = host, dotSuffix = []\<rparr> (normalizeAuthority ul a)"
proof -
  have p: "map ascii_lower port = port"
    using assms(5) by (induction port) (auto simp: is_digit_def ascii_lower_def)
  have star: "CHR ''*'' \<notin> set port" using assms(5) by (auto simp: list_all_iff is_digit_def char_code_def)
  have "\<not> HasPrefix (x @ CHR '':'' # port) ''*.''"
    using assms(2,3) by (cases x) (auto simp: HasPrefix_def)
  moreover have asc: "list_all is_ascii (x @ CHR '':'' # port)" using assms(1) by (simp add: is_ascii_def char_code_def)
  ultimately have "compileProtectedHost ul (x @ '':'' @ port) = Some (map ascii_lower x @ CHR '':'' # port, False)"
    using assms(2,3) star p
    by (simp add: compileProtectedHost_def ascii_ToLower [OF asc] ascii_lower_def char_code_def)
  moreover have "CHR '':'' \<notin> set (map ascii_lower x)" using assms(4) by (simp only: colon_notin_lower) simp
  then have "normalizeAuthority ul a \<noteq> map ascii_lower x @ CHR '':'' # port"
    using assms by (intro normalizeAuthority_no_port) auto
  ultimately show ?thesis by (simp add: protectedHost_matches_def)
qed

theorem configured_port_never_matches_witness:
  "\<exists>host. compileProtectedHost id ''foo.bar:8443'' = Some (host, False)
     \<and> \<not> protectedHost_matches \<lparr>exact = host, dotSuffix = []\<rparr> (normalizeAuthority id ''foo.bar:8443'')"
  using configured_port_never_matches [of "''foo.bar''" "''8443''" "''foo.bar:8443''" id]
  by (simp add: is_ascii_def is_digit_def char_code_def HasPrefix_def)

end
