(* ===== verification/Ipintel_Format.thy ===== *)
theory Ipintel_Format
  imports Go_Net Go_Json "HOL-Library.List_Lexorder"
begin

text \<open>
  The IP-intelligence database file, \<^verbatim>\<open>src/ipintelbin/types.go\<close>, \<^verbatim>\<open>records.go\<close> and the opening
  part of \<^verbatim>\<open>db.go\<close>: header, manifest, block index, and the decoder of a block's records.

  \<^item> A reader is the rest of the bytes; an operation that reads returns its value and the rest, or
    \<open>None\<close> for an error (short input, a length over its limit).
  \<^item> The zstd decoder is third-party: \<open>zstd\<close> is the outcome of \<open>DecodeAll\<close>.
  \<^item> A member that occurs twice with an array of structs is decoded afresh (Go reuses the elements
    of the first occurrence).
  \<^item> A time is kept as the text it was written in; \<open>time_ok\<close> says which texts
    \<open>time.Time.UnmarshalJSON\<close> accepts.
\<close>

section \<open>Types\<close>

definition FormatMagic :: string where "FormatMagic = ''IPINTEL1''"
definition FormatVersion :: int64 where "FormatVersion = 1"
definition headerSize :: nat where "headerSize = 8 + 4 + 4 + 4 + 8"

record FileMeta =
  fm_Name :: string
  fm_URL :: string
  fm_SHA256 :: string
  fm_Bytes :: int64
  fm_ETag :: string
  fm_LastModified :: string
  fm_FetchedAt :: string

record SourceMeta =
  sm_ID :: "16 word"
  sm_Name :: string
  sm_Homepage :: string
  sm_License :: string
  sm_Files :: "FileMeta list"
  sm_Records :: int64
  sm_Optional :: bool

record Manifest =
  man_FormatVersion :: int64
  man_BuiltAt :: string
  man_OpenASNBuild :: string
  man_RecordCount :: int64
  man_BlockCount :: int64
  man_BlockSize :: int64
  man_Sources :: "SourceMeta list"
  man_ASNs :: "32 word \<Rightarrow> string option"
  man_Scoring :: "string \<Rightarrow> int64 option"

record BlockHeader =
  bh_Family :: byte
  bh_FirstStart :: string
  bh_MaxEnd :: string
  bh_Count :: int64
  bh_Offset :: int64
  bh_Compressed :: int64
  bh_Uncompressed :: int64

text \<open>\<open>Start\<close> and \<open>End\<close> have sixteen bytes.\<close>

record Record =
  rec_Family :: byte
  rec_Start :: bytes
  rec_End :: bytes
  rec_SourceID :: "16 word"
  rec_Category :: string
  rec_Confidence :: byte
  rec_ASN :: "32 word"
  rec_Org :: string
  rec_Country :: string
  rec_Detail :: string

section \<open>Addresses in storage form\<close>

definition addrBytes :: "addr \<Rightarrow> byte \<times> bytes" where
  "addrBytes a =
     (case Unmap a of
        Addr4 b \<Rightarrow> (4, b @ replicate 12 0)
      | Addr6 ip zone \<Rightarrow> (6, ip))"

definition addr4 :: "bytes \<Rightarrow> bytes" where
  "addr4 b = b @ replicate 12 0"

definition addrString :: "byte \<Rightarrow> bytes \<Rightarrow> string" where
  "addrString family b = (if family = 4 then Addr_String (Addr4 (take 4 b)) else Addr_String (Addr6 b []))"

text \<open>\<open>detailJSON\<close>, given the outcome of \<open>json.Marshal\<close>; nothing calls it.\<close>

definition detailJSON :: "string option \<Rightarrow> string" where
  "detailJSON marshalled = (case marshalled of None \<Rightarrow> ''{}'' | Some b \<Rightarrow> b)"

section \<open>Reading\<close>

definition ReadByte :: "bytes \<Rightarrow> (byte \<times> bytes) option" where
  "ReadByte r = (case r of [] \<Rightarrow> None | b # r \<Rightarrow> Some (b, r))"

definition ReadFull :: "nat \<Rightarrow> bytes \<Rightarrow> (bytes \<times> bytes) option" where
  "ReadFull n r = (if length r < n then None else Some (take n r, drop n r))"

definition read_u32 :: "bytes \<Rightarrow> (32 word \<times> bytes) option" where
  "read_u32 r = map_option (\<lambda>(b, r). (Uint32_LE b, r)) (ReadFull 4 r)"

definition readString :: "bytes \<Rightarrow> (string \<times> bytes) option" where
  "readString r =
     (case read_u32 r of
        None \<Rightarrow> None
      | Some (n, r) \<Rightarrow>
          if unat n > 4 * 1024 * 1024 then None
          else map_option (\<lambda>(b, r). (string_of b, r)) (ReadFull (unat n) r))"

text \<open>The body of the loop of \<open>decodeRecords\<close>, one record.\<close>

definition decode_record :: "bytes \<Rightarrow> (Record \<times> bytes) option" where
  "decode_record r =
     Option.bind (ReadByte r) (\<lambda>(fam, r).
     Option.bind (ReadFull 16 r) (\<lambda>(start, r).
     Option.bind (ReadFull 16 r) (\<lambda>(end, r).
     Option.bind (ReadFull 2 r) (\<lambda>(src, r).
     Option.bind (readString r) (\<lambda>(cat, r).
     Option.bind (ReadByte r) (\<lambda>(conf, r).
     Option.bind (ReadFull 4 r) (\<lambda>(asn, r).
     Option.bind (readString r) (\<lambda>(org, r).
     Option.bind (readString r) (\<lambda>(country, r).
     Option.bind (readString r) (\<lambda>(detail, r).
       Some (\<lparr>rec_Family = fam, rec_Start = start, rec_End = end, rec_SourceID = Uint16_LE src,
              rec_Category = cat, rec_Confidence = conf, rec_ASN = Uint32_LE asn, rec_Org = org,
              rec_Country = country, rec_Detail = detail\<rparr>, r)))))))))))"

fun decode_loop :: "nat \<Rightarrow> bytes \<Rightarrow> Record list \<Rightarrow> Record list option" where
  "decode_loop 0 r out = Some out"
| "decode_loop (Suc n) r out =
     (case decode_record r of
        None \<Rightarrow> None
      | Some (rec, r) \<Rightarrow> decode_loop n r (out @ [rec]))"

definition decodeRecords :: "bytes \<Rightarrow> Record list option" where
  "decodeRecords b =
     (case read_u32 b of
        None \<Rightarrow> None
      | Some (count, r) \<Rightarrow>
          if unat count > 1000000 then None else decode_loop (unat count) r [])"

section \<open>Manifest and index\<close>

text \<open>Field setters beside those of \<open>Go_Json\<close>: narrower integers, booleans, times, arrays of structs
  and the two maps. \<open>null\<close> leaves a value alone, and clears a slice.\<close>

definition set_uint :: "nat \<Rightarrow> (uint64 \<Rightarrow> 'r \<Rightarrow> 'r) \<Rightarrow> json \<Rightarrow> 'r \<Rightarrow> 'r option" where
  "set_uint bits upd v r = (case v of
     JNull \<Rightarrow> Some r | JNum n \<Rightarrow> map_option (\<lambda>i. upd i r) (ParseUint n bits) | _ \<Rightarrow> None)"

definition set_bool :: "(bool \<Rightarrow> 'r \<Rightarrow> 'r) \<Rightarrow> json \<Rightarrow> 'r \<Rightarrow> 'r option" where
  "set_bool upd v r = (case v of JNull \<Rightarrow> Some r | JBool b \<Rightarrow> Some (upd b r) | _ \<Rightarrow> None)"

definition set_time :: "(string \<Rightarrow> bool) \<Rightarrow> (string \<Rightarrow> 'r \<Rightarrow> 'r) \<Rightarrow> json \<Rightarrow> 'r \<Rightarrow> 'r option" where
  "set_time time_ok upd v r = (case v of
     JNull \<Rightarrow> Some r | JStr s \<Rightarrow> (if time_ok s then Some (upd s r) else None) | _ \<Rightarrow> None)"

definition struct_of_json :: "'e json_field list \<Rightarrow> 'e \<Rightarrow> json \<Rightarrow> 'e option" where
  "struct_of_json fs zero v = (case v of
     JNull \<Rightarrow> Some zero | JObj ms \<Rightarrow> decode_members fs ms zero | _ \<Rightarrow> None)"

fun all_some :: "'a option list \<Rightarrow> 'a list option" where
  "all_some [] = Some []"
| "all_some (None # xs) = None"
| "all_some (Some x # xs) = map_option ((#) x) (all_some xs)"

definition set_structs :: "'e json_field list \<Rightarrow> 'e \<Rightarrow> ('e list \<Rightarrow> 'r \<Rightarrow> 'r) \<Rightarrow> json \<Rightarrow> 'r \<Rightarrow> 'r option" where
  "set_structs fs zero upd v r = (case v of
     JNull \<Rightarrow> Some (upd [] r)
   | JArr vs \<Rightarrow> map_option (\<lambda>es. upd es r) (all_some (map (struct_of_json fs zero) vs))
   | _ \<Rightarrow> None)"

fun asn_members :: "(string \<times> json) list \<Rightarrow> (32 word \<Rightarrow> string option) \<Rightarrow> (32 word \<Rightarrow> string option) option" where
  "asn_members [] m = Some m"
| "asn_members ((k, v) # ms) m =
     (case ParseUint k 32 of
        None \<Rightarrow> None
      | Some n \<Rightarrow>
          (case v of
             JStr s \<Rightarrow> asn_members ms (m(ucast n \<mapsto> s))
           | JNull \<Rightarrow> asn_members ms (m(ucast n \<mapsto> []))
           | _ \<Rightarrow> None))"

fun scoring_members :: "(string \<times> json) list \<Rightarrow> (string \<Rightarrow> int64 option) \<Rightarrow> (string \<Rightarrow> int64 option) option" where
  "scoring_members [] m = Some m"
| "scoring_members ((k, v) # ms) m =
     (case v of
        JNum n \<Rightarrow> (case ParseInt n of None \<Rightarrow> None | Some i \<Rightarrow> scoring_members ms (m(k \<mapsto> i)))
      | JNull \<Rightarrow> scoring_members ms (m(k \<mapsto> 0))
      | _ \<Rightarrow> None)"

definition FileMeta_fields :: "(string \<Rightarrow> bool) \<Rightarrow> FileMeta json_field list" where
  "FileMeta_fields time_ok =
     [(''name'', set_string (\<lambda>s r. r\<lparr>fm_Name := s\<rparr>)), (''url'', set_string (\<lambda>s r. r\<lparr>fm_URL := s\<rparr>)),
      (''sha256'', set_string (\<lambda>s r. r\<lparr>fm_SHA256 := s\<rparr>)), (''bytes'', set_int64 (\<lambda>i r. r\<lparr>fm_Bytes := i\<rparr>)),
      (''etag'', set_string (\<lambda>s r. r\<lparr>fm_ETag := s\<rparr>)),
      (''last_modified'', set_string (\<lambda>s r. r\<lparr>fm_LastModified := s\<rparr>)),
      (''fetched_at'', set_time time_ok (\<lambda>s r. r\<lparr>fm_FetchedAt := s\<rparr>))]"

definition zero_FileMeta :: FileMeta where
  "zero_FileMeta = \<lparr>fm_Name = [], fm_URL = [], fm_SHA256 = [], fm_Bytes = 0, fm_ETag = [],
     fm_LastModified = [], fm_FetchedAt = []\<rparr>"

definition SourceMeta_fields :: "(string \<Rightarrow> bool) \<Rightarrow> SourceMeta json_field list" where
  "SourceMeta_fields time_ok =
     [(''id'', set_uint 16 (\<lambda>u r. r\<lparr>sm_ID := ucast u\<rparr>)), (''name'', set_string (\<lambda>s r. r\<lparr>sm_Name := s\<rparr>)),
      (''homepage'', set_string (\<lambda>s r. r\<lparr>sm_Homepage := s\<rparr>)),
      (''license'', set_string (\<lambda>s r. r\<lparr>sm_License := s\<rparr>)),
      (''files'', set_structs (FileMeta_fields time_ok) zero_FileMeta (\<lambda>fs r. r\<lparr>sm_Files := fs\<rparr>)),
      (''records'', set_int64 (\<lambda>i r. r\<lparr>sm_Records := i\<rparr>)),
      (''optional'', set_bool (\<lambda>b r. r\<lparr>sm_Optional := b\<rparr>))]"

definition zero_SourceMeta :: SourceMeta where
  "zero_SourceMeta = \<lparr>sm_ID = 0, sm_Name = [], sm_Homepage = [], sm_License = [], sm_Files = [],
     sm_Records = 0, sm_Optional = False\<rparr>"

definition Manifest_fields :: "(string \<Rightarrow> bool) \<Rightarrow> Manifest json_field list" where
  "Manifest_fields time_ok =
     [(''format_version'', set_int64 (\<lambda>i r. r\<lparr>man_FormatVersion := i\<rparr>)),
      (''built_at'', set_time time_ok (\<lambda>s r. r\<lparr>man_BuiltAt := s\<rparr>)),
      (''openasn_build'', set_string (\<lambda>s r. r\<lparr>man_OpenASNBuild := s\<rparr>)),
      (''record_count'', set_int64 (\<lambda>i r. r\<lparr>man_RecordCount := i\<rparr>)),
      (''block_count'', set_int64 (\<lambda>i r. r\<lparr>man_BlockCount := i\<rparr>)),
      (''block_size'', set_int64 (\<lambda>i r. r\<lparr>man_BlockSize := i\<rparr>)),
      (''sources'', set_structs (SourceMeta_fields time_ok) zero_SourceMeta (\<lambda>s r. r\<lparr>man_Sources := s\<rparr>)),
      (''asns'', \<lambda>v r. case v of
          JNull \<Rightarrow> Some (r\<lparr>man_ASNs := (\<lambda>_. None)\<rparr>)
        | JObj ms \<Rightarrow> map_option (\<lambda>m. r\<lparr>man_ASNs := m\<rparr>) (asn_members ms (man_ASNs r)) | _ \<Rightarrow> None),
      (''scoring'', \<lambda>v r. case v of
          JNull \<Rightarrow> Some (r\<lparr>man_Scoring := (\<lambda>_. None)\<rparr>)
        | JObj ms \<Rightarrow> map_option (\<lambda>m. r\<lparr>man_Scoring := m\<rparr>) (scoring_members ms (man_Scoring r)) | _ \<Rightarrow> None)]"

definition zero_Manifest :: Manifest where
  "zero_Manifest = \<lparr>man_FormatVersion = 0, man_BuiltAt = [], man_OpenASNBuild = [], man_RecordCount = 0,
     man_BlockCount = 0, man_BlockSize = 0, man_Sources = [], man_ASNs = (\<lambda>_. None), man_Scoring = (\<lambda>_. None)\<rparr>"

definition BlockHeader_fields :: "BlockHeader json_field list" where
  "BlockHeader_fields =
     [(''family'', set_uint 8 (\<lambda>u r. r\<lparr>bh_Family := ucast u\<rparr>)),
      (''first_start'', set_string (\<lambda>s r. r\<lparr>bh_FirstStart := s\<rparr>)),
      (''max_end'', set_string (\<lambda>s r. r\<lparr>bh_MaxEnd := s\<rparr>)),
      (''count'', set_int64 (\<lambda>i r. r\<lparr>bh_Count := i\<rparr>)), (''offset'', set_int64 (\<lambda>i r. r\<lparr>bh_Offset := i\<rparr>)),
      (''compressed_size'', set_int64 (\<lambda>i r. r\<lparr>bh_Compressed := i\<rparr>)),
      (''uncompressed_size'', set_int64 (\<lambda>i r. r\<lparr>bh_Uncompressed := i\<rparr>))]"

definition zero_BlockHeader :: BlockHeader where
  "zero_BlockHeader = \<lparr>bh_Family = 0, bh_FirstStart = [], bh_MaxEnd = [], bh_Count = 0, bh_Offset = 0,
     bh_Compressed = 0, bh_Uncompressed = 0\<rparr>"

definition Manifest_Unmarshal :: "(string \<Rightarrow> bool) \<Rightarrow> bytes \<Rightarrow> Manifest option" where
  "Manifest_Unmarshal time_ok b = json_Unmarshal (Manifest_fields time_ok) (string_of b) zero_Manifest"

definition index_Unmarshal :: "bytes \<Rightarrow> BlockHeader list option" where
  "index_Unmarshal b =
     (case json_parse (string_of b) of
        Some JNull \<Rightarrow> Some []
      | Some (JArr vs) \<Rightarrow> all_some (map (struct_of_json BlockHeader_fields zero_BlockHeader) vs)
      | _ \<Rightarrow> None)"

section \<open>Opening\<close>

record runtimeBlock =
  rb_header :: BlockHeader
  rb_family :: byte
  rb_first :: bytes
  rb_max :: bytes

record DB =
  db_data :: bytes
  db_manifest :: Manifest
  db_blocks :: "runtimeBlock list"
  db_dataOffset :: int64

datatype db_err = ErrShortHeader | ErrNotDatabase | ErrFormatVersion "32 word" | ErrSizes | ErrDataOffset
  | ErrShortManifest | ErrShortIndex | ErrManifest | ErrManifestVersion int64 | ErrIndex
  | ErrFirstStart string | ErrMaxEnd string | ErrFamilyMismatch | ErrDecoder
  | ErrBlockSizes | ErrBlockOutside | ErrBlockDecode | ErrBlockLength | ErrBlockRecords
  | ErrInvalidIP string | PanicSliceBounds | ErrReadFile

text \<open>One entry of the index.\<close>

definition open_block :: "BlockHeader \<Rightarrow> db_err + runtimeBlock" where
  "open_block h =
     (case ParseAddr (bh_FirstStart h) of
        None \<Rightarrow> Inl (ErrFirstStart (bh_FirstStart h))
      | Some first \<Rightarrow>
          (case ParseAddr (bh_MaxEnd h) of
             None \<Rightarrow> Inl (ErrMaxEnd (bh_MaxEnd h))
           | Some maxEnd \<Rightarrow>
               if fst (addrBytes first) \<noteq> bh_Family h then Inl ErrFamilyMismatch
               else Inr \<lparr>rb_header = h, rb_family = fst (addrBytes first), rb_first = snd (addrBytes first),
                         rb_max = snd (addrBytes maxEnd)\<rparr>))"

fun open_blocks :: "BlockHeader list \<Rightarrow> runtimeBlock list \<Rightarrow> db_err + runtimeBlock list" where
  "open_blocks [] blocks = Inr blocks"
| "open_blocks (h # hs) blocks =
     (case open_block h of
        Inl e \<Rightarrow> Inl e
      | Inr b \<Rightarrow> open_blocks hs (blocks @ [b]))"

text \<open>\<open>zstd_new\<close>: the decoder could be created.\<close>

definition openReader :: "(string \<Rightarrow> bool) \<Rightarrow> bool \<Rightarrow> bytes \<Rightarrow> db_err + DB" where
  "openReader time_ok zstd_new data =
     (case ReadFull headerSize data of
        None \<Rightarrow> Inl ErrShortHeader
      | Some (hdr, r) \<Rightarrow>
          if string_of (take 8 hdr) \<noteq> FormatMagic then Inl ErrNotDatabase
          else
            let version = Uint32_LE (drop 8 hdr); manifestLen = Uint32_LE (drop 12 hdr);
                indexLen = Uint32_LE (drop 16 hdr); dataOffset = Uint64_LE (drop 20 hdr) in
            if version \<noteq> 1 then Inl (ErrFormatVersion version)
            else if unat manifestLen > 64 * 1024 * 1024 \<or> unat indexLen > 64 * 1024 * 1024 then Inl ErrSizes
            else if dataOffset <s of_nat headerSize + ucast manifestLen + ucast indexLen then Inl ErrDataOffset
            else (case ReadFull (unat manifestLen) r of
              None \<Rightarrow> Inl ErrShortManifest
            | Some (manifestBytes, r) \<Rightarrow>
                (case ReadFull (unat indexLen) r of
                   None \<Rightarrow> Inl ErrShortIndex
                 | Some (indexBytes, r) \<Rightarrow>
                     (case Manifest_Unmarshal time_ok manifestBytes of
                        None \<Rightarrow> Inl ErrManifest
                      | Some manifest \<Rightarrow>
                          if man_FormatVersion manifest \<noteq> FormatVersion
                          then Inl (ErrManifestVersion (man_FormatVersion manifest))
                          else (case index_Unmarshal indexBytes of
                            None \<Rightarrow> Inl ErrIndex
                          | Some index \<Rightarrow>
                              (case open_blocks index [] of
                                 Inl e \<Rightarrow> Inl e
                               | Inr blocks \<Rightarrow>
                                   if \<not> zstd_new then Inl ErrDecoder
                                   else Inr \<lparr>db_data = data, db_manifest = manifest, db_blocks = blocks,
                                             db_dataOffset = dataOffset\<rparr>))))))"

definition openBytes :: "(string \<Rightarrow> bool) \<Rightarrow> bool \<Rightarrow> bytes \<Rightarrow> db_err + DB" where
  "openBytes time_ok zstd_new b = openReader time_ok zstd_new b"

definition OpenBytes :: "(string \<Rightarrow> bool) \<Rightarrow> bool \<Rightarrow> bytes \<Rightarrow> db_err + DB" where
  "OpenBytes time_ok zstd_new b = openBytes time_ok zstd_new b"

text \<open>\<^verbatim>\<open>src/ipintelbin/db_host.go\<close>: opening a file of the host. \<open>readFile\<close> is the outcome of
  \<open>os.ReadFile\<close>.\<close>

definition OpenPath ::
  "(string \<Rightarrow> bytes option) \<Rightarrow> (string \<Rightarrow> bool) \<Rightarrow> bool \<Rightarrow> string \<Rightarrow> db_err + DB" where
  "OpenPath readFile time_ok zstd_new path =
     (case readFile path of None \<Rightarrow> Inl ErrReadFile | Some b \<Rightarrow> openBytes time_ok zstd_new b)"

definition OpenInMemory ::
  "(string \<Rightarrow> bytes option) \<Rightarrow> (string \<Rightarrow> bool) \<Rightarrow> bool \<Rightarrow> string \<Rightarrow> db_err + DB" where
  "OpenInMemory readFile time_ok zstd_new path = OpenPath readFile time_ok zstd_new path"

definition open_path ::
  "(string \<Rightarrow> bytes option) \<Rightarrow> (string \<Rightarrow> bool) \<Rightarrow> bool \<Rightarrow> string \<Rightarrow> bool \<Rightarrow> db_err + DB" where
  "open_path readFile time_ok zstd_new path inMemory = OpenPath readFile time_ok zstd_new path"

text \<open>The accessor \<open>Manifest()\<close>.\<close>

definition DB_Manifest :: "DB \<Rightarrow> Manifest" where
  "DB_Manifest db = db_manifest db"

text \<open>The bytes a block occupies. The end of the slice is computed in 64 bits; where it wraps, the
  bounds check passes and slicing panics.\<close>

definition readBlock :: "(bytes \<Rightarrow> bytes option) \<Rightarrow> DB \<Rightarrow> runtimeBlock \<Rightarrow> db_err + Record list" where
  "readBlock zstd db b =
     (let comp = bh_Compressed (rb_header b); uncomp = bh_Uncompressed (rb_header b) in
      if comp \<le>s 0 \<or> 64 * 1024 * 1024 <s comp \<or> uncomp \<le>s 0 \<or> 256 * 1024 * 1024 <s uncomp
        then Inl ErrBlockSizes
      else if db_data db = [] then Inl ErrBlockOutside
      else
        let start = db_dataOffset db + bh_Offset (rb_header b); end = start + comp in
        if start <s 0 \<or> int (length (db_data db)) < sint end then Inl ErrBlockOutside
        else if sint end < sint start then Inl PanicSliceBounds
        else (case zstd (take (nat (sint end - sint start)) (drop (nat (sint start)) (db_data db))) of
          None \<Rightarrow> Inl ErrBlockDecode
        | Some raw \<Rightarrow>
            if int (length raw) \<noteq> sint uncomp then Inl ErrBlockLength
            else (case decodeRecords raw of None \<Rightarrow> Inl ErrBlockRecords | Some rs \<Rightarrow> Inr rs)))"

section \<open>Little-endian integers and the record format\<close>

fun le_bytes :: "nat \<Rightarrow> nat \<Rightarrow> bytes" where
  "le_bytes 0 n = []"
| "le_bytes (Suc k) n = of_nat n # le_bytes k (n div 256)"

lemma le_val_Cons: "le_val (b # bs) = unat b + 256 * le_val bs"
  by (simp add: le_val_def be_val_append)

lemma length_le_bytes [simp]: "length (le_bytes k n) = k"
  by (induction k arbitrary: n) simp_all

lemma le_val_le_bytes: "le_val (le_bytes k n) = n mod 256 ^ k"
proof (induction k arbitrary: n)
  case 0
  then show ?case by (simp add: le_val_def be_val_def)
next
  case (Suc k)
  have "unat (of_nat n :: byte) = n mod 256" by (simp add: unat_of_nat take_bit_eq_mod)
  then show ?case using Suc by (simp add: le_val_Cons mod_mult2_eq)
qed

lemma Uint32_LE_le_bytes [simp]: "Uint32_LE (le_bytes 4 (unat (w :: 32 word)) @ r) = w"
proof -
  have "unat w < 256 ^ 4" using unsigned_less [of w, where ?'a = nat] by simp
  then show ?thesis by (simp add: Uint32_LE_def le_val_le_bytes)
qed

lemma Uint16_LE_le_bytes [simp]: "Uint16_LE (le_bytes 2 (unat (w :: 16 word)) @ r) = w"
proof -
  have "unat w < 256 ^ 2" using unsigned_less [of w, where ?'a = nat] by simp
  then show ?thesis by (simp add: Uint16_LE_def le_val_le_bytes)
qed

lemmas Uint_LE_exact [simp] = Uint32_LE_le_bytes [of _ "[]", simplified] Uint16_LE_le_bytes [of _ "[]", simplified]

text \<open>The interface of a decoder that reads a value off the front of its input, and of a loop that reads a
  number of them: what was encoded comes back, and the rest of the input is left.\<close>

locale prefix_codec =
  fixes enc :: "'a \<Rightarrow> bytes"
    and dec :: "bytes \<Rightarrow> ('a \<times> bytes) option"
    and fits :: "'a \<Rightarrow> bool"
  assumes dec_enc: "fits x \<Longrightarrow> dec (enc x @ r) = Some (x, r)"
begin

lemma enc_cancel: "fits x \<Longrightarrow> fits y \<Longrightarrow> enc x @ r = enc y @ r' \<longleftrightarrow> x = y \<and> r = r'"
  by (metis dec_enc option.inject prod.inject)

end

locale counted_codec = prefix_codec +
  fixes loop :: "nat \<Rightarrow> bytes \<Rightarrow> 'a list \<Rightarrow> 'a list option"
  assumes loop_0: "loop 0 r out = Some out"
    and loop_Suc: "loop (Suc n) r out = (case dec r of None \<Rightarrow> None | Some (x, r) \<Rightarrow> loop n r (out @ [x]))"
begin

lemma loop_enc: "list_all fits xs \<Longrightarrow> loop (length xs) (concat (map enc xs) @ r) out = Some (out @ xs)"
  by (induction xs arbitrary: out) (simp_all add: loop_0 loop_Suc dec_enc)

text \<open>A different list of as many values has a different encoding.\<close>

lemma concat_enc_inj:
  "list_all fits xs \<Longrightarrow> list_all fits ys \<Longrightarrow> length xs = length ys
    \<Longrightarrow> concat (map enc xs) @ r = concat (map enc ys) @ r' \<Longrightarrow> xs = ys"
  by (metis append_Nil loop_enc option.inject)

text \<open>What every single value satisfies, all values of the result do.\<close>

lemma loop_result:
  assumes "loop n r out = Some ys" and "\<And>r x r'. dec r = Some (x, r') \<Longrightarrow> P x"
  shows "\<exists>xs. ys = out @ xs \<and> length xs = n \<and> list_all P xs"
  using assms(1)
proof (induction n arbitrary: r out)
  case 0
  then show ?case by (simp add: loop_0)
next
  case (Suc n)
  then obtain x r1 where x: "dec r = Some (x, r1)" and l: "loop n r1 (out @ [x]) = Some ys"
    by (auto simp: loop_Suc split: option.splits)
  obtain xs where "ys = (out @ [x]) @ xs" "length xs = n" "list_all P xs" using Suc.IH [OF l] by blast
  then show ?case using assms(2) [OF x] by (intro exI [of _ "x # xs"]) simp
qed

end

text \<open>The format the decoder expects, written out as an encoder.\<close>

definition encode_string :: "string \<Rightarrow> bytes" where
  "encode_string s = le_bytes 4 (length s) @ bytes_of s"

definition encode_record :: "Record \<Rightarrow> bytes" where
  "encode_record r = rec_Family r # rec_Start r @ rec_End r @ le_bytes 2 (unat (rec_SourceID r))
     @ encode_string (rec_Category r) @ rec_Confidence r # le_bytes 4 (unat (rec_ASN r))
     @ encode_string (rec_Org r) @ encode_string (rec_Country r) @ encode_string (rec_Detail r)"

definition encode_records :: "Record list \<Rightarrow> bytes" where
  "encode_records rs = le_bytes 4 (length rs) @ concat (map encode_record rs)"

definition string_fits :: "string \<Rightarrow> bool" where
  "string_fits s \<longleftrightarrow> length s \<le> 4 * 1024 * 1024"

definition record_fits :: "Record \<Rightarrow> bool" where
  "record_fits r \<longleftrightarrow> length (rec_Start r) = 16 \<and> length (rec_End r) = 16
     \<and> string_fits (rec_Category r) \<and> string_fits (rec_Org r)
     \<and> string_fits (rec_Country r) \<and> string_fits (rec_Detail r)"

lemma ReadFull_append [simp]: "length b = n \<Longrightarrow> ReadFull n (b @ r) = Some (b, r)"
  by (simp add: ReadFull_def)

lemma ReadByte_Cons [simp]: "ReadByte (b # r) = Some (b, r)"
  by (simp add: ReadByte_def)

lemma read_u32_le_bytes:
  assumes "n < 2 ^ 32"
  shows "read_u32 (le_bytes 4 n @ r) = Some (of_nat n, r)"
proof -
  have "unat (of_nat n :: 32 word) = n" using assms by (simp add: unat_of_nat take_bit_nat_eq_self_iff)
  then have "Uint32_LE (le_bytes 4 n) = of_nat n"
    using Uint_LE_exact(1) [of "of_nat n"] by simp
  then show ?thesis by (simp add: read_u32_def)
qed

lemma readString_encode:
  assumes "string_fits s"
  shows "readString (encode_string s @ r) = Some (s, r)"
proof -
  have l: "length s < 2 ^ 32" using assms by (simp add: string_fits_def)
  then have "unat (of_nat (length s) :: 32 word) = length s"
    by (simp add: unat_of_nat take_bit_nat_eq_self_iff)
  then show ?thesis
    using assms read_u32_le_bytes [OF l, of "bytes_of s @ r"]
    by (simp add: readString_def encode_string_def string_fits_def)
qed

interpretation str: prefix_codec encode_string readString string_fits
  by unfold_locales (rule readString_encode)

interpretation rcd: counted_codec encode_record decode_record record_fits decode_loop
proof
  show "decode_record (encode_record rec @ r) = Some (rec, r)" if "record_fits rec" for rec r
    using that by (simp add: decode_record_def encode_record_def record_fits_def str.dec_enc)
qed simp_all

lemma decode_encode_records:
  assumes "list_all record_fits rs" and "length rs \<le> 1000000"
  shows "decodeRecords (encode_records rs @ rest) = Some rs"
proof -
  have l: "length rs < 2 ^ 32" using assms by simp
  then have "unat (of_nat (length rs) :: 32 word) = length rs"
    by (simp add: unat_of_nat take_bit_nat_eq_self_iff)
  then show ?thesis
    using assms read_u32_le_bytes [OF l, of "concat (map encode_record rs) @ rest"]
      rcd.loop_enc [OF assms(1), of rest "[]"]
    by (simp add: decodeRecords_def encode_records_def)
qed

text \<open>What the decoder returns has the shape of a record.\<close>

definition record_shape :: "Record \<Rightarrow> bool" where
  "record_shape r \<longleftrightarrow> length (rec_Start r) = 16 \<and> length (rec_End r) = 16"

lemma decode_record_shape: "decode_record r = Some (rec, r') \<Longrightarrow> record_shape rec"
  by (auto simp: decode_record_def ReadFull_def record_shape_def split: bind_splits if_splits)

lemma decode_loop_shape:
  "decode_loop n r out = Some rs \<Longrightarrow> list_all record_shape out \<Longrightarrow> list_all record_shape rs \<and> length rs = length out + n"
  using rcd.loop_result [of n r out rs record_shape] decode_record_shape by auto

section \<open>Properties\<close>

text \<open>The record decoder inverts the record format: a block of up to a million well-formed records
  decodes to exactly those records in their order, whatever follows it.\<close>

lemma decodeRecords_encode:
  assumes "list_all record_fits rs" and "length rs \<le> 1000000"
  shows "decodeRecords (encode_records rs @ rest) = Some rs"
  by (rule decode_encode_records) (fact assms)+

lemma decodeRecords_encode_example:
  "decodeRecords (encode_records [\<lparr>rec_Family = 4, rec_Start = replicate 16 0, rec_End = replicate 16 255,
     rec_SourceID = 7, rec_Category = ''vpn'', rec_Confidence = 90, rec_ASN = 64500, rec_Org = ''o'',
     rec_Country = ''DE'', rec_Detail = []\<rparr>] @ [1, 2, 3]) \<noteq> None"
  by (subst decodeRecords_encode) (simp_all add: record_fits_def string_fits_def)

text \<open>Whatever bytes it is given, the record decoder returns an error or at most a million
  records, as many as the block's count field says, each with a 16-byte start and end.\<close>

lemma decodeRecords_type:
  "case decodeRecords b of
     None \<Rightarrow> True
   | Some rs \<Rightarrow> list_all record_shape rs \<and> length rs = unat (Uint32_LE (take 4 b)) \<and> length rs \<le> 1000000"
  by (auto simp: decodeRecords_def read_u32_def ReadFull_def dest!: decode_loop_shape split: option.split)

lemma sint64_add_wraps:
  assumes "2 ^ 63 \<le> sint (a :: int64) + sint b"
  shows "sint (a + b) = sint a + sint b - 2 ^ 64"
proof -
  have "a + b = word_of_int (sint a + sint b)" by simp
  also have "\<dots> = word_of_int (sint a + sint b - 2 ^ 64)"
    by (rule word_of_int_eq_iff [THEN iffD2]) (simp add: take_bit_eq_mod)
  finally have "sint (a + b) = sint (word_of_int (sint a + sint b - 2 ^ 64) :: int64)" by (rule arg_cong)
  also have "\<dots> = sint a + sint b - 2 ^ 64"
    using assms sint64_bounds [of a] sint64_bounds [of b] by (intro sint64_of_int) auto
  finally show ?thesis .
qed

text \<open>C29: Reading a block slices out of bounds exactly when the end of the block wraps around in 64
  bits: then the check against the length of the file passes with a negative end. For an offset
  that keeps the sum below the wrap the block is read or refused with an error.\<close>

theorem readBlock_panics_iff_wraps:
  assumes "0 <s bh_Compressed (rb_header b)" and "bh_Compressed (rb_header b) \<le>s 64 * 1024 * 1024"
    and "0 <s bh_Uncompressed (rb_header b)" and "bh_Uncompressed (rb_header b) \<le>s 256 * 1024 * 1024"
    and "db_data db \<noteq> []" and "0 \<le>s db_dataOffset db + bh_Offset (rb_header b)"
  shows "readBlock zstd db b = Inl PanicSliceBounds \<longleftrightarrow>
     2 ^ 63 \<le> sint (db_dataOffset db + bh_Offset (rb_header b)) + sint (bh_Compressed (rb_header b))"
proof -
  let ?s = "db_dataOffset db + bh_Offset (rb_header b)" and ?c = "bh_Compressed (rb_header b)"
  have c: "0 < sint ?c" "sint ?c \<le> 2 ^ 26" and s: "0 \<le> sint ?s"
    using assms by (simp_all add: word_sless_alt word_sle_eq)
  have ok: "\<not> (?c \<le>s 0 \<or> 64 * 1024 * 1024 <s ?c \<or> bh_Uncompressed (rb_header b) \<le>s 0
      \<or> 256 * 1024 * 1024 <s bh_Uncompressed (rb_header b))"
    using assms by (simp add: word_sless_alt word_sle_eq)
  show ?thesis
  proof (cases "2 ^ 63 \<le> sint ?s + sint ?c")
    case True
    then have "sint (?s + ?c) < 0" using c s sint64_bounds [of ?s] by (subst sint64_add_wraps) auto
    then show ?thesis using True ok assms(5) s by (simp add: readBlock_def word_sless_alt)
  next
    case False
    then have "sint (?s + ?c) = sint ?s + sint ?c" using c s by (intro sint64_add) auto
    then show ?thesis using False ok c by (auto simp: readBlock_def Let_def split: option.split)
  qed
qed

theorem readBlock_panics_iff_wraps_witness:
  "readBlock (\<lambda>_. None) \<lparr>db_data = [0], db_manifest = zero_Manifest, db_blocks = [], db_dataOffset = 0\<rparr>
     \<lparr>rb_header = zero_BlockHeader\<lparr>bh_Offset := 2 ^ 63 - 1, bh_Compressed := 1, bh_Uncompressed := 1\<rparr>,
      rb_family = 4, rb_first = [], rb_max = []\<rparr> = Inl PanicSliceBounds"
  by (subst readBlock_panics_iff_wraps) (simp_all add: word_sless_alt word_sle_eq zero_BlockHeader_def)

end
