(* ===== verification/Go_Float.thy ===== *)
theory Go_Float
  imports Complex_Main Prelude "HOL-Library.Log_Nat"
begin

text \<open>
  Go's \<open>float64\<close>, executable: a finite number is the rational it stands for, and an operation is the
  exact operation followed by \<open>fl64\<close>, which rounds to the nearest number of the binary64 format, ties
  to the even one.

  Infinities, not-a-number and the sign of zero are left out: no operation of the program comes near
  the largest finite number, divides by zero or looks at the sign of a zero.

  The locale \<open>rounding\<close> is what the proofs use of it: a map to a nearest number of a format. It is
  interpreted by \<open>fl64\<close>.
\<close>

section \<open>Rounding to a format\<close>

locale rounding =
  fixes nums :: "rat set" and fl :: "rat \<Rightarrow> rat"
  assumes in_nums: "fl x \<in> nums"
    and nearest: "f \<in> nums \<Longrightarrow> \<bar>fl x - x\<bar> \<le> \<bar>f - x\<bar>"
begin

lemma fl_id: "x \<in> nums \<Longrightarrow> fl x = x"
  using nearest [of x x] by simp

lemma fl_mono:
  assumes "x \<le> y"
  shows "fl x \<le> fl y"
proof (rule ccontr)
  assume "\<not> fl x \<le> fl y"
  moreover have "\<bar>fl x - x\<bar> \<le> \<bar>fl y - x\<bar>" "\<bar>fl y - y\<bar> \<le> \<bar>fl x - y\<bar>" by (simp_all add: nearest in_nums)
  moreover have "x \<noteq> y" using calculation(1) by auto
  ultimately show False using assms by (simp add: abs_if split: if_splits)
qed

lemma fl_ge: "f \<in> nums \<Longrightarrow> f \<le> x \<Longrightarrow> f \<le> fl x"
  using fl_mono [of f x] by (simp add: fl_id)

lemma fl_le: "f \<in> nums \<Longrightarrow> x \<le> f \<Longrightarrow> fl x \<le> f"
  using fl_mono [of x f] by (simp add: fl_id)

end

section \<open>The format binary64\<close>

text \<open>The nearest integer, ties to even.\<close>

definition round_even :: "rat \<Rightarrow> int" where
  "round_even x =
     (let n = \<lfloor>x\<rfloor>; r = x - of_int n
      in if r < 1 / 2 then n else if r > 1 / 2 then n + 1 else if even n then n else n + 1)"

text \<open>The exponent of the binade of a positive number: \<open>2 powi e \<le> x < 2 powi (e + 1)\<close>.\<close>

definition binade :: "rat \<Rightarrow> int" where
  "binade x =
     (let (n, d) = quotient_of x; e = bitlen n - bitlen d
      in if 2 powi e \<le> x then e else e - 1)"

text \<open>The distance of neighbouring numbers: 53 bits for a significand, and no exponent below -1074.\<close>

definition spacing :: "rat \<Rightarrow> rat" where
  "spacing x = 2 powi max (binade \<bar>x\<bar> - 52) (- 1074)"

definition fl64 :: "rat \<Rightarrow> rat" where
  "fl64 x = (if x = 0 then 0 else of_int (round_even (x / spacing x)) * spacing x)"

text \<open>The numbers of the format, of any size.\<close>

definition binary64 :: "rat set" where
  "binary64 = {of_int m * 2 powi e |m e. \<bar>m\<bar> \<le> 2 ^ 53 \<and> - 1074 \<le> e}"

text \<open>\<open>math.Round\<close>: the nearest integer, ties away from zero.\<close>

definition math_Round :: "rat \<Rightarrow> int" where
  "math_Round x = (if x < 0 then - \<lfloor>1 / 2 - x\<rfloor> else \<lfloor>x + 1 / 2\<rfloor>)"

section \<open>Rounding to nearest\<close>

lemma round_even_cases:
  obtains (down) "round_even x = \<lfloor>x\<rfloor>" "x - of_int \<lfloor>x\<rfloor> \<le> 1 / 2"
  | (up) "round_even x = \<lfloor>x\<rfloor> + 1" "1 / 2 \<le> x - of_int \<lfloor>x\<rfloor>"
  by (fastforce simp: round_even_def Let_def split: if_splits)

lemma round_even_nearest: "\<bar>of_int (round_even x) - x\<bar> \<le> \<bar>of_int k - x\<bar>"
proof -
  have "k \<le> \<lfloor>x\<rfloor> \<or> \<lfloor>x\<rfloor> + 1 \<le> k" by linarith
  then have k: "(of_int k :: rat) \<le> of_int \<lfloor>x\<rfloor> \<or> of_int \<lfloor>x\<rfloor> + 1 \<le> (of_int k :: rat)"
    by (metis of_int_1 of_int_add of_int_le_iff)
  have n: "of_int \<lfloor>x\<rfloor> \<le> x" "x < of_int \<lfloor>x\<rfloor> + 1" by linarith+
  show ?thesis
  proof (cases x rule: round_even_cases)
    case down
    then show ?thesis using k n by linarith
  next
    case up
    then have "of_int (round_even x) = of_int \<lfloor>x\<rfloor> + (1 :: rat)" by simp
    then show ?thesis using k n up(2) by linarith
  qed
qed

lemma round_even_half: "\<bar>of_int (round_even x) - x\<bar> \<le> 1 / 2"
proof (cases x rule: round_even_cases)
  case down
  then show ?thesis by linarith
next
  case up
  then have "of_int (round_even x) = of_int \<lfloor>x\<rfloor> + (1 :: rat)" by simp
  then show ?thesis using up(2) by linarith
qed

lemma powi_pos [simp]: "0 < (2 :: rat) powi e"
  by (simp add: zero_less_power_int)

lemma powi_mono: "e \<le> e' \<Longrightarrow> (2 :: rat) powi e \<le> 2 powi e'"
  by (rule power_int_increasing) simp_all

lemma binade_bounds:
  assumes "0 < x"
  shows "2 powi binade x \<le> x" "x < 2 powi (binade x + 1)"
proof -
  obtain n d where q: "quotient_of x = (n, d)" by (cases "quotient_of x")
  have d: "0 < d" using q by (rule quotient_of_denom_pos)
  have x: "x = of_int n / of_int d" using q by (rule quotient_of_div)
  then have n: "0 < n" using assms d by (simp add: zero_less_divide_iff)
  let ?b = "bitlen n" and ?c = "bitlen d"
  have len: "1 \<le> bitlen k \<and> (2 :: rat) powi (bitlen k - 1) \<le> of_int k \<and> of_int k < (2 :: rat) powi (bitlen k)"
    if "0 < k" for k
  proof -
    have "1 \<le> bitlen k" using that by (simp add: bitlen_alt_def)
    moreover have "(2 :: rat) ^ nat (bitlen k - 1) \<le> of_int k" "of_int k < (2 :: rat) ^ nat (bitlen k)"
      using bitlen_bounds [OF that] by (metis of_int_le_iff of_int_numeral of_int_power,
        metis of_int_less_iff of_int_numeral of_int_power)
    ultimately show ?thesis by (simp add: power_int_def)
  qed
  have lo: "2 powi (?b - ?c - 1) \<le> x"
  proof -
    have "(2 :: rat) powi (?b - ?c - 1) = 2 powi (?b - 1) / 2 powi ?c" by (simp add: power_int_diff)
    also have "\<dots> \<le> of_int n / of_int d"
      using len [OF n] len [OF d] d n by (intro frac_le) (simp_all add: less_imp_le)
    finally show ?thesis unfolding x .
  qed
  have hi: "x < 2 powi (?b - ?c + 1)"
  proof -
    have "of_int n / of_int d < (2 :: rat) powi ?b / 2 powi (?c - 1)"
      using len [OF n] len [OF d] n by (intro frac_less) auto
    also have "\<dots> = 2 powi (?b - ?c + 1)" by (simp add: power_int_diff power_int_add)
    finally show ?thesis unfolding x .
  qed
  show "2 powi binade x \<le> x" "x < 2 powi (binade x + 1)"
    using lo hi by (simp_all add: binade_def q Let_def)
qed

lemma binade_unique:
  assumes "2 powi e \<le> x" and "x < 2 powi (e + 1)"
  shows "binade x = e"
proof -
  have "0 < x" using assms(1) powi_pos [of e] by linarith
  note b = binade_bounds [OF this]
  have "(2 :: rat) powi e < 2 powi (binade x + 1)" "(2 :: rat) powi binade x < 2 powi (e + 1)"
    using assms b by linarith+
  then have "e < binade x + 1" "binade x < e + 1"
    by (metis linorder_not_less powi_mono)+
  then show ?thesis by simp
qed

lemma spacing_pos: "0 < spacing x"
  by (simp add: spacing_def)

text \<open>The rounding error is at most half the distance to the neighbours.\<close>

lemma fl64_error: "\<bar>fl64 x - x\<bar> \<le> spacing x / 2"
proof (cases "x = 0")
  case False
  have "fl64 x - x = (of_int (round_even (x / spacing x)) - x / spacing x) * spacing x"
    using False spacing_pos [of x] by (simp add: fl64_def left_diff_distrib)
  then have "\<bar>fl64 x - x\<bar> = \<bar>of_int (round_even (x / spacing x)) - x / spacing x\<bar> * spacing x"
    using spacing_pos [of x] by (simp add: abs_mult)
  also have "\<dots> \<le> 1 / 2 * spacing x"
    using spacing_pos [of x] by (intro mult_right_mono round_even_half) simp
  finally show ?thesis by simp
qed (use spacing_pos [of 0] in \<open>simp add: fl64_def\<close>)

text \<open>Every number of the format that is not a multiple of the spacing is nearer to zero than the binade is.\<close>

lemma binary64_cases:
  assumes "f \<in> binary64" and "x \<noteq> 0"
  obtains (multiple) k where "f = of_int k * spacing x"
  | (below) "\<bar>f\<bar> \<le> 2 powi binade \<bar>x\<bar>" "2 powi binade \<bar>x\<bar> = of_int (2 ^ 52) * spacing x"
proof -
  obtain m e where f: "f = of_int m * 2 powi e" "\<bar>m\<bar> \<le> 2 ^ 53" "- 1074 \<le> e"
    using assms(1) by (auto simp: binary64_def)
  let ?s = "max (binade \<bar>x\<bar> - 52) (- 1074)"
  show thesis
  proof (cases "?s \<le> e")
    case True
    have "(2 :: rat) powi e = 2 powi (e - ?s) * 2 powi ?s" by (simp flip: power_int_add)
    also have "(2 :: rat) powi (e - ?s) = of_int (2 ^ nat (e - ?s))" using True by (simp add: power_int_def)
    finally have "(2 :: rat) powi e = of_int (2 ^ nat (e - ?s)) * 2 powi ?s" .
    then have "f = of_int (m * 2 ^ nat (e - ?s)) * spacing x" by (simp add: f(1) spacing_def)
    then show ?thesis by (rule multiple)
  next
    case False
    then have s: "?s = binade \<bar>x\<bar> - 52" "e \<le> binade \<bar>x\<bar> - 53" using f(3) by auto
    have "\<bar>f\<bar> = of_int \<bar>m\<bar> * 2 powi e" by (simp add: f(1) abs_mult)
    also have "\<dots> \<le> of_int (2 ^ 53) * 2 powi (binade \<bar>x\<bar> - 53)"
      using f(2) powi_mono [OF s(2)] by (intro mult_mono) (simp_all only: of_int_le_iff, simp_all)
    also have "\<dots> = 2 powi binade \<bar>x\<bar>" by (simp add: power_int_diff)
    finally have "\<bar>f\<bar> \<le> 2 powi binade \<bar>x\<bar>" .
    moreover have "2 powi binade \<bar>x\<bar> = of_int (2 ^ 52) * spacing x"
      unfolding spacing_def s(1) by (simp add: power_int_diff)
    ultimately show ?thesis by (rule below)
  qed
qed

lemma fl64_nearest_multiple:
  assumes "x \<noteq> 0"
  shows "\<bar>fl64 x - x\<bar> \<le> \<bar>of_int k * spacing x - x\<bar>"
proof -
  have e: "of_int j * spacing x - x = (of_int j - x / spacing x) * spacing x" for j
    using spacing_pos [of x] by (simp add: left_diff_distrib)
  have "\<bar>of_int (round_even (x / spacing x)) - x / spacing x\<bar> * spacing x \<le> \<bar>of_int k - x / spacing x\<bar> * spacing x"
    using spacing_pos [of x] by (intro mult_right_mono round_even_nearest) simp
  then show ?thesis
    using assms spacing_pos [of x] by (simp add: fl64_def e abs_mult)
qed

lemma fl64_nearest:
  assumes "f \<in> binary64"
  shows "\<bar>fl64 x - x\<bar> \<le> \<bar>f - x\<bar>"
proof (cases "x = 0")
  case False
  from assms False show ?thesis
  proof (cases rule: binary64_cases)
    case (multiple k)
    then show ?thesis using fl64_nearest_multiple [OF False] by simp
  next
    case below
    have b: "2 powi binade \<bar>x\<bar> \<le> \<bar>x\<bar>" using False by (intro binade_bounds) simp
    have "\<bar>fl64 x - x\<bar> \<le> \<bar>of_int (if 0 < x then 2 ^ 52 else - (2 ^ 52)) * spacing x - x\<bar>"
      by (rule fl64_nearest_multiple [OF False])
    also have "\<dots> = \<bar>x\<bar> - 2 powi binade \<bar>x\<bar>" using b below(2) by auto
    also have "\<dots> \<le> \<bar>f - x\<bar>" using below(1) by linarith
    finally show ?thesis .
  qed
qed (simp add: fl64_def)

lemma fl64_binary64: "fl64 x \<in> binary64"
proof (cases "x = 0")
  case True
  have "0 \<in> binary64" unfolding binary64_def by (rule CollectI, rule exI [of _ 0], rule exI [of _ 0]) simp
  then show ?thesis using True by (simp add: fl64_def)
next
  case False
  let ?s = "max (binade \<bar>x\<bar> - 52) (- 1074)" and ?m = "round_even (x / spacing x)"
  have "\<bar>x\<bar> < 2 powi (binade \<bar>x\<bar> + 1)" using False by (intro binade_bounds) simp
  also have "\<dots> \<le> 2 powi (?s + 53)" by (intro powi_mono) simp
  also have "\<dots> = of_int (2 ^ 53) * spacing x" by (simp add: spacing_def power_int_add)
  finally have "\<bar>x / spacing x\<bar> < of_int (2 ^ 53)" using spacing_pos [of x] by (simp add: divide_less_eq)
  then have "\<bar>of_int ?m\<bar> \<le> (of_int (2 ^ 53) :: rat)"
    using round_even_nearest [of "x / spacing x" "2 ^ 53"] round_even_nearest [of "x / spacing x" "- (2 ^ 53)"]
    unfolding of_int_minus by linarith
  then have "\<bar>?m\<bar> \<le> 2 ^ 53" unfolding of_int_abs [symmetric] of_int_le_iff .
  then have "of_int ?m * 2 powi ?s \<in> binary64" unfolding binary64_def by fastforce
  then show ?thesis using False by (simp add: fl64_def spacing_def)
qed

interpretation f64: rounding binary64 fl64
  by unfold_locales (rule fl64_binary64, rule fl64_nearest)

lemma binary64I: "x = of_int m * 2 powi e \<Longrightarrow> \<bar>m\<bar> \<le> 2 ^ 53 \<Longrightarrow> - 1074 \<le> e \<Longrightarrow> x \<in> binary64"
  by (auto simp: binary64_def)

lemma of_int_binary64: "\<bar>m\<bar> \<le> 2 ^ 53 \<Longrightarrow> of_int m \<in> binary64"
  by (rule binary64I [of _ m 0]) simp_all

text \<open>Below a power of two the error is at most half the spacing there.\<close>

lemma fl64_abs_error:
  assumes "\<bar>x\<bar> \<le> 2 powi e" and "- 1000 \<le> e"
  shows "\<bar>fl64 x - x\<bar> \<le> 2 powi (e - 54)"
proof -
  consider "x = 0" | "\<bar>x\<bar> = 2 powi e" | "x \<noteq> 0" "\<bar>x\<bar> < 2 powi e" using assms(1) by linarith
  then show ?thesis
  proof cases
    case 1
    then show ?thesis by (simp add: fl64_def less_imp_le)
  next
    case 2
    then have "x = of_int (if 0 \<le> x then 1 else - 1) * 2 powi e" by auto
    then have "x \<in> binary64" by (rule binary64I) (use assms(2) in auto)
    then show ?thesis by (simp add: f64.fl_id less_imp_le)
  next
    case 3
    then have "2 powi binade \<bar>x\<bar> \<le> \<bar>x\<bar>" by (intro binade_bounds) simp
    then have "(2 :: rat) powi binade \<bar>x\<bar> < 2 powi e" using 3 by linarith
    then have "binade \<bar>x\<bar> < e" by (metis linorder_not_less powi_mono)
    then have "spacing x \<le> 2 powi (e - 53)" unfolding spacing_def using assms(2) by (intro powi_mono) auto
    then have "spacing x / 2 \<le> 2 powi (e - 54)" by (simp add: power_int_diff)
    then show ?thesis using fl64_error [of x] by linarith
  qed
qed

lemma math_Round_mono: "0 \<le> x \<Longrightarrow> x \<le> y \<Longrightarrow> math_Round x \<le> math_Round y"
  by (simp add: math_Round_def floor_mono)

lemma math_Round_error: "0 \<le> x \<Longrightarrow> \<bar>of_int (math_Round x) - x\<bar> \<le> 1 / 2"
proof -
  assume "0 \<le> x"
  then have m: "math_Round x = \<lfloor>x + 1 / 2\<rfloor>" by (simp add: math_Round_def)
  have "of_int \<lfloor>x + 1 / 2\<rfloor> \<le> x + 1 / 2" "x + 1 / 2 < of_int \<lfloor>x + 1 / 2\<rfloor> + 1" by linarith+
  then show ?thesis unfolding m by linarith
qed

lemma floor_numeral_quotient: "\<lfloor>numeral a / numeral b :: rat\<rfloor> = numeral a div numeral b"
  by (metis floor_divide_of_int_eq of_int_numeral)

text \<open>Evaluation: a rounding is determined by the binade and the nearest integer there.\<close>

lemma fl64_eval:
  assumes "2 ^ 52 \<le> x * 2 ^ k" and "x * 2 ^ k < 2 ^ 53" and "k \<le> 1000"
  shows "fl64 x = of_int (round_even (x * 2 ^ k)) / 2 ^ k"
proof -
  have p: "(2 :: rat) powi (- int k) = 1 / 2 ^ k" by (simp add: power_int_minus divide_inverse)
  have "(2 :: rat) powi (52 - int k) = 2 ^ 52 / 2 ^ k" "(2 :: rat) powi (53 - int k) = 2 ^ 53 / 2 ^ k"
    by (simp_all add: power_int_diff)
  then have "2 powi (52 - int k) \<le> x" "x < 2 powi (52 - int k + 1)"
    using assms(1,2) by (simp_all add: pos_divide_le_eq pos_less_divide_eq)
  then have b: "binade x = 52 - int k" by (rule binade_unique)
  have "0 < x" using \<open>2 powi (52 - int k) \<le> x\<close> powi_pos [of "52 - int k"] by linarith
  moreover have "max (binade x - 52) (- 1074) = - int k" using assms(3) by (simp add: b)
  ultimately show ?thesis by (simp add: fl64_def spacing_def p)
qed

end
