(* ===== verification/Ipintel_Score.thy ===== *)
theory Ipintel_Score
  imports Go_Float "HOL-Library.AList" "HOL-Library.Sublist" "HOL-Library.Multiset" "HOL-Library.Product_Lexorder"
begin

text \<open>
  The scoring of evidence, \<^verbatim>\<open>src/ipintelbin/score.go\<close>.

  \<^item> The map \<open>maxConf\<close> is an association list in insertion order; \<open>shuffle\<close> is the order in which
    Go's runtime iterates over it, any permutation.
  \<^item> Floating-point numbers are those of \<open>Go_Float\<close>, one rounding per operation in the order of the code.
    So the product of the factors depends on the order of iteration, as it does in the code. The
    lemmas bound its distance from the exact noisy-or, and show that the score of a category, which
    decides the verdict, is its exact value rounded.
  \<^item> \<open>sort.Slice\<close> is modelled by a sort by the key its comparison orders; the lemmas show that the
    key tells all entries apart, so every sorting algorithm gives the same list.
\<close>

section \<open>Definitions\<close>

record Evidence =
  ev_Source :: string
  ev_Category :: string
  ev_Confidence :: int
  ev_Matched :: bool
  ev_Detail :: string

record CategoryScore =
  cs_Category :: string
  cs_Confidence :: int
  cs_Score :: int

definition categoryWeights :: "(string \<times> int) list" where
  "categoryWeights =
     [(''tor'', 100), (''residential_proxy'', 95), (''vpn'', 80), (''vpn_candidate'', 0), (''proxy'', 70),
      (''relay'', 50), (''hosting'', 45), (''enterprise_gateway'', 35), (''cdn'', 20), (''business'', 10),
      (''mobile'', 5), (''education'', 5), (''government'', 5), (''residential_isp'', 0), (''unknown'', 0),
      (''info'', 0), (''country'', 0)]"

definition categoryOrder :: "string list" where
  "categoryOrder =
     [''tor'', ''residential_proxy'', ''vpn'', ''vpn_candidate'', ''proxy'', ''relay'', ''hosting'',
      ''enterprise_gateway'', ''cdn'', ''business'', ''mobile'', ''education'', ''government'',
      ''residential_isp'', ''unknown'']"

text \<open>A missing key of a Go map reads as 0.\<close>

definition weight_of :: "string \<Rightarrow> int" where
  "weight_of cat = (case map_of categoryWeights cat of Some w \<Rightarrow> w | None \<Rightarrow> 0)"

definition scoringWeights :: "string \<Rightarrow> int option" where
  "scoringWeights = map_of categoryWeights"

fun rank_from :: "string list \<Rightarrow> string \<Rightarrow> nat" where
  "rank_from [] cat = 0"
| "rank_from (c # cs) cat = (if c = cat then 0 else Suc (rank_from cs cat))"

definition categoryRank :: "string \<Rightarrow> nat" where
  "categoryRank cat = rank_from categoryOrder cat"

definition evidence_category :: "Evidence \<Rightarrow> string" where
  "evidence_category e = (if ev_Category e = [] then ''unknown'' else ev_Category e)"

definition clamp_confidence :: "int \<Rightarrow> int" where
  "clamp_confidence c = (let c = (if c < 0 then 0 else c) in if c > 100 then 100 else c)"

definition conf_lookup :: "(string \<times> int) list \<Rightarrow> string \<Rightarrow> int" where
  "conf_lookup m cat = (case map_of m cat of Some c \<Rightarrow> c | None \<Rightarrow> 0)"

definition max_conf_step :: "(string \<times> int) list \<Rightarrow> Evidence \<Rightarrow> (string \<times> int) list" where
  "max_conf_step maxConf e =
     (let cat = evidence_category e in
      if map_of categoryWeights cat = None then maxConf
      else let c = clamp_confidence (ev_Confidence e) in
           if c > conf_lookup maxConf cat then AList.update cat c maxConf else maxConf)"

definition max_conf :: "Evidence list \<Rightarrow> (string \<times> int) list" where
  "max_conf evidence = foldl max_conf_step [] evidence"

text \<open>\<open>catScore := float64(weight*conf) / 100.0\<close>\<close>

definition catScore :: "string \<times> int \<Rightarrow> rat" where
  "catScore p = fl64 (fl64 (of_int (weight_of (fst p) * snd p)) / 100)"

definition category_score :: "string \<times> int \<Rightarrow> CategoryScore" where
  "category_score p = \<lparr>cs_Category = fst p, cs_Confidence = snd p, cs_Score = math_Round (catScore p)\<rparr>"

text \<open>\<open>1.0 - catScore/100.0\<close>\<close>

definition factor :: "string \<times> int \<Rightarrow> rat" where
  "factor p = fl64 (1 - fl64 (catScore p / 100))"

definition counts :: "string \<times> int \<Rightarrow> bool" where
  "counts p \<longleftrightarrow> \<not> (weight_of (fst p) = 0 \<or> snd p = 0)"

definition sort_key_of :: "CategoryScore \<Rightarrow> int \<times> nat" where
  "sort_key_of c = (- cs_Score c, categoryRank (cs_Category c))"

definition scoreEvidence ::
  "((string \<times> int) list \<Rightarrow> (string \<times> int) list) \<Rightarrow> Evidence list
   \<Rightarrow> int \<times> string \<times> CategoryScore list" where
  "scoreEvidence shuffle evidence =
     (let used = filter counts (shuffle (max_conf evidence));
          product = foldl (\<lambda>product p. fl64 (product * factor p)) 1 used;
          categories = sort_key sort_key_of (map category_score used);
          verdict = (if categories \<noteq> [] then cs_Category (hd categories) else ''unknown'');
          score = math_Round (fl64 (100 * fl64 (1 - product)));
          score = (if score < 0 then 0 else score);
          score = (if score > 100 then 100 else score)
      in (score, verdict, categories))"

section \<open>The best confidence of each category\<close>

definition best_conf :: "Evidence list \<Rightarrow> string \<Rightarrow> int" where
  "best_conf evidence cat =
     (if map_of categoryWeights cat = None then 0
      else foldr (\<lambda>e m. if evidence_category e = cat then max (clamp_confidence (ev_Confidence e)) m else m)
             evidence 0)"

lemma clamp_confidence_bounds: "0 \<le> clamp_confidence c" "clamp_confidence c \<le> 100"
  by (auto simp: clamp_confidence_def Let_def)

lemma best_conf_bounds: "0 \<le> best_conf ev cat" "best_conf ev cat \<le> 100"
proof -
  have "0 \<le> foldr (\<lambda>e m. if evidence_category e = cat then max (clamp_confidence (ev_Confidence e)) m else m) ev 0
      \<and> foldr (\<lambda>e m. if evidence_category e = cat then max (clamp_confidence (ev_Confidence e)) m else m) ev 0 \<le> 100"
    by (induction ev) (auto simp: clamp_confidence_bounds)
  then show "0 \<le> best_conf ev cat" "best_conf ev cat \<le> 100" by (auto simp: best_conf_def)
qed

lemma best_conf_Nil [simp]: "best_conf [] cat = 0"
  by (simp add: best_conf_def)

lemma foldr_max_snoc:
  "foldr (\<lambda>e m. if P e then max (f e) m else m) (xs @ [x]) (b :: int)
    = (if P x then max (f x) (foldr (\<lambda>e m. if P e then max (f e) m else m) xs b)
       else foldr (\<lambda>e m. if P e then max (f e) m else m) xs b)"
  by (induction xs) auto

lemma best_conf_snoc:
  "best_conf (ev @ [e]) cat =
     (if map_of categoryWeights cat \<noteq> None \<and> evidence_category e = cat
      then max (clamp_confidence (ev_Confidence e)) (best_conf ev cat) else best_conf ev cat)"
  unfolding best_conf_def foldr_max_snoc by simp

lemma max_conf_distinct: "distinct (map fst (max_conf ev))"
  by (induction ev rule: rev_induct) (auto simp: max_conf_def max_conf_step_def Let_def distinct_update)

lemma max_conf_lookup: "map_of (max_conf ev) cat = (if 0 < best_conf ev cat then Some (best_conf ev cat) else None)"
proof (induction ev arbitrary: cat rule: rev_induct)
  case Nil
  then show ?case by (simp add: max_conf_def)
next
  case (snoc e ev)
  have l: "conf_lookup (max_conf ev) k = best_conf ev k" for k
    using snoc [of k] best_conf_bounds(1) [of ev k] by (simp add: conf_lookup_def)
  have m: "max_conf (ev @ [e]) = max_conf_step (max_conf ev) e" by (simp add: max_conf_def)
  show ?case
    using snoc [of cat] l [of "evidence_category e"] best_conf_bounds(1) [of ev "evidence_category e"]
    by (auto simp: m max_conf_step_def Let_def best_conf_snoc update_conv max_def)
qed

lemma max_conf_set:
  "(cat, c) \<in> set (max_conf ev) \<longleftrightarrow> 0 < c \<and> c = best_conf ev cat"
  using map_of_eq_Some_iff [OF max_conf_distinct, of ev cat c] by (auto simp: max_conf_lookup split: if_splits)

lemma best_conf_known: "0 < best_conf ev cat \<Longrightarrow> cat \<in> set (map fst categoryWeights)"
  by (auto simp: best_conf_def map_of_eq_None_iff split: if_splits)

section \<open>The order of iteration\<close>

lemma weighty_in_order: "weight_of cat \<noteq> 0 \<Longrightarrow> cat \<in> set categoryOrder"
  by (auto simp: weight_of_def categoryWeights_def categoryOrder_def split: if_splits)

lemma rank_from_inj: "a \<in> set cs \<Longrightarrow> rank_from cs a = rank_from cs b \<Longrightarrow> a = b"
  by (induction cs) (auto split: if_splits)

lemma sort_key_inj:
  assumes "weight_of a \<noteq> 0"
    and "sort_key_of (category_score (a, c)) = sort_key_of (category_score (b, d))"
  shows "a = b"
  using assms rank_from_inj [OF weighty_in_order]
  by (auto simp: sort_key_of_def category_score_def categoryRank_def)

text \<open>What is left of the map after the entries without weight are skipped.\<close>

abbreviation used_entries :: "Evidence list \<Rightarrow> (string \<times> int) list" where
  "used_entries ev \<equiv> filter counts (max_conf ev)"

lemma used_entries_set:
  "(cat, c) \<in> set (used_entries ev) \<longleftrightarrow> 0 < c \<and> c = best_conf ev cat \<and> weight_of cat \<noteq> 0"
  by (auto simp: max_conf_set counts_def)

lemma categories_inj: "inj_on sort_key_of (set (map category_score (used_entries ev)))"
proof (rule inj_onI)
  fix x y
  assume "x \<in> set (map category_score (used_entries ev))" "y \<in> set (map category_score (used_entries ev))"
  then obtain a c b d where p: "(a, c) \<in> set (used_entries ev)" "x = category_score (a, c)"
    "(b, d) \<in> set (used_entries ev)" "y = category_score (b, d)" by auto
  assume "sort_key_of x = sort_key_of y"
  moreover have "weight_of a \<noteq> 0" using p(1) unfolding used_entries_set by blast
  ultimately have "a = b" using p(2,4) sort_key_inj by blast
  then show "x = y" using p unfolding used_entries_set by simp
qed

definition sorted_categories :: "Evidence list \<Rightarrow> CategoryScore list" where
  "sorted_categories ev = sort_key sort_key_of (map category_score (used_entries ev))"

text \<open>The total score, for an order of the entries.\<close>

definition product_of :: "(string \<times> int) list \<Rightarrow> rat" where
  "product_of xs = foldl (\<lambda>product p. fl64 (product * factor p)) 1 xs"

definition total_score :: "(string \<times> int) list \<Rightarrow> int" where
  "total_score xs = math_Round (fl64 (100 * fl64 (1 - product_of xs)))"

definition clamp_score :: "int \<Rightarrow> int" where
  "clamp_score s = (let s = (if s < 0 then 0 else s) in if s > 100 then 100 else s)"

lemma scoreEvidence_eq:
  assumes "\<And>xs. mset (shuffle xs) = mset xs"
  shows "scoreEvidence shuffle ev =
     (clamp_score (total_score (filter counts (shuffle (max_conf ev)))),
      (if sorted_categories ev \<noteq> [] then cs_Category (hd (sorted_categories ev)) else ''unknown''),
      sorted_categories ev)"
proof -
  let ?xs = "filter counts (shuffle (max_conf ev))"
  have m: "mset ?xs = mset (used_entries ev)" using assms by (simp add: mset_filter)
  then have mm: "mset (map category_score ?xs) = mset (map category_score (used_entries ev))" by simp
  have "set (map category_score ?xs) = set (map category_score (used_entries ev))"
    using mm by (metis set_mset_mset)
  then have inj: "inj_on sort_key_of (set (map category_score ?xs))" using categories_inj by metis
  have "mset (sorted_categories ev) = mset (map category_score ?xs)"
    using mm by (simp add: sorted_categories_def)
  then have "sort_key sort_key_of (map category_score ?xs) = sorted_categories ev"
    by (intro sort_key_inj_key_eq [OF _ inj]) (simp_all add: sorted_categories_def)
  then show ?thesis
    unfolding scoreEvidence_def Let_def clamp_score_def total_score_def product_of_def by simp
qed

section \<open>The scores of the categories\<close>

lemma weight_bounds: "0 \<le> weight_of cat" "weight_of cat \<le> 100"
  by (auto simp: weight_of_def categoryWeights_def split: if_splits)

lemma weighted_bounds:
  assumes "0 \<le> c" "c \<le> 100"
  shows "0 \<le> weight_of cat * c" "weight_of cat * c \<le> 10000"
proof -
  show "0 \<le> weight_of cat * c" using weight_bounds assms by simp
  have "weight_of cat * c \<le> 100 * 100" using weight_bounds assms by (intro mult_mono) auto
  then show "weight_of cat * c \<le> 10000" by simp
qed

lemma catScore_eq:
  assumes "0 \<le> c" "c \<le> 100"
  shows "catScore (cat, c) = fl64 (of_int (weight_of cat * c) / 100)"
  using weighted_bounds [OF assms, of cat] by (simp add: catScore_def f64.fl_id of_int_binary64 del: of_int_mult)

lemma catScore_bounds:
  assumes "0 \<le> c" "c \<le> 100"
  shows "0 \<le> catScore (cat, c)" "catScore (cat, c) \<le> 100"
proof -
  have "0 \<le> (of_int (weight_of cat * c) :: rat)" "of_int (weight_of cat * c) \<le> (10000 :: rat)"
    using weighted_bounds [OF assms, of cat] by (simp_all only: of_int_0_le_iff of_int_le_numeral_iff)
  then show "0 \<le> catScore (cat, c)" "catScore (cat, c) \<le> 100"
    unfolding catScore_eq [OF assms]
    using f64.fl_ge [OF of_int_binary64 [of 0]] f64.fl_le [OF of_int_binary64 [of 100]] by simp_all
qed

text \<open>\<open>math.Round\<close> of a quotient by 100 that was rounded before: a quotient is a half, or a hundredth away from it.\<close>

lemma round_hundredths:
  assumes "0 \<le> n" "n \<le> 10000"
  shows "math_Round (fl64 (of_int n / 100)) = (n + 50) div 100"
proof -
  let ?k = "(n + 50) div 100" and ?x = "of_int n / (100 :: rat)"
  have n: "100 * ?k \<le> n + 50" "n + 50 \<le> 100 * ?k + 99" by (auto intro: order.trans [OF _ order.refl])
  have k: "0 \<le> ?k" "?k \<le> 100" using assms by auto
  have "(of_int (100 * ?k) :: rat) \<le> of_int (n + 50)" "(of_int (n + 50) :: rat) \<le> of_int (100 * ?k + 99)"
    using n by (simp_all only: of_int_le_iff)
  then have x: "of_int ?k - 1 / 2 \<le> ?x" "?x \<le> of_int ?k + 49 / 100" by simp_all
  have "of_int ?k - 1 / 2 \<in> binary64" by (rule binary64I [of _ "2 * ?k - 1" "- 1"]) (use k in auto)
  then have lo: "of_int ?k - 1 / 2 \<le> fl64 ?x" using x(1) by (rule f64.fl_ge)
  have "of_int ?k + 63 / 128 \<in> binary64"
    by (rule binary64I [of _ "128 * ?k + 63" "- 7"]) (use k in \<open>auto simp: power_int_def field_simps\<close>)
  then have hi: "fl64 ?x \<le> of_int ?k + 63 / 128" using x(2) by (intro f64.fl_le) auto
  have "0 \<le> fl64 ?x" using assms(1) by (intro f64.fl_ge of_int_binary64 [of 0, simplified]) simp_all
  moreover have "\<lfloor>fl64 ?x + 1 / 2\<rfloor> = ?k" using lo hi by (intro floor_unique) simp_all
  ultimately show ?thesis by (simp add: math_Round_def)
qed

lemma category_score_Score:
  assumes "0 \<le> c" "c \<le> 100"
  shows "cs_Score (category_score (cat, c)) = (weight_of cat * c + 50) div 100"
  unfolding category_score_def
  using round_hundredths [OF weighted_bounds [OF assms]] catScore_eq [OF assms] by (simp del: of_int_mult)

section \<open>The noisy-or\<close>

abbreviation known_categories :: "string set" where
  "known_categories \<equiv> set (map fst categoryWeights)"

definition exact_factor :: "string \<times> int \<Rightarrow> rat" where
  "exact_factor p = 1 - of_int (weight_of (fst p) * snd p) / 10000"

text \<open>The exact noisy-or of the best confidences, weighted.\<close>

definition noisy_or :: "Evidence list \<Rightarrow> rat" where
  "noisy_or ev = (\<Prod>cat \<in> known_categories. exact_factor (cat, best_conf ev cat))"

lemma exact_factor_bounds:
  assumes "0 \<le> c" "c \<le> 100"
  shows "0 \<le> exact_factor (cat, c)" "exact_factor (cat, c) \<le> 1"
proof -
  have "0 \<le> rat_of_int (weight_of cat * c)" "rat_of_int (weight_of cat * c) \<le> 10000"
    using weighted_bounds [OF assms, of cat] by (simp_all only: of_int_0_le_iff of_int_le_numeral_iff)
  then show "0 \<le> exact_factor (cat, c)" "exact_factor (cat, c) \<le> 1" by (simp_all add: exact_factor_def)
qed

lemma binary64_consts: "0 \<in> binary64" "1 \<in> binary64" "100 \<in> binary64"
  using of_int_binary64 [of 0] of_int_binary64 [of 1] of_int_binary64 [of 100] by simp_all

lemma fl64_unit: "0 \<le> x \<Longrightarrow> x \<le> 1 \<Longrightarrow> 0 \<le> fl64 x \<and> fl64 x \<le> 1"
  using f64.fl_ge f64.fl_le binary64_consts by blast

text \<open>The greatest error of a rounding below one.\<close>

definition eps64 :: rat where
  "eps64 = 1 / 2 ^ 54"

lemma eps64_pos: "0 < eps64"
  by (simp add: eps64_def)

lemma fl64_unit_error: "0 \<le> x \<Longrightarrow> x \<le> 1 \<Longrightarrow> \<bar>fl64 x - x\<bar> \<le> eps64"
  using fl64_abs_error [of x 0] by (simp add: eps64_def power_int_def power_one_over)

lemma fl64_hundred_error: "0 \<le> x \<Longrightarrow> x \<le> 100 \<Longrightarrow> \<bar>fl64 x - x\<bar> \<le> 128 * eps64"
  using fl64_abs_error [of x 7] by (simp add: eps64_def power_int_def power_one_over)

lemma factor_unit:
  assumes "0 \<le> c" "c \<le> 100"
  shows "0 \<le> factor (cat, c)" "factor (cat, c) \<le> 1"
  using catScore_bounds [OF assms, of cat] fl64_unit [of "catScore (cat, c) / 100"]
    fl64_unit [of "1 - fl64 (catScore (cat, c) / 100)"]
  by (simp_all add: factor_def)

text \<open>A factor of the code is the exact one up to four units of its last place.\<close>

lemma factor_error:
  assumes "0 \<le> c" "c \<le> 100"
  shows "\<bar>factor (cat, c) - exact_factor (cat, c)\<bar> \<le> 4 * eps64"
proof -
  let ?n = "of_int (weight_of cat * c) :: rat" and ?s = "catScore (cat, c)"
  have n: "0 \<le> ?n" "?n \<le> 10000"
    using weighted_bounds [OF assms, of cat] by (simp_all only: of_int_0_le_iff of_int_le_numeral_iff)
  note s = catScore_bounds [OF assms, of cat]
  have "\<bar>?s - ?n / 100\<bar> \<le> 128 * eps64" unfolding catScore_eq [OF assms] using n by (intro fl64_hundred_error) simp_all
  moreover have "\<bar>fl64 (?s / 100) - ?s / 100\<bar> \<le> eps64" using s by (intro fl64_unit_error) simp_all
  moreover have "0 \<le> fl64 (?s / 100) \<and> fl64 (?s / 100) \<le> 1" using s by (intro fl64_unit) simp_all
  then have "\<bar>factor (cat, c) - (1 - fl64 (?s / 100))\<bar> \<le> eps64" unfolding factor_def by (intro fl64_unit_error) simp_all
  moreover have "exact_factor (cat, c) = 1 - ?n / 100 / 100" by (simp add: exact_factor_def)
  ultimately show ?thesis using eps64_pos by linarith
qed

lemma error_trans: "\<bar>x - y\<bar> \<le> d \<Longrightarrow> \<bar>y - z\<bar> \<le> e \<Longrightarrow> \<bar>x - z\<bar> \<le> d + (e :: rat)"
  using abs_triangle_ineq [of "x - y" "y - z"] by simp

abbreviation entry_ok :: "string \<times> int \<Rightarrow> bool" where
  "entry_ok p \<equiv> 0 \<le> snd p \<and> snd p \<le> 100"

lemma product_step:
  assumes "0 \<le> a" "a \<le> 1" "0 \<le> b" "b \<le> 1" "entry_ok p"
  shows "0 \<le> fl64 (a * factor p)" "fl64 (a * factor p) \<le> 1"
    "\<bar>fl64 (a * factor p) - b * exact_factor p\<bar> \<le> \<bar>a - b\<bar> + 5 * eps64"
proof -
  obtain cat c where p: "p = (cat, c)" "0 \<le> c" "c \<le> 100" using assms(5) by (cases p) auto
  let ?f = "factor p" and ?e = "exact_factor p"
  have f: "0 \<le> ?f" "?f \<le> 1" and d: "\<bar>?f - ?e\<bar> \<le> 4 * eps64"
    using factor_unit [OF p(2,3)] factor_error [OF p(2,3)] by (simp_all add: p(1))
  have u: "0 \<le> a * ?f" "a * ?f \<le> 1" using assms f by (auto intro: mult_le_one)
  show "0 \<le> fl64 (a * ?f)" "fl64 (a * ?f) \<le> 1" using fl64_unit [OF u] by auto
  have "\<bar>a * ?f - b * ?e\<bar> = \<bar>(a - b) * ?f + b * (?f - ?e)\<bar>" by (simp add: algebra_simps)
  also have "\<dots> \<le> \<bar>a - b\<bar> * ?f + b * \<bar>?f - ?e\<bar>"
    using abs_triangle_ineq [of "(a - b) * ?f" "b * (?f - ?e)"] f assms(3) by (simp add: abs_mult)
  also have "\<dots> \<le> \<bar>a - b\<bar> * 1 + 1 * (4 * eps64)" using f d assms by (intro add_mono mult_mono) auto
  finally have d: "\<bar>a * ?f - b * ?e\<bar> \<le> \<bar>a - b\<bar> + 4 * eps64" by simp
  from error_trans [OF fl64_unit_error [OF u] d]
  show "\<bar>fl64 (a * ?f) - b * ?e\<bar> \<le> \<bar>a - b\<bar> + 5 * eps64" by simp
qed

lemma product_error:
  assumes "list_all entry_ok xs" and "0 \<le> a" "a \<le> 1" "0 \<le> b" "b \<le> 1"
  shows "0 \<le> foldl (\<lambda>product p. fl64 (product * factor p)) a xs \<and> foldl (\<lambda>product p. fl64 (product * factor p)) a xs \<le> 1
    \<and> \<bar>foldl (\<lambda>product p. fl64 (product * factor p)) a xs - b * prod_list (map exact_factor xs)\<bar>
        \<le> \<bar>a - b\<bar> + of_nat (length xs) * (5 * eps64)"
  using assms
proof (induction xs arbitrary: a b)
  case (Cons p xs)
  have p: "entry_ok p" using Cons.prems(1) by simp
  obtain cat c where pc: "p = (cat, c)" by (cases p)
  note s = product_step [OF Cons.prems(2-5) p]
  have "0 \<le> exact_factor p" "exact_factor p \<le> 1" using exact_factor_bounds p by (simp_all add: pc)
  then have b: "0 \<le> b * exact_factor p" "b * exact_factor p \<le> 1" using Cons.prems by (auto intro: mult_le_one)
  have "list_all entry_ok xs" using Cons.prems(1) by simp
  from Cons.IH [OF this s(1,2) b] s(3) show ?case by (simp add: mult.assoc ring_distribs)
qed simp

lemma max_conf_entry_ok: "list_all entry_ok (max_conf ev)"
  using best_conf_bounds by (auto simp: list_all_iff max_conf_set)

lemma exact_product: "prod_list (map exact_factor (used_entries ev)) = noisy_or ev"
proof -
  let ?U = "{cat \<in> known_categories. 0 < best_conf ev cat \<and> weight_of cat \<noteq> 0}"
  have "set (used_entries ev) = (\<lambda>cat. (cat, best_conf ev cat)) ` ?U"
  proof (rule set_eqI)
    fix p :: "string \<times> int"
    obtain a c where p: "p = (a, c)" by (cases p)
    show "p \<in> set (used_entries ev) \<longleftrightarrow> p \<in> (\<lambda>cat. (cat, best_conf ev cat)) ` ?U"
      unfolding p used_entries_set using best_conf_known [of ev a] by auto
  qed
  moreover have "distinct (used_entries ev)" using max_conf_distinct [of ev] by (simp add: distinct_map)
  then have "prod_list (map exact_factor (used_entries ev)) = (\<Prod>p \<in> set (used_entries ev). exact_factor p)"
    by (rule prod.distinct_set_conv_list [symmetric])
  ultimately have "prod_list (map exact_factor (used_entries ev))
      = (\<Prod>p \<in> (\<lambda>cat. (cat, best_conf ev cat)) ` ?U. exact_factor p)" by (simp only:)
  also have "\<dots> = (\<Prod>cat \<in> ?U. exact_factor (cat, best_conf ev cat))"
    by (subst prod.reindex) (auto intro: inj_onI)
  also have "\<dots> = noisy_or ev" unfolding noisy_or_def
  proof (rule prod.mono_neutral_left)
    show "\<forall>cat \<in> known_categories - ?U. exact_factor (cat, best_conf ev cat) = 1"
    proof
      fix cat assume "cat \<in> known_categories - ?U"
      then have "best_conf ev cat = 0 \<or> weight_of cat = 0" using best_conf_bounds(1) [of ev cat] by auto
      then show "exact_factor (cat, best_conf ev cat) = 1" by (auto simp: exact_factor_def)
    qed
  qed auto
  finally show ?thesis .
qed

lemma noisy_or_bounds: "0 \<le> noisy_or ev" "noisy_or ev \<le> 1"
  unfolding noisy_or_def using exact_factor_bounds best_conf_bounds by (auto intro: prod_nonneg prod_le_1)

lemma used_entries_length: "length (used_entries ev) \<le> 17"
proof -
  have d: "distinct (map fst (used_entries ev))"
    using max_conf_distinct [of ev] by (rule distinct_map_filter)
  have "set (map fst (used_entries ev)) \<subseteq> known_categories"
    using best_conf_known by (auto simp: max_conf_set)
  then have "card (set (map fst (used_entries ev))) \<le> length categoryWeights"
    by (metis List.finite_set card_length card_mono length_map order.trans)
  then show ?thesis using distinct_card [OF d] by (simp add: categoryWeights_def)
qed

text \<open>In any order of the entries the score is that of the exact noisy-or up to rounding.\<close>

lemma total_score_exact:
  assumes "mset xs = mset (used_entries ev)"
  shows "0 \<le> total_score xs" "total_score xs \<le> 100"
    "\<bar>of_int (total_score xs) - 100 * (1 - noisy_or ev)\<bar> \<le> 1 / 2 + 1 / 2 ^ 40"
proof -
  have "list_all entry_ok xs"
    using max_conf_entry_ok [of ev] mset_eq_setD [OF assms] by (auto simp: list_all_iff)
  from product_error [OF this, of 1 1] have p: "0 \<le> product_of xs" "product_of xs \<le> 1"
    and e: "\<bar>product_of xs - prod_list (map exact_factor xs)\<bar> \<le> of_nat (length xs) * (5 * eps64)"
    by (simp_all add: product_of_def)
  have "prod_mset (mset (map exact_factor xs)) = prod_mset (mset (map exact_factor (used_entries ev)))"
    using assms by simp
  then have n: "prod_list (map exact_factor xs) = noisy_or ev"
    unfolding exact_product [symmetric] prod_mset_prod_list .
  have "length xs \<le> 17" using used_entries_length [of ev] assms by (metis size_mset)
  then have "(of_nat (length xs) :: rat) \<le> of_nat 17" by (simp only: of_nat_le_iff)
  then have "of_nat (length xs) * (5 * eps64) \<le> 17 * (5 * eps64)" using eps64_pos by (intro mult_right_mono) simp_all
  with e have e: "\<bar>product_of xs - noisy_or ev\<bar> \<le> 85 * eps64" unfolding n by linarith
  let ?u = "fl64 (1 - product_of xs)"
  have u: "0 \<le> ?u" "?u \<le> 1" "\<bar>?u - (1 - product_of xs)\<bar> \<le> eps64"
    using p fl64_unit [of "1 - product_of xs"] fl64_unit_error [of "1 - product_of xs"] by simp_all
  let ?h = "fl64 (100 * ?u)"
  have h: "0 \<le> ?h" "?h \<le> 100" "\<bar>?h - 100 * ?u\<bar> \<le> 128 * eps64"
    using u fl64_hundred_error [of "100 * ?u"] f64.fl_ge [OF binary64_consts(1), of "100 * ?u"]
      f64.fl_le [OF binary64_consts(3), of "100 * ?u"] by simp_all
  show "0 \<le> total_score xs" "total_score xs \<le> 100"
    using math_Round_mono [of 0 ?h] math_Round_mono [of ?h 100] h
    unfolding total_score_def by (simp_all add: math_Round_def)
  have "\<bar>?u - (1 - noisy_or ev)\<bar> \<le> 86 * eps64" using e u(3) by linarith
  then have "\<bar>100 * (?u - (1 - noisy_or ev))\<bar> \<le> 8600 * eps64" unfolding abs_mult by simp
  then have "\<bar>100 * ?u - 100 * (1 - noisy_or ev)\<bar> \<le> 8600 * eps64" by (simp only: right_diff_distrib)
  from error_trans [OF h(3) this] have "\<bar>?h - 100 * (1 - noisy_or ev)\<bar> \<le> 8728 * eps64" by simp
  moreover have "8728 * eps64 \<le> 1 / 2 ^ 40" by (simp add: eps64_def)
  ultimately have "\<bar>?h - 100 * (1 - noisy_or ev)\<bar> \<le> 1 / 2 ^ 40" by (rule order.trans)
  from error_trans [OF math_Round_error [OF h(1)] this]
  show "\<bar>of_int (total_score xs) - 100 * (1 - noisy_or ev)\<bar> \<le> 1 / 2 + 1 / 2 ^ 40"
    unfolding total_score_def .
qed

lemma clamp_score_id: "0 \<le> s \<Longrightarrow> s \<le> 100 \<Longrightarrow> clamp_score s = s"
  by (simp add: clamp_score_def)

text \<open>The score for a permutation of the entries, without the clamping that has no effect.\<close>

lemma score_total:
  assumes "\<And>xs. mset (shuffle xs) = mset xs"
  shows "fst (scoreEvidence shuffle ev) = total_score (filter counts (shuffle (max_conf ev)))"
    and "mset (filter counts (shuffle (max_conf ev))) = mset (used_entries ev)"
proof -
  show m: "mset (filter counts (shuffle (max_conf ev))) = mset (used_entries ev)"
    using assms by (simp add: mset_filter)
  show "fst (scoreEvidence shuffle ev) = total_score (filter counts (shuffle (max_conf ev)))"
    using total_score_exact(1,2) [OF m] by (simp add: scoreEvidence_eq [OF assms] clamp_score_id)
qed

text \<open>Two integers that close to two numbers.\<close>

lemma near_le:
  assumes "\<bar>of_int m - x\<bar> \<le> (1 / 2 + 1 / 2 ^ 40 :: rat)" and "\<bar>of_int n - y\<bar> \<le> (1 / 2 + 1 / 2 ^ 40 :: rat)" and "x \<le> y"
  shows "m \<le> n + 1"
proof -
  have "of_int m - x \<le> 1 / 2 + 1 / 2 ^ 40" "- (of_int n - y) \<le> 1 / 2 + 1 / 2 ^ 40"
    using assms(1,2) by (simp_all only: abs_le_iff)
  then have "(of_int m :: rat) - of_int n \<le> (1 / 2 + 1 / 2 ^ 40) + (1 / 2 + 1 / 2 ^ 40)" using assms(3) by linarith
  also have "\<dots> < 2" by simp
  finally have "(of_int m :: rat) - of_int n < 2" .
  then have "of_int (m - n) < (of_int 2 :: rat)" by simp
  then show ?thesis unfolding of_int_less_iff by simp
qed

lemma near_same:
  assumes "\<bar>of_int m - x\<bar> \<le> (1 / 2 + 1 / 2 ^ 40 :: rat)" and "\<bar>of_int n - x\<bar> \<le> (1 / 2 + 1 / 2 ^ 40 :: rat)"
  shows "\<bar>m - n\<bar> \<le> 1"
  using near_le [OF assms order.refl] near_le [OF assms(2,1) order.refl] by simp

section \<open>More evidence\<close>

lemma factor_mono:
  assumes "c \<le> d"
  shows "factor (cat, d) \<le> factor (cat, c)"
proof -
  have "(of_int (weight_of cat * c) :: rat) \<le> of_int (weight_of cat * d)"
    using mult_left_mono [OF assms weight_bounds(1)] by (simp only: of_int_le_iff)
  then have "catScore (cat, c) \<le> catScore (cat, d)"
    unfolding catScore_def fst_conv snd_conv by (intro f64.fl_mono divide_right_mono) simp_all
  then have "fl64 (catScore (cat, c) / 100) \<le> fl64 (catScore (cat, d) / 100)"
    by (intro f64.fl_mono divide_right_mono) simp_all
  then show ?thesis unfolding factor_def by (intro f64.fl_mono) simp
qed

text \<open>An iteration that meets the same categories in the same order, with at least the same confidences,
  and others in between, computes at most the same product.\<close>

lemma product_embedded:
  assumes "list_emb (\<lambda>p q. fst p = fst q \<and> snd p \<le> snd q) xs ys" and "list_all entry_ok xs" "list_all entry_ok ys"
    and "0 \<le> b" "b \<le> a" "a \<le> 1" "b \<in> binary64"
  shows "foldl (\<lambda>product p. fl64 (product * factor p)) b ys \<le> foldl (\<lambda>product p. fl64 (product * factor p)) a xs"
  using assms
proof (induction xs ys arbitrary: a b rule: list_emb.induct)
  case (list_emb_Nil ys)
  then show ?case
  proof (induction ys arbitrary: b)
    case (Cons q ys)
    obtain cat c where q: "q = (cat, c)" "0 \<le> c" "c \<le> 100" using Cons.prems(2) by (cases q) auto
    have f: "0 \<le> factor q" "factor q \<le> 1" using factor_unit [OF q(2,3)] by (simp_all add: q(1))
    have "fl64 (b * factor q) \<le> b" using f Cons.prems by (intro f64.fl_le) (auto intro: mult_left_le)
    moreover have "0 \<le> fl64 (b * factor q)" using f Cons.prems by (intro f64.fl_ge binary64_consts) auto
    ultimately show ?case
      using Cons.IH [of "fl64 (b * factor q)"] Cons.prems by (simp add: fl64_binary64)
  qed simp
next
  case (list_emb_Cons xs ys q)
  obtain cat c where q: "q = (cat, c)" "0 \<le> c" "c \<le> 100" using list_emb_Cons.prems(2) by (cases q) auto
  have f: "0 \<le> factor q" "factor q \<le> 1" using factor_unit [OF q(2,3)] by (simp_all add: q(1))
  have "fl64 (b * factor q) \<le> b" using f list_emb_Cons.prems by (intro f64.fl_le) (auto intro: mult_left_le)
  moreover have "0 \<le> fl64 (b * factor q)" using f list_emb_Cons.prems by (intro f64.fl_ge binary64_consts) auto
  ultimately show ?case
    using list_emb_Cons.IH [of "fl64 (b * factor q)" a] list_emb_Cons.prems by (simp add: fl64_binary64)
next
  case (list_emb_Cons2 p q xs ys)
  obtain cat c d where pq: "p = (cat, c)" "q = (cat, d)" "c \<le> d" using list_emb_Cons2.hyps(1) by (cases p; cases q) auto
  have ok: "0 \<le> c" "c \<le> 100" "0 \<le> d" "d \<le> 100" using list_emb_Cons2.prems(1,2) by (simp_all add: pq)
  have f: "0 \<le> factor q" "factor q \<le> factor p" "factor p \<le> 1" "0 \<le> factor p"
    using factor_unit [OF ok(1,2)] factor_unit [OF ok(3,4)] factor_mono [OF pq(3)] by (simp_all add: pq(1,2))
  have a: "0 \<le> a * factor p" "a * factor p \<le> 1" using f list_emb_Cons2.prems by (auto intro: mult_le_one)
  have "b * factor q \<le> a * factor p" using f list_emb_Cons2.prems by (intro mult_mono) auto
  then have "fl64 (b * factor q) \<le> fl64 (a * factor p)" by (rule f64.fl_mono)
  moreover have "0 \<le> fl64 (b * factor q)" using f list_emb_Cons2.prems by (intro f64.fl_ge binary64_consts) auto
  ultimately show ?case
    using list_emb_Cons2.IH [of "fl64 (b * factor q)" "fl64 (a * factor p)"] fl64_unit [OF a] list_emb_Cons2.prems
    by (simp add: fl64_binary64)
qed

lemma best_conf_mono: "set ev \<subseteq> set ev' \<Longrightarrow> best_conf ev cat \<le> best_conf ev' cat"
proof -
  let ?f = "\<lambda>ev. foldr (\<lambda>e m. if evidence_category e = cat then max (clamp_confidence (ev_Confidence e)) m else m) ev 0"
  have pos: "0 \<le> ?f ev" for ev by (induction ev) auto
  have le: "e \<in> set ev \<Longrightarrow> evidence_category e = cat \<Longrightarrow> clamp_confidence (ev_Confidence e) \<le> ?f ev" for e ev
    by (induction ev) auto
  have "set ev \<subseteq> set ev' \<Longrightarrow> ?f ev \<le> ?f ev'"
    using pos le by (induction ev) auto
  then show "set ev \<subseteq> set ev' \<Longrightarrow> best_conf ev cat \<le> best_conf ev' cat" by (simp add: best_conf_def)
qed

lemma noisy_or_mono:
  assumes "set ev \<subseteq> set ev'"
  shows "noisy_or ev' \<le> noisy_or ev"
proof -
  have "exact_factor (cat, best_conf ev' cat) \<le> exact_factor (cat, best_conf ev cat)" for cat
    using mult_left_mono [OF best_conf_mono [OF assms] weight_bounds(1), of cat]
    by (simp add: exact_factor_def divide_right_mono flip: of_int_mult)
  then show ?thesis
    unfolding noisy_or_def using exact_factor_bounds best_conf_bounds by (intro prod_mono) auto
qed

lemma list_emb_mono_strong:
  assumes "list_emb P xs ys" and "\<And>x y. x \<in> set xs \<Longrightarrow> y \<in> set ys \<Longrightarrow> P x y \<Longrightarrow> Q x y"
  shows "list_emb Q xs ys"
  using assms by (induction rule: list_emb.induct) auto

text \<open>With the same relative order of the categories, more evidence never lowers the score.\<close>

lemma total_score_embedded:
  assumes "list_emb (\<lambda>p q. fst p = fst q) (shuffle (max_conf ev)) (shuffle' (max_conf ev'))" and "set ev \<subseteq> set ev'"
    and "\<And>xs. mset (shuffle xs) = mset xs" and "\<And>xs. mset (shuffle' xs) = mset xs"
  shows "total_score (filter counts (shuffle (max_conf ev))) \<le> total_score (filter counts (shuffle' (max_conf ev')))"
proof -
  let ?xs = "shuffle (max_conf ev)" and ?ys = "shuffle' (max_conf ev')"
  have x: "set ?xs = set (max_conf ev)" and y: "set ?ys = set (max_conf ev')"
    using assms(3,4) by (metis set_mset_mset)+
  have "list_emb (\<lambda>p q. fst p = fst q \<and> snd p \<le> snd q \<and> 0 < snd p) ?xs ?ys"
    using assms(1)
  proof (rule list_emb_mono_strong)
    fix p q assume m: "p \<in> set ?xs" "q \<in> set ?ys" and same: "fst p = fst q"
    have "(fst p, snd p) \<in> set (max_conf ev)" "(fst q, snd q) \<in> set (max_conf ev')" using m unfolding x y by simp_all
    then show "fst p = fst q \<and> snd p \<le> snd q \<and> 0 < snd p"
      using best_conf_mono [OF assms(2), of "fst p"] same unfolding max_conf_set by simp
  qed
  then have "list_emb (\<lambda>p q. fst p = fst q \<and> snd p \<le> snd q) (filter counts ?xs) (filter counts ?ys)"
    by (induction rule: list_emb.induct) (auto simp: counts_def)
  moreover have "list_all entry_ok (filter counts ?xs)" "list_all entry_ok (filter counts ?ys)"
    using max_conf_entry_ok [of ev] max_conf_entry_ok [of ev'] x y by (auto simp: list_all_iff)
  ultimately have le: "product_of (filter counts ?ys) \<le> product_of (filter counts ?xs)"
    unfolding product_of_def by (intro product_embedded binary64_consts) simp_all
  have "product_of (filter counts ?xs) \<le> 1"
    using product_error [of "filter counts ?xs" 1 1] \<open>list_all entry_ok (filter counts ?xs)\<close> by (simp add: product_of_def)
  then have "0 \<le> fl64 (1 - product_of (filter counts ?xs))" by (intro f64.fl_ge binary64_consts) simp
  then have "0 \<le> fl64 (100 * fl64 (1 - product_of (filter counts ?xs)))" by (intro f64.fl_ge binary64_consts) simp
  moreover have "fl64 (100 * fl64 (1 - product_of (filter counts ?xs))) \<le> fl64 (100 * fl64 (1 - product_of (filter counts ?ys)))"
    using f64.fl_mono [of "1 - product_of (filter counts ?xs)" "1 - product_of (filter counts ?ys)"] le
    by (intro f64.fl_mono) simp
  ultimately show ?thesis unfolding total_score_def by (rule math_Round_mono)
qed

section \<open>The verdict\<close>

lemma sorted_categories_set:
  "c \<in> set (sorted_categories ev) \<longleftrightarrow>
     (\<exists>cat. 0 < best_conf ev cat \<and> weight_of cat \<noteq> 0 \<and> c = category_score (cat, best_conf ev cat))"
proof -
  have "c \<in> set (sorted_categories ev) \<longleftrightarrow> (\<exists>cat d. (cat, d) \<in> set (used_entries ev) \<and> c = category_score (cat, d))"
    by (auto simp: sorted_categories_def image_iff)
  then show ?thesis unfolding used_entries_set by auto
qed

lemma sorted_categories_sorted: "sorted (map sort_key_of (sorted_categories ev))"
  by (simp add: sorted_categories_def)

lemma hd_sorted_categories:
  assumes "c \<in> set (sorted_categories ev)"
  shows "sort_key_of (hd (sorted_categories ev)) \<le> sort_key_of c"
  using assms sorted_categories_sorted [of ev] by (cases "sorted_categories ev") auto

lemma find_first_rank:
  assumes "a \<in> set cs" and "P a" and "\<And>c. P c \<Longrightarrow> rank_from cs a \<le> rank_from cs c"
  shows "find P cs = Some a"
  using assms
proof (induction cs)
  case (Cons c cs)
  show ?case
  proof (cases "c = a")
    case False
    then have "\<not> P c" using Cons.prems(3) [of c] by auto
    moreover have "rank_from cs a \<le> rank_from cs d" if "P d" for d
      using Cons.prems(3) [OF that] False that \<open>\<not> P c\<close> by (auto split: if_splits)
    ultimately show ?thesis using Cons False by simp
  qed (use Cons.prems in simp)
qed simp

text \<open>A category's score: its best confidence, weighted and rounded.\<close>

definition score_of :: "Evidence list \<Rightarrow> string \<Rightarrow> int" where
  "score_of ev cat = (weight_of cat * best_conf ev cat + 50) div 100"

lemma category_score_of: "category_score (cat, best_conf ev cat) =
   \<lparr>cs_Category = cat, cs_Confidence = best_conf ev cat, cs_Score = score_of ev cat\<rparr>"
  using category_score_Score [OF best_conf_bounds, of cat ev cat] by (simp add: category_score_def score_of_def)

lemma score_of_nonneg: "0 \<le> score_of ev cat"
  using weighted_bounds(1) [OF best_conf_bounds, of cat ev cat] by (simp add: score_of_def pos_imp_zdiv_nonneg_iff)

lemma best_conf_pos:
  assumes "e \<in> set ev" "evidence_category e = cat" "0 < ev_Confidence e" "map_of categoryWeights cat \<noteq> None"
  shows "0 < best_conf ev cat"
proof -
  have "0 < foldr (\<lambda>e m. if evidence_category e = cat then max (clamp_confidence (ev_Confidence e)) m else m) ev 0"
    using assms(1-3) by (induction ev) (auto simp: clamp_confidence_def Let_def less_max_iff_disj)
  then show ?thesis using assms(4) by (simp add: best_conf_def)
qed

lemma best_conf_witness:
  assumes "0 < best_conf ev cat"
  shows "\<exists>e\<in>set ev. evidence_category e = cat \<and> 0 < ev_Confidence e"
proof -
  have "0 < foldr (\<lambda>e m. if evidence_category e = cat then max (clamp_confidence (ev_Confidence e)) m else m) ev 0"
    using assms by (simp add: best_conf_def split: if_splits)
  then show ?thesis
    by (induction ev) (auto simp: clamp_confidence_def Let_def less_max_iff_disj split: if_splits)
qed

lemma verdict_counts:
  assumes "\<And>xs. mset (shuffle xs) = mset xs" and "0 < best_conf evidence cat" and "weight_of cat \<noteq> 0"
  shows "0 < best_conf evidence (fst (snd (scoreEvidence shuffle evidence)))
    \<and> weight_of (fst (snd (scoreEvidence shuffle evidence))) \<noteq> 0"
proof -
  have "category_score (cat, best_conf evidence cat) \<in> set (sorted_categories evidence)"
    using assms(2,3) by (auto simp: sorted_categories_set)
  then have "sorted_categories evidence \<noteq> []" by auto
  moreover from this have "hd (sorted_categories evidence) \<in> set (sorted_categories evidence)" by simp
  ultimately show ?thesis by (auto simp: scoreEvidence_eq [OF assms(1)] sorted_categories_set category_score_def)
qed

section \<open>Properties\<close>

text \<open>C31: The verdict, and the list of categories it heads. Every category that some evidence gives a
  confidence, and that has a weight, is listed with its best confidence and its score, the weighted
  confidence rounded to a full percent. The verdict is the category with the highest score; of several
  with that score it is the first in the order that is spelled out here. Without any it is \<open>unknown\<close>.
  None of this depends on the order in which the map of confidences is iterated over.\<close>

theorem scoreEvidence_verdict:
  assumes "\<And>xs. mset (shuffle xs) = mset xs"
    and "snd (scoreEvidence shuffle evidence) = (verdict, categories)"
  shows "set categories = {\<lparr>cs_Category = cat, cs_Confidence = best_conf evidence cat,
         cs_Score = (weight_of cat * best_conf evidence cat + 50) div 100\<rparr> |cat. 0 < best_conf evidence cat \<and> weight_of cat \<noteq> 0}
     \<and> verdict = (case find (\<lambda>cat. 0 < best_conf evidence cat \<and> weight_of cat \<noteq> 0
           \<and> (\<forall>cat'. (weight_of cat' * best_conf evidence cat' + 50) div 100
                \<le> (weight_of cat * best_conf evidence cat + 50) div 100))
         [''tor'', ''residential_proxy'', ''vpn'', ''vpn_candidate'', ''proxy'', ''relay'', ''hosting'', ''enterprise_gateway'',
          ''cdn'', ''business'', ''mobile'', ''education'', ''government'', ''residential_isp'', ''unknown''] of
         Some cat \<Rightarrow> cat | None \<Rightarrow> ''unknown'')"
proof -
  have v: "verdict = (if sorted_categories evidence \<noteq> [] then cs_Category (hd (sorted_categories evidence)) else ''unknown'')"
    and c: "categories = sorted_categories evidence"
    using assms(2) by (auto simp: scoreEvidence_eq [OF assms(1)])
  let ?used = "\<lambda>cat. 0 < best_conf evidence cat \<and> weight_of cat \<noteq> 0"
  let ?best = "\<lambda>cat. 0 < best_conf evidence cat \<and> weight_of cat \<noteq> 0 \<and> (\<forall>cat'. score_of evidence cat' \<le> score_of evidence cat)"
  have "verdict = (case find ?best categoryOrder of Some cat \<Rightarrow> cat | None \<Rightarrow> ''unknown'')"
  proof (cases "sorted_categories evidence = []")
    case True
    then have "find ?best categoryOrder = None"
      using sorted_categories_set [of _ evidence] by (fastforce simp: find_None_iff)
    then show ?thesis using True by (simp add: v)
  next
    case False
    then obtain a where a: "?used a" "hd (sorted_categories evidence) = category_score (a, best_conf evidence a)"
      using sorted_categories_set [of "hd (sorted_categories evidence)" evidence] by auto
    have le: "score_of evidence cat \<le> score_of evidence a
        \<and> (score_of evidence cat = score_of evidence a \<longrightarrow> categoryRank a \<le> categoryRank cat)" if "?used cat" for cat
    proof -
      have "category_score (cat, best_conf evidence cat) \<in> set (sorted_categories evidence)"
        using that by (auto simp: sorted_categories_set)
      from hd_sorted_categories [OF this] show ?thesis
        by (auto simp: a(2) category_score_of sort_key_of_def less_eq_prod_def)
    qed
    have "score_of evidence cat \<le> score_of evidence a" for cat
    proof (cases "?used cat")
      case False
      then have "weight_of cat * best_conf evidence cat = 0" using best_conf_bounds(1) [of evidence cat] by auto
      then have "score_of evidence cat = 0" by (simp add: score_of_def del: mult_eq_0_iff)
      then show ?thesis using score_of_nonneg by simp
    qed (use le in blast)
    then have "?best a" using a(1) by blast
    moreover have "rank_from categoryOrder a \<le> rank_from categoryOrder d" if "?best d" for d
      using le [of d] that \<open>?best a\<close> by (auto simp: categoryRank_def order.antisym)
    ultimately have "find ?best categoryOrder = Some a" using a(1) by (intro find_first_rank weighty_in_order) auto
    then show ?thesis using False a(2) by (simp add: v category_score_of)
  qed
  moreover have "set categories = {\<lparr>cs_Category = cat, cs_Confidence = best_conf evidence cat,
      cs_Score = score_of evidence cat\<rparr> |cat. ?used cat}"
    unfolding c by (auto simp: sorted_categories_set category_score_of)
  ultimately show ?thesis unfolding score_of_def categoryOrder_def by blast
qed

text \<open>A tie: Tor at 45 percent and hosting at 100 percent both score 45.\<close>

abbreviation evidence_for :: "string \<Rightarrow> int \<Rightarrow> Evidence" where
  "evidence_for cat c \<equiv> \<lparr>ev_Source = ''a'', ev_Category = cat, ev_Confidence = c, ev_Matched = True, ev_Detail = []\<rparr>"

theorem scoreEvidence_verdict_witness:
  "fst (snd (scoreEvidence rev [evidence_for ''hosting'' 100, evidence_for ''tor'' 45])) = ''tor''"
proof -
  let ?ev = "[evidence_for ''hosting'' 100, evidence_for ''tor'' 45]"
  have b: "best_conf ?ev cat = (if cat = ''tor'' then 45 else if cat = ''hosting'' then 100 else 0)" for cat
    by (simp add: best_conf_def clamp_confidence_def evidence_category_def categoryWeights_def)
  have w: "weight_of ''tor'' = 100" "weight_of ''hosting'' = 45" by (simp_all add: weight_of_def categoryWeights_def)
  obtain v cs where s: "snd (scoreEvidence rev ?ev) = (v, cs)" by (cases "snd (scoreEvidence rev ?ev)")
  have "(weight_of cat * best_conf ?ev cat + 50) div 100 \<le> 45" for cat by (simp add: b w)
  then have "v = ''tor''" using scoreEvidence_verdict [OF _ s] by (simp add: b w)
  then show ?thesis by (simp add: s)
qed

text \<open>The roundings that matter for three categories at 25 percent. In one order the score comes out just
  below 50.5, in the other at 50.5.\<close>

definition three_proxies :: "Evidence list" where
  "three_proxies = [evidence_for ''tor'' 25, evidence_for ''vpn'' 25, evidence_for ''proxy'' 25]"

lemma three_proxies_entries: "max_conf three_proxies = [(''tor'', 25), (''vpn'', 25), (''proxy'', 25)]"
  by (simp add: max_conf_def three_proxies_def max_conf_step_def evidence_category_def categoryWeights_def
      clamp_confidence_def conf_lookup_def)

lemma three_proxies_factors:
  "factor (''tor'', 25) = 3 / 4"
  "factor (''vpn'', 25) = 3602879701896397 / 4503599627370496"
  "factor (''proxy'', 25) = 3715469692580659 / 4503599627370496"
proof -
  have w: "weight_of ''tor'' = 100" "weight_of ''vpn'' = 80" "weight_of ''proxy'' = 70"
    by (simp_all add: weight_of_def categoryWeights_def)
  have e1: "fl64 (25) = 25"
    by (subst fl64_eval [where k = 48]) (simp_all add: round_even_def Let_def floor_numeral_quotient)
  have e2: "fl64 (1 / 4) = 1 / 4"
    by (subst fl64_eval [where k = 54]) (simp_all add: round_even_def Let_def floor_numeral_quotient)
  have e3: "fl64 (3 / 4) = 3 / 4"
    by (subst fl64_eval [where k = 53]) (simp_all add: round_even_def Let_def floor_numeral_quotient)
  have e4: "fl64 (20) = 20"
    by (subst fl64_eval [where k = 48]) (simp_all add: round_even_def Let_def floor_numeral_quotient)
  have e5: "fl64 (1 / 5) = 3602879701896397 / 18014398509481984"
    by (subst fl64_eval [where k = 55]) (simp_all add: round_even_def Let_def floor_numeral_quotient)
  have e6: "fl64 (14411518807585587 / 18014398509481984) = 3602879701896397 / 4503599627370496"
    by (subst fl64_eval [where k = 53]) (simp_all add: round_even_def Let_def floor_numeral_quotient)
  have e7: "fl64 (35 / 2) = 35 / 2"
    by (subst fl64_eval [where k = 48]) (simp_all add: round_even_def Let_def floor_numeral_quotient)
  have e8: "fl64 (7 / 40) = 3152519739159347 / 18014398509481984"
    by (subst fl64_eval [where k = 55]) (simp_all add: round_even_def Let_def floor_numeral_quotient)
  have e9: "fl64 (14861878770322637 / 18014398509481984) = 3715469692580659 / 4503599627370496"
    by (subst fl64_eval [where k = 53]) (simp_all add: round_even_def Let_def floor_numeral_quotient)
  note e = e1 e2 e3 e4 e5 e6 e7 e8 e9
  show "factor (''tor'', 25) = 3 / 4"
    "factor (''vpn'', 25) = 3602879701896397 / 4503599627370496"
    "factor (''proxy'', 25) = 3715469692580659 / 4503599627370496"
    by (simp_all add: factor_def catScore_eq w e)
qed

lemma three_proxies_scores:
  "total_score [(''tor'', 25), (''vpn'', 25), (''proxy'', 25)] = 50"
  "total_score [(''proxy'', 25), (''vpn'', 25), (''tor'', 25)] = 51"
proof -
  have e1: "fl64 (3 / 4) = 3 / 4"
    by (subst fl64_eval [where k = 53]) (simp_all add: round_even_def Let_def floor_numeral_quotient)
  have e2: "fl64 (10808639105689191 / 18014398509481984) = 1351079888211149 / 2251799813685248"
    by (subst fl64_eval [where k = 53]) (simp_all add: round_even_def Let_def floor_numeral_quotient)
  have e3: "fl64 (5019896376903788902804905567191 / 10141204801825835211973625643008) = 8917127262193583 / 18014398509481984"
    by (subst fl64_eval [where k = 54]) (simp_all add: round_even_def Let_def floor_numeral_quotient)
  have e4: "fl64 (9097271247288401 / 18014398509481984) = 568579452955525 / 1125899906842624"
    by (subst fl64_eval [where k = 53]) (simp_all add: round_even_def Let_def floor_numeral_quotient)
  have e5: "fl64 (14214486323888125 / 281474976710656) = 3553621580972031 / 70368744177664"
    by (subst fl64_eval [where k = 47]) (simp_all add: round_even_def Let_def floor_numeral_quotient)
  have e6: "fl64 (3715469692580659 / 4503599627370496) = 3715469692580659 / 4503599627370496"
    by (subst fl64_eval [where k = 53]) (simp_all add: round_even_def Let_def floor_numeral_quotient)
  have e7: "fl64 (13386390338410102502323183985623 / 20282409603651670423947251286016) = 5944751508129055 / 9007199254740992"
    by (subst fl64_eval [where k = 53]) (simp_all add: round_even_def Let_def floor_numeral_quotient)
  have e8: "fl64 (17834254524387165 / 36028797018963968) = 4458563631096791 / 9007199254740992"
    by (subst fl64_eval [where k = 54]) (simp_all add: round_even_def Let_def floor_numeral_quotient)
  have e9: "fl64 (4548635623644201 / 9007199254740992) = 4548635623644201 / 9007199254740992"
    by (subst fl64_eval [where k = 53]) (simp_all add: round_even_def Let_def floor_numeral_quotient)
  have e10: "fl64 (113715890591105025 / 2251799813685248) = 101 / 2"
    by (subst fl64_eval [where k = 47]) (simp_all add: round_even_def Let_def floor_numeral_quotient)
  note e = e1 e2 e3 e4 e5 e6 e7 e8 e9 e10
  show "total_score [(''tor'', 25), (''vpn'', 25), (''proxy'', 25)] = 50"
    "total_score [(''proxy'', 25), (''vpn'', 25), (''tor'', 25)] = 51"
    by (simp_all add: total_score_def product_of_def three_proxies_factors e math_Round_def floor_numeral_quotient)
qed

text \<open>C30: The order in which the runtime iterates over the map of confidences, which Go leaves open, has
  no influence on the verdict or the list of categories, and hardly any on the score: in every order
  the score is the exact noisy-or of the weighted best confidences in percent, rounded, where the
  floating-point errors can only matter within 2 to the -40 of a half. So two orders give scores
  at most one point apart. One point apart they can be: the same evidence scores 50 or 51.\<close>

theorem scoreEvidence_order:
  assumes "\<And>xs. mset (shuffle xs) = mset xs" and "\<And>xs. mset (shuffle' xs) = mset xs"
  shows "snd (scoreEvidence shuffle evidence) = snd (scoreEvidence shuffle' evidence)
     \<and> \<bar>of_int (fst (scoreEvidence shuffle evidence))
          - 100 * (1 - (\<Prod>cat\<in>set (map fst categoryWeights). 1 - of_int (weight_of cat * best_conf evidence cat) / 10000))\<bar>
        \<le> (1 / 2 + 1 / 2 ^ 40 :: rat)
     \<and> \<bar>fst (scoreEvidence shuffle evidence) - fst (scoreEvidence shuffle' evidence)\<bar> \<le> 1
     \<and> fst (scoreEvidence (\<lambda>xs. xs) three_proxies) = 50 \<and> fst (scoreEvidence rev three_proxies) = 51"
proof (intro conjI)
  show "snd (scoreEvidence shuffle evidence) = snd (scoreEvidence shuffle' evidence)"
    by (simp add: scoreEvidence_eq [OF assms(1)] scoreEvidence_eq [OF assms(2)])
  have s: "\<bar>of_int (fst (scoreEvidence sh evidence)) - 100 * (1 - noisy_or evidence)\<bar> \<le> 1 / 2 + 1 / 2 ^ 40"
    if "\<And>xs. mset (sh xs) = mset xs" for sh
    unfolding score_total(1) [OF that] by (rule total_score_exact(3) [OF score_total(2) [OF that]])
  show "\<bar>of_int (fst (scoreEvidence shuffle evidence))
          - 100 * (1 - (\<Prod>cat\<in>set (map fst categoryWeights). 1 - of_int (weight_of cat * best_conf evidence cat) / 10000))\<bar>
        \<le> (1 / 2 + 1 / 2 ^ 40 :: rat)"
    using s [OF assms(1)] by (simp only: noisy_or_def exact_factor_def fst_conv snd_conv)
  show "\<bar>fst (scoreEvidence shuffle evidence) - fst (scoreEvidence shuffle' evidence)\<bar> \<le> 1"
    by (rule near_same [OF s [OF assms(1)] s [OF assms(2)]])
  show "fst (scoreEvidence (\<lambda>xs. xs) three_proxies) = 50" "fst (scoreEvidence rev three_proxies) = 51"
    by (simp_all add: score_total three_proxies_entries counts_def three_proxies_scores weight_of_def categoryWeights_def)
qed

theorem scoreEvidence_order_witness:
  "\<bar>fst (scoreEvidence rev [evidence_for ''vpn'' 50, evidence_for ''tor'' 90])
    - fst (scoreEvidence (\<lambda>xs. xs) [evidence_for ''vpn'' 50, evidence_for ''tor'' 90])\<bar> \<le> 1"
  using scoreEvidence_order [of rev "\<lambda>xs. xs" "[evidence_for ''vpn'' 50, evidence_for ''tor'' 90]"] by simp

text \<open>C32: The score lies between 0 and 100, and further evidence lowers it by at most one point, whatever
  the orders of iteration are. It does not lower it at all when the runtime iterates over the
  categories of the lesser evidence in the same relative order both times.\<close>

theorem scoreEvidence_monotone:
  assumes "\<And>xs. mset (shuffle xs) = mset xs" and "\<And>xs. mset (shuffle' xs) = mset xs" and "set evidence \<subseteq> set evidence'"
  shows "0 \<le> fst (scoreEvidence shuffle evidence) \<and> fst (scoreEvidence shuffle' evidence') \<le> 100
    \<and> fst (scoreEvidence shuffle evidence) \<le> fst (scoreEvidence shuffle' evidence') + 1
    \<and> (if list_emb (\<lambda>p q. fst p = fst q) (shuffle (max_conf evidence)) (shuffle' (max_conf evidence'))
       then fst (scoreEvidence shuffle evidence) \<le> fst (scoreEvidence shuffle' evidence') else True)"
proof -
  note t = score_total(1) [OF assms(1)] score_total(1) [OF assms(2)]
  note x = total_score_exact [OF score_total(2) [OF assms(1)], of evidence]
  note y = total_score_exact [OF score_total(2) [OF assms(2)], of evidence']
  have "fst (scoreEvidence shuffle evidence) \<le> fst (scoreEvidence shuffle' evidence') + 1"
    unfolding t by (rule near_le [OF x(3) y(3)]) (use noisy_or_mono [OF assms(3)] in simp)
  then show ?thesis using x(1) y(2) total_score_embedded [OF _ assms(3,1,2)] unfolding t by simp
qed

theorem scoreEvidence_monotone_witness:
  "fst (scoreEvidence (\<lambda>xs. xs) [evidence_for ''vpn'' 50])
    \<le> fst (scoreEvidence (\<lambda>xs. xs) [evidence_for ''vpn'' 50, evidence_for ''tor'' 90])"
proof -
  have "list_emb (\<lambda>p q. fst p = fst q) (max_conf [evidence_for ''vpn'' 50])
      (max_conf [evidence_for ''vpn'' 50, evidence_for ''tor'' 90])"
    by (simp add: max_conf_def max_conf_step_def evidence_category_def categoryWeights_def clamp_confidence_def conf_lookup_def)
  then show ?thesis
    using scoreEvidence_monotone [of "\<lambda>xs. xs" "\<lambda>xs. xs" "[evidence_for ''vpn'' 50]"
        "[evidence_for ''vpn'' 50, evidence_for ''tor'' 90]"] by simp
qed

end
