(* ===== verification/Ipintel_Lookup.thy ===== *)
theory Ipintel_Lookup
  imports Ipintel_Format Ipintel_Score "HOL-Library.Char_ord"
begin

text \<open>
  The lookup of an address in the IP-intelligence database, \<^verbatim>\<open>src/ipintelbin/db.go\<close>.

  The locals of \<open>Lookup\<close> that its loops change are the record \<open>lookup_state\<close>. The lemmas show
  that skipping blocks by the index loses nothing, and that the answer is that of the declarative
  \<open>answer_of\<close> on the records that contain the address.
\<close>

section \<open>Evidence\<close>

definition sourceName :: "DB \<Rightarrow> 16 word \<Rightarrow> string" where
  "sourceName db sid =
     (if unat sid < length (man_Sources (db_manifest db)) then sm_Name (man_Sources (db_manifest db) ! unat sid)
      else ''source-'' @ Itoa (ucast sid))"

text \<open>\<open>rawJSON\<close>, given the outcome of \<open>json.Marshal\<close>.\<close>

definition rawJSON :: "string option \<Rightarrow> string" where
  "rawJSON marshalled = (case marshalled of None \<Rightarrow> ''{}'' | Some b \<Rightarrow> b)"

definition rawDetail :: "string \<Rightarrow> string" where
  "rawDetail s = (if s = [] then [] else if json_parse s \<noteq> None then s else rawJSON (Some (json_quote s)))"

definition evidenceKey :: "Evidence \<Rightarrow> string" where
  "evidenceKey e = ev_Source e @ ''|'' @ ev_Category e @ ''|'' @ Itoa (word_of_int (ev_Confidence e))
     @ ''|'' @ ev_Detail e"

definition evidence_of :: "DB \<Rightarrow> Record \<Rightarrow> Evidence" where
  "evidence_of db r = \<lparr>ev_Source = sourceName db (rec_SourceID r), ev_Category = rec_Category r,
     ev_Confidence = uint (rec_Confidence r), ev_Matched = True, ev_Detail = rawDetail (rec_Detail r)\<rparr>"

section \<open>Scanning\<close>

record lookup_state =
  ls_evidence :: "Evidence list"
  ls_seen :: "string set"
  ls_matched :: "string set"
  ls_country :: string
  ls_asn :: "32 word"
  ls_org :: string
  ls_rank :: nat

definition lookup_start :: lookup_state where
  "lookup_start = \<lparr>ls_evidence = [], ls_seen = {}, ls_matched = {}, ls_country = [], ls_asn = 0,
     ls_org = [], ls_rank = 0\<rparr>"

definition add_evidence :: "Evidence \<Rightarrow> lookup_state \<Rightarrow> lookup_state" where
  "add_evidence ev st =
     (if evidenceKey ev \<in> ls_seen st then st
      else st\<lparr>ls_seen := insert (evidenceKey ev) (ls_seen st), ls_evidence := ls_evidence st @ [ev]\<rparr>)"

definition note_country :: "Record \<Rightarrow> lookup_state \<Rightarrow> lookup_state" where
  "note_country r st = (if ls_country st = [] \<and> rec_Country r \<noteq> [] then st\<lparr>ls_country := rec_Country r\<rparr> else st)"

definition asn_rank :: "string \<Rightarrow> Record \<Rightarrow> nat" where
  "asn_rank source r = (if source = ''openasn'' then (if weight_of (rec_Category r) > 0 then 3 else 2) else 1)"

definition note_asn :: "string \<Rightarrow> Record \<Rightarrow> lookup_state \<Rightarrow> lookup_state" where
  "note_asn source r st =
     (if rec_ASN r \<noteq> 0 \<and> asn_rank source r > ls_rank st
      then st\<lparr>ls_asn := rec_ASN r, ls_org := rec_Org r, ls_rank := asn_rank source r\<rparr> else st)"

definition in_range :: "byte \<Rightarrow> bytes \<Rightarrow> Record \<Rightarrow> bool" where
  "in_range family key r \<longleftrightarrow> rec_Family r = family \<and> \<not> (key < rec_Start r \<or> rec_End r < key)"

text \<open>The body of the loop over a block's records.\<close>

definition match_record :: "DB \<Rightarrow> byte \<Rightarrow> bytes \<Rightarrow> lookup_state \<Rightarrow> Record \<Rightarrow> lookup_state" where
  "match_record db family key st r =
     (if \<not> in_range family key r then st
      else
        let source = sourceName db (rec_SourceID r);
            st = add_evidence (evidence_of db r) st;
            st = st\<lparr>ls_matched := insert source (ls_matched st)\<rparr>
        in note_asn source r (note_country r st))"

definition block_may_contain :: "byte \<Rightarrow> bytes \<Rightarrow> runtimeBlock \<Rightarrow> bool" where
  "block_may_contain family key b \<longleftrightarrow>
     \<not> (rb_family b \<noteq> family) \<and> \<not> (key < rb_first b) \<and> \<not> (rb_max b < key)"

fun scan_blocks ::
  "(bytes \<Rightarrow> bytes option) \<Rightarrow> DB \<Rightarrow> byte \<Rightarrow> bytes \<Rightarrow> runtimeBlock list \<Rightarrow> lookup_state
   \<Rightarrow> db_err + lookup_state" where
  "scan_blocks zstd db family key [] st = Inr st"
| "scan_blocks zstd db family key (b # bs) st =
     (if \<not> block_may_contain family key b then scan_blocks zstd db family key bs st
      else case readBlock zstd db b of
        Inl e \<Rightarrow> Inl e
      | Inr records \<Rightarrow> scan_blocks zstd db family key bs (foldl (match_record db family key) st records))"

section \<open>The result\<close>

definition bad_asn_evidence :: "32 word \<Rightarrow> string \<Rightarrow> Evidence" where
  "bad_asn_evidence asn entity = \<lparr>ev_Source = ''bad-asn-list'', ev_Category = ''hosting'', ev_Confidence = 60,
     ev_Matched = True,
     ev_Detail = rawJSON (Some (json_object [(''asn'', FormatUint (ucast asn)), (''entity'', json_quote entity)]))\<rparr>"

definition check_bad_asn :: "DB \<Rightarrow> lookup_state \<Rightarrow> lookup_state" where
  "check_bad_asn db st =
     (if ls_asn st \<noteq> 0 then
        (case man_ASNs (db_manifest db) (ls_asn st) of
           Some entity \<Rightarrow>
             (let st = add_evidence (bad_asn_evidence (ls_asn st) entity) st
              in st\<lparr>ls_matched := insert ''bad-asn-list'' (ls_matched st)\<rparr>)
         | None \<Rightarrow> st)
      else st)"

definition no_match_evidence :: "DB \<Rightarrow> lookup_state \<Rightarrow> Evidence list" where
  "no_match_evidence db st =
     map (\<lambda>s. \<lparr>ev_Source = sm_Name s, ev_Category = [], ev_Confidence = 0, ev_Matched = False, ev_Detail = []\<rparr>)
       (filter (\<lambda>s. sm_Name s \<notin> ls_matched st \<and> \<not> (sm_Name s = ''bad-asn-list'' \<and> ls_asn st = 0))
          (man_Sources (db_manifest db)))"

record Result =
  res_IP :: string
  res_Country :: string
  res_ASN :: "32 word"
  res_Org :: string
  res_Score :: int
  res_Verdict :: string
  res_Categories :: "CategoryScore list"
  res_Evidence :: "Evidence list"
  res_BuiltAt :: string
  res_OpenASN :: string

definition lookup_result ::
  "((string \<times> int) list \<Rightarrow> (string \<times> int) list) \<Rightarrow> DB \<Rightarrow> addr \<Rightarrow> lookup_state \<Rightarrow> Result" where
  "lookup_result shuffle db a st =
     (let st = check_bad_asn db st;
          evidence = ls_evidence st @ no_match_evidence db st;
          evidence = sort_key (\<lambda>e. (ev_Source e, ev_Category e, - ev_Confidence e)) evidence;
          (score, verdict, categories) = scoreEvidence shuffle evidence
      in \<lparr>res_IP = Addr_String a, res_Country = ls_country st, res_ASN = ls_asn st, res_Org = ls_org st,
          res_Score = score, res_Verdict = verdict, res_Categories = categories, res_Evidence = evidence,
          res_BuiltAt = man_BuiltAt (db_manifest db), res_OpenASN = man_OpenASNBuild (db_manifest db)\<rparr>)"

definition Lookup ::
  "(bytes \<Rightarrow> bytes option) \<Rightarrow> ((string \<times> int) list \<Rightarrow> (string \<times> int) list) \<Rightarrow> DB \<Rightarrow> string
   \<Rightarrow> db_err + Result" where
  "Lookup zstd shuffle db ip =
     (case ParseAddr ip of
        None \<Rightarrow> Inl (ErrInvalidIP ip)
      | Some a \<Rightarrow>
          (let a = Unmap a; (family, key) = addrBytes a in
           case scan_blocks zstd db family key (db_blocks db) lookup_start of
             Inl e \<Rightarrow> Inl e
           | Inr st \<Rightarrow> Inr (lookup_result shuffle db a st)))"

fun read_all :: "(bytes \<Rightarrow> bytes option) \<Rightarrow> DB \<Rightarrow> runtimeBlock list \<Rightarrow> Record list \<Rightarrow> db_err + Record list" where
  "read_all zstd db [] out = Inr out"
| "read_all zstd db (b # bs) out =
     (case readBlock zstd db b of
        Inl e \<Rightarrow> Inl e
      | Inr records \<Rightarrow> read_all zstd db bs (out @ records))"

definition AllRecords :: "(bytes \<Rightarrow> bytes option) \<Rightarrow> DB \<Rightarrow> db_err + Record list" where
  "AllRecords zstd db = read_all zstd db (db_blocks db) []"

section \<open>The index\<close>

text \<open>A block's index entry covers its records: they have its family and lie within its bounds.\<close>

definition block_covers :: "runtimeBlock \<Rightarrow> Record list \<Rightarrow> bool" where
  "block_covers b records \<longleftrightarrow>
     list_all (\<lambda>r. rec_Family r = rb_family b \<and> rb_first b \<le> rec_Start r \<and> rec_End r \<le> rb_max b) records"

definition index_covers :: "(bytes \<Rightarrow> bytes option) \<Rightarrow> DB \<Rightarrow> bool" where
  "index_covers zstd db \<longleftrightarrow>
     list_all (\<lambda>b. case readBlock zstd db b of Inl e \<Rightarrow> True | Inr rs \<Rightarrow> block_covers b rs) (db_blocks db)"

text \<open>The interface of an index: a block that it lets a scan skip has no record that matters, and a record
  that does not matter leaves the scan where it is.\<close>

locale block_index =
  fixes covers :: "'b \<Rightarrow> 'r list \<Rightarrow> bool"
    and may :: "'b \<Rightarrow> bool"
    and hit :: "'r \<Rightarrow> bool"
    and visit :: "'s \<Rightarrow> 'r \<Rightarrow> 's"
  assumes skip: "covers b rs \<Longrightarrow> \<not> may b \<Longrightarrow> r \<in> set rs \<Longrightarrow> \<not> hit r"
    and miss: "\<not> hit r \<Longrightarrow> visit st r = st"
begin

lemma only_hits: "foldl visit st rs = foldl visit st (filter hit rs)"
  by (induction rs arbitrary: st) (simp_all add: miss)

lemma skipped_block: "covers b rs \<Longrightarrow> \<not> may b \<Longrightarrow> foldl visit st rs = st"
  using skip only_hits [of st rs] by (metis filter_False foldl_Nil)

end

interpretation ix: block_index block_covers "block_may_contain family key" "in_range family key"
  "match_record db family key" for family key db
proof
  show "\<not> in_range family key r" if "block_covers b rs" "\<not> block_may_contain family key b" "r \<in> set rs" for b rs r
    using that by (fastforce simp: block_covers_def list_all_iff block_may_contain_def in_range_def)
qed (simp add: match_record_def)

lemma read_all_acc:
  "read_all zstd db bs out = (case read_all zstd db bs [] of Inl e \<Rightarrow> Inl e | Inr rs \<Rightarrow> Inr (out @ rs))"
proof (induction bs arbitrary: out)
  case (Cons b bs)
  show ?case
  proof (cases "readBlock zstd db b")
    case (Inr rs)
    then show ?thesis using Cons [of "out @ rs"] Cons [of rs] by (simp split: sum.split)
  qed simp
qed simp

lemma scan_all:
  assumes "read_all zstd db bs [] = Inr rs"
    and "list_all (\<lambda>b. case readBlock zstd db b of Inl e \<Rightarrow> True | Inr rs \<Rightarrow> block_covers b rs) bs"
  shows "scan_blocks zstd db family key bs st = Inr (foldl (match_record db family key) st rs)"
  using assms
proof (induction bs arbitrary: st rs)
  case (Cons b bs)
  obtain r1 where r1: "readBlock zstd db b = Inr r1"
    using Cons.prems(1) by (auto split: sum.splits)
  obtain r2 where r2: "read_all zstd db bs [] = Inr r2" "rs = r1 @ r2"
    using Cons.prems(1) r1 read_all_acc [of zstd db bs r1] by (auto split: sum.splits)
  have c: "block_covers b r1" using Cons.prems(2) r1 by simp
  show ?case
    using Cons.IH [OF r2(1)] Cons.prems(2) r1 r2 ix.skipped_block [OF c] by auto
qed simp

section \<open>Duplicates\<close>

definition no_bar :: "string \<Rightarrow> bool" where
  "no_bar s \<longleftrightarrow> CHR ''|'' \<notin> set s"

lemma Itoa_no_bar: "no_bar (Itoa i)"
proof -
  have "CHR ''|'' \<notin> set (digits_of n)" for n
    using digits_of_digits [of n] by (auto simp: list_all_iff is_digit_def char_code_def)
  then show ?thesis by (simp add: Itoa_def no_bar_def)
qed

lemma sourceName_no_bar:
  "list_all (\<lambda>s. no_bar (sm_Name s)) (man_Sources (db_manifest db)) \<Longrightarrow> no_bar (sourceName db sid)"
  using Itoa_no_bar [of "ucast sid"] by (auto simp: sourceName_def list_all_length no_bar_def)

lemma Itoa_inj: "Itoa i = Itoa j \<longleftrightarrow> i = j"
  by (metis ParseInt_Itoa option.inject)

lemma cut_bar: "no_bar s \<Longrightarrow> no_bar t \<Longrightarrow> s @ CHR ''|'' # x = t @ CHR ''|'' # y \<longleftrightarrow> s = t \<and> x = y"
proof
  assume n: "no_bar s" "no_bar t" and e: "s @ CHR ''|'' # x = t @ CHR ''|'' # y"
  have "Cut (s @ CHR ''|'' # x) CHR ''|'' = (s, x, True)" "Cut (t @ CHR ''|'' # y) CHR ''|'' = (t, y, True)"
    using n unfolding no_bar_def by (blast intro: Cut_append)+
  then show "s = t \<and> x = y" unfolding e by (metis prod.inject)
qed blast

lemma evidenceKey_inj:
  assumes "evidenceKey e = evidenceKey e'"
    and "no_bar (ev_Source e)" "no_bar (ev_Source e')" "no_bar (ev_Category e)" "no_bar (ev_Category e')"
  shows "ev_Source e = ev_Source e' \<and> ev_Category e = ev_Category e' \<and> ev_Detail e = ev_Detail e'
    \<and> (word_of_int (ev_Confidence e) :: int64) = word_of_int (ev_Confidence e')"
proof -
  from assms(1) have k: "ev_Source e @ CHR ''|'' # ev_Category e @ CHR ''|'' # Itoa (word_of_int (ev_Confidence e)) @ CHR ''|'' # ev_Detail e
      = ev_Source e' @ CHR ''|'' # ev_Category e' @ CHR ''|'' # Itoa (word_of_int (ev_Confidence e')) @ CHR ''|'' # ev_Detail e'"
    by (simp only: evidenceKey_def append_Cons append_Nil)
  note k1 = k [unfolded cut_bar [OF assms(2,3)]]
  note k2 = k1 [THEN conjunct2, unfolded cut_bar [OF assms(4,5)]]
  note k3 = k2 [THEN conjunct2, unfolded cut_bar [OF Itoa_no_bar Itoa_no_bar] Itoa_inj]
  from k1 k2 k3 show ?thesis by blast
qed

text \<open>Evidence that its key identifies. A scan collects a set of it when it has noted every key, and none twice.\<close>

definition plain_evidence :: "Evidence \<Rightarrow> bool" where
  "plain_evidence e \<longleftrightarrow> no_bar (ev_Source e) \<and> no_bar (ev_Category e)
     \<and> 0 \<le> ev_Confidence e \<and> ev_Confidence e < 256 \<and> ev_Matched e"

lemma evidenceKey_plain:
  assumes "evidenceKey e = evidenceKey e'" and "plain_evidence e" "plain_evidence e'"
  shows "e = e'"
proof -
  have b: "0 \<le> ev_Confidence x \<and> ev_Confidence x < 2 ^ LENGTH(64)" if "plain_evidence x" for x
    using that by (simp add: plain_evidence_def)
  note same = evidenceKey_inj [OF assms(1)] assms(2,3) [unfolded plain_evidence_def]
  have "(word_of_int (ev_Confidence e) :: int64) = word_of_int (ev_Confidence e')" using same by blast
  from arg_cong [OF this, of uint] have "ev_Confidence e = ev_Confidence e'"
    unfolding uint_word_of_int using b [OF assms(2)] b [OF assms(3)] by (simp add: mod_pos_pos_trivial)
  then show ?thesis using same by (cases e, cases e') simp
qed

lemma evidence_of_plain:
  assumes "list_all (\<lambda>s. no_bar (sm_Name s)) (man_Sources (db_manifest db))" and "no_bar (rec_Category r)"
  shows "plain_evidence (evidence_of db r)"
  using assms sourceName_no_bar uint_lt2p [of "rec_Confidence r"] by (simp add: plain_evidence_def evidence_of_def)

lemma bad_asn_evidence_plain: "plain_evidence (bad_asn_evidence asn entity)"
  by (simp add: plain_evidence_def bad_asn_evidence_def no_bar_def)

definition collected :: "lookup_state \<Rightarrow> Evidence set \<Rightarrow> bool" where
  "collected st E \<longleftrightarrow> set (ls_evidence st) = E \<and> ls_seen st = evidenceKey ` E \<and> distinct (ls_evidence st)
     \<and> E \<subseteq> Collect plain_evidence"

lemma collected_start: "collected lookup_start {}"
  by (simp add: collected_def lookup_start_def)

lemma collected_add:
  assumes "collected st E" and "plain_evidence e"
  shows "collected (add_evidence e st) (insert e E)"
proof (cases "evidenceKey e \<in> ls_seen st")
  case True
  then obtain e' where "e' \<in> E" "evidenceKey e = evidenceKey e'" using assms(1) by (auto simp: collected_def)
  then have "e \<in> E" using evidenceKey_plain assms by (fastforce simp: collected_def)
  then show ?thesis using assms(1) True by (simp add: add_evidence_def insert_absorb)
next
  case False
  then show ?thesis using assms by (auto simp: collected_def add_evidence_def)
qed

lemma note_fields [simp]:
  "ls_evidence (note_asn s r st) = ls_evidence st" "ls_seen (note_asn s r st) = ls_seen st"
  "ls_matched (note_asn s r st) = ls_matched st" "ls_country (note_asn s r st) = ls_country st"
  "ls_evidence (note_country r st) = ls_evidence st" "ls_seen (note_country r st) = ls_seen st"
  "ls_matched (note_country r st) = ls_matched st" "ls_asn (note_country r st) = ls_asn st"
  "ls_org (note_country r st) = ls_org st" "ls_rank (note_country r st) = ls_rank st"
  by (simp_all add: note_asn_def note_country_def)

lemma add_evidence_fields [simp]:
  "ls_matched (add_evidence e st) = ls_matched st" "ls_country (add_evidence e st) = ls_country st"
  "ls_asn (add_evidence e st) = ls_asn st" "ls_org (add_evidence e st) = ls_org st" "ls_rank (add_evidence e st) = ls_rank st"
  by (simp_all add: add_evidence_def)

section \<open>The meaning of an answer\<close>

text \<open>What a lookup says, from the records that contain the address: the first country given; the system
  whose announcement has the highest rank, the first of them; an entry of evidence for each record.\<close>

definition sources_of :: "DB \<Rightarrow> Record list \<Rightarrow> string set" where
  "sources_of db rs = (\<lambda>r. sourceName db (rec_SourceID r)) ` set rs"

definition first_country :: "Record list \<Rightarrow> string" where
  "first_country rs = (case filter (\<lambda>r. rec_Country r \<noteq> []) rs of [] \<Rightarrow> [] | r # _ \<Rightarrow> rec_Country r)"

definition record_rank :: "DB \<Rightarrow> Record \<Rightarrow> nat" where
  "record_rank db r = asn_rank (sourceName db (rec_SourceID r)) r"

definition announced :: "DB \<Rightarrow> Record list \<Rightarrow> 32 word \<Rightarrow> string \<Rightarrow> nat \<Rightarrow> bool" where
  "announced db rs asn org rank \<longleftrightarrow>
     (let as = filter (\<lambda>r. rec_ASN r \<noteq> 0) rs in
        if as = [] then asn = 0 \<and> org = [] \<and> rank = 0
        else (\<exists>pre r post. as = pre @ r # post \<and> (\<forall>x\<in>set pre. record_rank db x < record_rank db r)
           \<and> (\<forall>x\<in>set post. record_rank db x \<le> record_rank db r)
           \<and> asn = rec_ASN r \<and> org = rec_Org r \<and> rank = record_rank db r))"

definition listed_asn :: "DB \<Rightarrow> 32 word \<Rightarrow> string option" where
  "listed_asn db asn = (if asn = 0 then None else man_ASNs (db_manifest db) asn)"

definition no_match_of :: "SourceMeta \<Rightarrow> Evidence" where
  "no_match_of s = \<lparr>ev_Source = sm_Name s, ev_Category = [], ev_Confidence = 0, ev_Matched = False, ev_Detail = []\<rparr>"

definition answer_of :: "((string \<times> int) list \<Rightarrow> (string \<times> int) list) \<Rightarrow> DB \<Rightarrow> addr \<Rightarrow> Record list \<Rightarrow> Result \<Rightarrow> bool" where
  "answer_of shuffle db a hits res \<longleftrightarrow>
     res_IP res = Addr_String (Unmap a)
     \<and> res_Country res = first_country hits
     \<and> (\<exists>rank. announced db hits (res_ASN res) (res_Org res) rank)
     \<and> {e \<in> set (res_Evidence res). ev_Matched e} = evidence_of db ` set hits
          \<union> (case listed_asn db (res_ASN res) of None \<Rightarrow> {} | Some entity \<Rightarrow> {bad_asn_evidence (res_ASN res) entity})
     \<and> {e \<in> set (res_Evidence res). \<not> ev_Matched e} = no_match_of ` {s \<in> set (man_Sources (db_manifest db)).
          sm_Name s \<notin> sources_of db hits
          \<and> (sm_Name s = ''bad-asn-list'' \<longrightarrow> res_ASN res \<noteq> 0 \<and> listed_asn db (res_ASN res) = None)}
     \<and> distinct (filter ev_Matched (res_Evidence res))
     \<and> sorted (map (\<lambda>e. (ev_Source e, ev_Category e, - ev_Confidence e)) (res_Evidence res))
     \<and> scoreEvidence shuffle (res_Evidence res) = (res_Score res, res_Verdict res, res_Categories res)"

definition scanned :: "DB \<Rightarrow> Record list \<Rightarrow> lookup_state \<Rightarrow> bool" where
  "scanned db rs st \<longleftrightarrow> collected st (evidence_of db ` set rs) \<and> ls_matched st = sources_of db rs
     \<and> ls_country st = first_country rs \<and> announced db rs (ls_asn st) (ls_org st) (ls_rank st)"

lemma first_country_snoc:
  "first_country (rs @ [r]) = (if first_country rs = [] \<and> rec_Country r \<noteq> [] then rec_Country r else first_country rs)"
proof (cases "filter (\<lambda>r. rec_Country r \<noteq> []) rs")
  case (Cons x xs)
  then have "rec_Country x \<noteq> []" by (metis (mono_tags, lifting) filter_eq_ConsD)
  then show ?thesis using Cons by (simp add: first_country_def)
qed (simp add: first_country_def)

lemma announcedI:
  assumes "filter (\<lambda>r. rec_ASN r \<noteq> 0) rs = pre @ z # post" and "\<forall>w\<in>set pre. record_rank db w < record_rank db z"
    and "\<forall>w\<in>set post. record_rank db w \<le> record_rank db z"
    and "asn = rec_ASN z" "org = rec_Org z" "rank = record_rank db z"
  shows "announced db rs asn org rank"
  unfolding announced_def Let_def using assms by auto

lemma announced_snoc:
  assumes "announced db rs asn org rank"
  shows "if rec_ASN r \<noteq> 0 \<and> record_rank db r > rank then announced db (rs @ [r]) (rec_ASN r) (rec_Org r) (record_rank db r)
         else announced db (rs @ [r]) asn org rank"
proof (cases "filter (\<lambda>r. rec_ASN r \<noteq> 0) rs")
  case Nil
  then have "rank = 0" "asn = 0" "org = []" using assms by (simp_all add: announced_def)
  moreover have "0 < record_rank db r" by (simp add: record_rank_def asn_rank_def)
  ultimately show ?thesis using Nil by (auto simp: announced_def Cons_eq_append_conv)
next
  case (Cons y ys)
  then obtain pre x post where x: "filter (\<lambda>r. rec_ASN r \<noteq> 0) rs = pre @ x # post"
    "\<forall>z\<in>set pre. record_rank db z < record_rank db x" "\<forall>z\<in>set post. record_rank db z \<le> record_rank db x"
    "asn = rec_ASN x" "org = rec_Org x" "rank = record_rank db x"
    using assms by (auto simp: announced_def)
  show ?thesis
  proof (cases "rec_ASN r \<noteq> 0 \<and> record_rank db r > rank")
    case True
    then have "announced db (rs @ [r]) (rec_ASN r) (rec_Org r) (record_rank db r)"
      by (intro announcedI [of _ "pre @ x # post" r "[]"]) (use x in \<open>auto dest: less_trans\<close>)
    then show ?thesis using True by simp
  next
    case False
    then have "announced db (rs @ [r]) asn org rank"
      by (intro announcedI [of _ pre x "post @ (if rec_ASN r \<noteq> 0 then [r] else [])"]) (use x in auto)
    then show ?thesis using False by auto
  qed
qed

lemma scanned_start: "scanned db [] lookup_start"
  using collected_start by (simp add: scanned_def sources_of_def first_country_def announced_def) (simp add: lookup_start_def)

lemma scanned_match:
  assumes "scanned db rs st" and "in_range f k r" and "plain_evidence (evidence_of db r)"
  shows "scanned db (rs @ [r]) (match_record db f k st r)"
proof -
  have "collected (match_record db f k st r) (evidence_of db ` set (rs @ [r]))"
    using collected_add [OF _ assms(3), of st "evidence_of db ` set rs"] assms(1,2)
    by (simp add: scanned_def collected_def match_record_def Let_def)
  moreover have "announced db (rs @ [r]) (ls_asn (match_record db f k st r)) (ls_org (match_record db f k st r))
      (ls_rank (match_record db f k st r))"
    using announced_snoc [of db rs "ls_asn st" "ls_org st" "ls_rank st" r] assms(1,2)
    by (auto simp: scanned_def match_record_def Let_def note_asn_def record_rank_def split: if_splits)
  moreover have "ls_country (match_record db f k st r) = first_country (rs @ [r])"
    using assms(1,2) by (simp add: scanned_def match_record_def Let_def note_country_def first_country_snoc)
  moreover have "ls_matched (match_record db f k st r) = sources_of db (rs @ [r])"
    using assms(1,2) by (simp add: scanned_def match_record_def Let_def sources_of_def)
  ultimately show ?thesis unfolding scanned_def by blast
qed

lemma scanned_hits:
  assumes "\<forall>r\<in>set rs. in_range f k r \<and> plain_evidence (evidence_of db r)"
  shows "scanned db rs (foldl (match_record db f k) lookup_start rs)"
  using assms by (induction rs rule: rev_induct) (simp_all add: scanned_start scanned_match)

lemma Unmap_idem [simp]: "Unmap (Unmap a) = Unmap a"
  by (auto simp: Unmap_def split: addr.split)

lemma addrBytes_Unmap [simp]: "addrBytes (Unmap a) = addrBytes a"
  by (simp add: addrBytes_def)

lemma result_answers:
  assumes "scanned db hits st"
  shows "answer_of shuffle db a hits (lookup_result shuffle db (Unmap a) st)"
proof -
  let ?st = "check_bad_asn db st" and ?res = "lookup_result shuffle db (Unmap a) st"
  let ?listed = "case listed_asn db (ls_asn st) of None \<Rightarrow> {} | Some entity \<Rightarrow> {bad_asn_evidence (ls_asn st) entity}"
  have fields: "ls_asn ?st = ls_asn st" "ls_org ?st = ls_org st" "ls_country ?st = ls_country st"
    "ls_matched ?st = sources_of db hits \<union> (if listed_asn db (ls_asn st) = None then {} else {''bad-asn-list''})"
    using assms by (simp_all add: check_bad_asn_def listed_asn_def scanned_def split: option.split)
  have c: "collected ?st (evidence_of db ` set hits \<union> ?listed)"
    using assms collected_add [OF _ bad_asn_evidence_plain, of st]
    by (auto simp: check_bad_asn_def listed_asn_def scanned_def Let_def collected_def split: option.split)
  then have plain: "e \<in> set (ls_evidence ?st) \<Longrightarrow> ev_Matched e" for e by (auto simp: collected_def plain_evidence_def)
  have no: "no_match_evidence db ?st = map no_match_of (filter (\<lambda>s. sm_Name s \<notin> sources_of db hits
      \<and> (sm_Name s = ''bad-asn-list'' \<longrightarrow> ls_asn st \<noteq> 0 \<and> listed_asn db (ls_asn st) = None)) (man_Sources (db_manifest db)))"
    unfolding no_match_evidence_def fields by (intro map_cong filter_cong) (auto simp: no_match_of_def)
  then have unmatched: "e \<in> set (no_match_evidence db ?st) \<Longrightarrow> \<not> ev_Matched e" for e by (auto simp: no_match_of_def)
  have ev: "res_Evidence ?res = sort_key (\<lambda>e. (ev_Source e, ev_Category e, - ev_Confidence e))
      (ls_evidence ?st @ no_match_evidence db ?st)"
    by (simp add: lookup_result_def Let_def split: prod.split)
  have asn: "res_ASN ?res = ls_asn st" "res_Org ?res = ls_org st" "res_Country ?res = first_country hits"
    using assms by (simp_all add: lookup_result_def Let_def fields scanned_def split: prod.split)
  have "{e \<in> set (res_Evidence ?res). ev_Matched e} = evidence_of db ` set hits \<union> ?listed"
    unfolding ev using c plain unmatched by (auto simp: collected_def)
  moreover have "{e \<in> set (res_Evidence ?res). \<not> ev_Matched e} = set (no_match_evidence db ?st)"
    unfolding ev using plain unmatched by auto
  moreover have "filter ev_Matched (ls_evidence ?st @ no_match_evidence db ?st) = ls_evidence ?st"
    using plain unmatched by (simp add: filter_id_conv filter_empty_conv)
  then have "distinct (filter ev_Matched (res_Evidence ?res))"
    using c unfolding ev filter_sort by (simp add: collected_def)
  ultimately show ?thesis
    using assms unfolding answer_of_def asn no
    by (auto simp: ev scanned_def) (simp_all add: lookup_result_def Let_def split: prod.split)
qed

lemma lookup_all:
  assumes "AllRecords zstd db = Inr rs" "index_covers zstd db" "ParseAddr ip = Some a"
  shows "Lookup zstd shuffle db ip = Inr (lookup_result shuffle db (Unmap a)
      (foldl (match_record db (fst (addrBytes a)) (snd (addrBytes a))) lookup_start rs))"
  using assms scan_all [of zstd db "db_blocks db" rs]
  by (simp add: Lookup_def AllRecords_def index_covers_def split: prod.split)

lemma lookup_answers:
  assumes "AllRecords zstd db = Inr rs" and "index_covers zstd db" and "ParseAddr ip = Some a"
    and "list_all (\<lambda>s. no_bar (sm_Name s)) (man_Sources (db_manifest db))"
    and "list_all (\<lambda>r. no_bar (rec_Category r)) rs"
  shows "\<exists>res. Lookup zstd shuffle db ip = Inr res
     \<and> answer_of shuffle db a (filter (in_range (fst (addrBytes a)) (snd (addrBytes a))) rs) res"
proof -
  have "scanned db (filter (in_range (fst (addrBytes a)) (snd (addrBytes a))) rs)
      (foldl (match_record db (fst (addrBytes a)) (snd (addrBytes a))) lookup_start rs)"
    unfolding ix.only_hits [of db _ _ lookup_start rs]
    using evidence_of_plain [OF assms(4)] assms(5) by (intro scanned_hits) (simp add: list_all_iff)
  then show ?thesis using lookup_all [OF assms(1-3)] result_answers by blast
qed

lemma answer_evidence:
  assumes "answer_of shuffle db a hits res"
  shows "evidence_of db ` set hits \<subseteq> set (res_Evidence res)"
    and "e \<in> set (res_Evidence res) \<Longrightarrow> e \<in> evidence_of db ` set hits \<or> ev_Category e = ''hosting'' \<or> ev_Confidence e = 0"
proof -
  let ?listed = "case listed_asn db (res_ASN res) of None \<Rightarrow> {} | Some entity \<Rightarrow> {bad_asn_evidence (res_ASN res) entity}"
  have m: "{e \<in> set (res_Evidence res). ev_Matched e} = evidence_of db ` set hits \<union> ?listed"
    and n: "{e \<in> set (res_Evidence res). \<not> ev_Matched e} \<subseteq> range no_match_of"
    using assms unfolding answer_of_def by (blast, auto)
  from m show "evidence_of db ` set hits \<subseteq> set (res_Evidence res)" by blast
  show "e \<in> evidence_of db ` set hits \<or> ev_Category e = ''hosting'' \<or> ev_Confidence e = 0" if "e \<in> set (res_Evidence res)"
  proof (cases "ev_Matched e")
    case True
    then have "e \<in> evidence_of db ` set hits \<union> ?listed" using that unfolding m [symmetric] by simp
    then show ?thesis by (auto simp: bad_asn_evidence_def split: option.splits)
  next
    case False
    then have "e \<in> range no_match_of" using that n by blast
    then show ?thesis by (auto simp: no_match_of_def)
  qed
qed

lemma record_in_evidence:
  assumes "AllRecords zstd db = Inr rs" and "index_covers zstd db" and "ParseAddr ip = Some a"
    and "list_all (\<lambda>s. no_bar (sm_Name s)) (man_Sources (db_manifest db))"
    and "list_all (\<lambda>r. no_bar (rec_Category r)) rs"
    and "r \<in> set rs" and "in_range (fst (addrBytes a)) (snd (addrBytes a)) r"
  shows "\<exists>res. Lookup zstd shuffle db ip = Inr res \<and> evidence_of db r \<in> set (res_Evidence res)"
  using lookup_answers [OF assms(1-5), of shuffle] answer_evidence(1) assms(6,7) by fastforce

text \<open>The verdict on an address with a record that counts is the category of some record that contains it,
  or that of listed ASNs.\<close>

lemma lookup_verdict:
  assumes "AllRecords zstd db = Inr rs" and "index_covers zstd db" and "ParseAddr ip = Some a"
    and "list_all (\<lambda>s. no_bar (sm_Name s)) (man_Sources (db_manifest db))"
    and "list_all (\<lambda>r. no_bar (rec_Category r)) rs"
    and "r \<in> set rs" and "in_range (fst (addrBytes a)) (snd (addrBytes a)) r"
    and "\<And>xs. mset (shuffle xs) = mset xs" and "weight_of (rec_Category r) \<noteq> 0" and "rec_Confidence r \<noteq> 0"
  shows "\<exists>res. Lookup zstd shuffle db ip = Inr res \<and> res_Verdict res
     \<in> insert ''hosting'' (rec_Category ` {r \<in> set rs. in_range (fst (addrBytes a)) (snd (addrBytes a)) r})"
proof -
  let ?hits = "filter (in_range (fst (addrBytes a)) (snd (addrBytes a))) rs"
  obtain res where l: "Lookup zstd shuffle db ip = Inr res" and ans: "answer_of shuffle db a ?hits res"
    using lookup_answers [OF assms(1-5)] by blast
  have e: "evidence_of db r \<in> set (res_Evidence res)" using answer_evidence(1) [OF ans] assms(6,7) by auto
  have v: "res_Verdict res = fst (snd (scoreEvidence shuffle (res_Evidence res)))" using ans by (simp add: answer_of_def)
  have "rec_Category r \<noteq> []" using assms(9) by (auto simp: weight_of_def categoryWeights_def)
  moreover have "0 < uint (rec_Confidence r)" using assms(10) by (simp add: word_neq_0_conv word_less_def)
  ultimately have "0 < best_conf (res_Evidence res) (rec_Category r)"
    using assms(9) e by (intro best_conf_pos) (auto simp: evidence_of_def evidence_category_def weight_of_def split: option.splits)
  then have "0 < best_conf (res_Evidence res) (res_Verdict res) \<and> weight_of (res_Verdict res) \<noteq> 0"
    unfolding v using verdict_counts [OF assms(8)] assms(9) by blast
  then obtain x where x: "x \<in> set (res_Evidence res)" "evidence_category x = res_Verdict res" "ev_Confidence x > 0"
    "res_Verdict res \<noteq> ''unknown''"
    using best_conf_witness by (fastforce simp: weight_of_def categoryWeights_def)
  then have c: "ev_Category x = res_Verdict res" by (auto simp: evidence_category_def split: if_splits)
  show ?thesis
  proof (cases "ev_Category x = ''hosting''")
    case True
    then show ?thesis using l c by auto
  next
    case False
    then obtain r' where "x = evidence_of db r'" "r' \<in> set ?hits" using answer_evidence(2) [OF ans x(1)] x(3) by auto
    then have "res_Verdict res = rec_Category r'" "r' \<in> {r \<in> set rs. in_range (fst (addrBytes a)) (snd (addrBytes a)) r}"
      using c by (simp_all add: evidence_of_def)
    then show ?thesis using l by blast
  qed
qed

section \<open>Properties\<close>

definition example_record :: Record where
  "example_record = \<lparr>rec_Family = 4, rec_Start = 10 # replicate 15 0, rec_End = 10 # replicate 15 255,
     rec_SourceID = 0, rec_Category = ''vpn'', rec_Confidence = 90, rec_ASN = 0, rec_Org = [],
     rec_Country = [], rec_Detail = []\<rparr>"

definition example_db :: DB where
  "example_db = \<lparr>db_data = [0], db_manifest = zero_Manifest,
     db_blocks = [\<lparr>rb_header = zero_BlockHeader\<lparr>bh_Compressed := 1,
                     bh_Uncompressed := of_nat (length (encode_records [example_record]))\<rparr>,
                   rb_family = 4, rb_first = rec_Start example_record, rb_max = rec_End example_record\<rparr>],
     db_dataOffset = 0\<rparr>"

abbreviation example_zstd :: "bytes \<Rightarrow> bytes option" where
  "example_zstd \<equiv> \<lambda>_. Some (encode_records [example_record])"

lemma example_length: "length (encode_records [example_record]) = 63"
  by (simp add: encode_records_def encode_record_def example_record_def encode_string_def)

lemma example_read: "readBlock example_zstd example_db (hd (db_blocks example_db)) = Inr [example_record]"
proof -
  have "decodeRecords (encode_records [example_record] @ []) = Some [example_record]"
    by (rule decode_encode_records) (simp_all add: record_fits_def string_fits_def example_record_def)
  then show ?thesis
    by (simp add: readBlock_def example_db_def zero_BlockHeader_def example_length word_sless_alt word_sle_eq)
qed

lemma example_facts:
  "AllRecords example_zstd example_db = Inr [example_record]" "index_covers example_zstd example_db"
proof -
  obtain b where b: "db_blocks example_db = [b]" "rb_family b = 4" "rb_first b = rec_Start example_record"
    "rb_max b = rec_End example_record" by (simp add: example_db_def)
  then show "AllRecords example_zstd example_db = Inr [example_record]" "index_covers example_zstd example_db"
    using example_read
    by (simp_all add: AllRecords_def index_covers_def block_covers_def) (simp add: example_record_def)
qed

lemma example_addr: "ParseAddr ''10.0.0.1'' = Some (Addr4 [10, 0, 0, 1])"
  by code_simp

text \<open>C27: What a lookup answers. Let every block of the database be readable and covered by its index entry,
  and no source or category name contain the separator of the duplicate keys. Then the answer is
  a function of the records of the database that contain the address: its matched evidence is
  theirs, each entry once, with the entry of a listed autonomous system; its other evidence is an
  entry for each source without a match; its country is the first they give, and its system the
  first of those with the highest rank. So neither the index nor the removal of duplicates loses
  a record. The evidence is sorted, and the score and the verdict are those of the evidence.\<close>

theorem Lookup_answer:
  assumes "AllRecords zstd db = Inr rs" and "index_covers zstd db" and "ParseAddr ip = Some a"
    and "list_all (\<lambda>s. no_bar (sm_Name s)) (man_Sources (db_manifest db))"
    and "list_all (\<lambda>r. no_bar (rec_Category r)) rs"
  shows "\<exists>res. Lookup zstd shuffle db ip = Inr res
     \<and> answer_of shuffle db a (filter (in_range (fst (addrBytes a)) (snd (addrBytes a))) rs) res"
  by (rule lookup_answers) (fact assms)+

theorem Lookup_answer_witness:
  "\<exists>res. Lookup example_zstd rev example_db ''10.0.0.1'' = Inr res
     \<and> evidence_of example_db example_record \<in> set (res_Evidence res) \<and> res_ASN res = 0 \<and> res_Country res = []"
proof -
  have "in_range (fst (addrBytes (Addr4 [10, 0, 0, 1]))) (snd (addrBytes (Addr4 [10, 0, 0, 1]))) example_record"
    by code_simp
  then show ?thesis
    using Lookup_answer [OF example_facts example_addr, of rev]
    by (fastforce simp: answer_of_def example_db_def zero_Manifest_def example_record_def no_bar_def announced_def
        first_country_def listed_asn_def)
qed

end
