(* ===== verification/Ipintel.thy ===== *)
theory Ipintel
  imports Gjson Ipintel_Lookup
begin

text \<open>
  The ipintel gate, \<^verbatim>\<open>src/ipintel.go\<close>: its configuration, the decision for a verdict and the
  lookup of a client's verdict. A Go map from categories to \<open>true\<close> is the set of its keys (nil is
  the empty set). \<open>sys\<close> gathers what the database needs of its surroundings.
\<close>

definition ipintelModeChallenge :: string where "ipintelModeChallenge = ''challenge''"
definition ipintelModeDifficulty :: string where "ipintelModeDifficulty = ''difficulty''"

text \<open>The outside of the database: accepted times, whether a zstd decoder can be created, what it
  decodes, and the order in which maps are iterated.\<close>

record db_system =
  sys_time_ok :: "string \<Rightarrow> bool"
  sys_zstd_new :: bool
  sys_zstd :: "bytes \<Rightarrow> bytes option"
  sys_shuffle :: "(string \<times> int) list \<Rightarrow> (string \<times> int) list"

datatype ip_problem = ModeInvalid | DbOpenFailed db_err

fun collect_categories :: "(string \<Rightarrow> string) \<Rightarrow> string list \<Rightarrow> string set \<Rightarrow> string set" where
  "collect_categories ul [] cats = cats"
| "collect_categories ul (s # ss) cats =
     (let c = strings_ToLower ul (TrimSpace s)
      in collect_categories ul ss (if c \<noteq> [] then insert c cats else cats))"

definition parseIPIntelConfig ::
  "'r gjson \<Rightarrow> (string \<Rightarrow> string) \<Rightarrow> db_system \<Rightarrow> bytes \<Rightarrow> bytes
   \<Rightarrow> DB option \<times> string \<times> string set \<times> uint64 \<times> bool \<times> ip_problem list" where
  "parseIPIntelConfig gj ul sys data dbBytes =
     (let mode = strings_ToLower ul (TrimSpace (gj_Str gj (gj_GetBytes gj data ''ipintel.mode'')));
          mode = (if mode = [] then ipintelModeChallenge else mode);
          (mode, problems) =
            (if mode \<noteq> ipintelModeChallenge \<and> mode \<noteq> ipintelModeDifficulty then ([], [ModeInvalid])
             else (mode, []));
          cats = collect_categories ul
            (map (gj_Str gj) (gj_Array gj (gj_GetBytes gj data ''ipintel.challenge_categories''))) {};
          v = gj_Uint gj (gj_GetBytes gj data ''ipintel.target_difficulty'');
          target = (if v > 0 then v else 0)
      in if mode = [] \<or> cats = {} then (None, [], {}, 0, False, problems)
         else case OpenBytes (sys_time_ok sys) (sys_zstd_new sys) dbBytes of
           Inl e \<Rightarrow> (None, [], {}, 0, False, problems @ [DbOpenFailed e])
         | Inr db \<Rightarrow> (Some db, mode, cats, target, True, problems))"

datatype ipintelDecision = ipPass | ipChallenge | ipElevated

definition decideIPIntel :: "string \<Rightarrow> string set \<Rightarrow> uint64 \<Rightarrow> string \<Rightarrow> ipintelDecision \<times> uint64" where
  "decideIPIntel mode cats target verdict =
     (if mode = [] \<or> cats = {} \<or> verdict = [] then (ipChallenge, 0)
      else if verdict \<notin> cats then
        (if mode = ipintelModeDifficulty then (ipChallenge, 0) else (ipPass, 0))
      else if mode = ipintelModeDifficulty \<and> target > 0 then (ipElevated, target)
      else (ipChallenge, 0))"

text \<open>The verdict for an address; \<open>None\<close> when the lookup panics.\<close>

definition ipintelMatch :: "db_system \<Rightarrow> DB option \<Rightarrow> string \<Rightarrow> string option" where
  "ipintelMatch sys ipintel ip =
     (case ipintel of
        None \<Rightarrow> Some []
      | Some db \<Rightarrow>
          (case Lookup (sys_zstd sys) (sys_shuffle sys) db ip of
             Inl PanicSliceBounds \<Rightarrow> None
           | Inl e \<Rightarrow> Some []
           | Inr res \<Rightarrow> Some (res_Verdict res)))"

definition keysOf :: "string set \<Rightarrow> string list" where
  "keysOf m = sorted_list_of_set m"

section \<open>Properties\<close>

lemma collect_categories_set:
  "collect_categories ul ss cats = cats \<union> {c. c \<noteq> [] \<and> c \<in> (\<lambda>s. strings_ToLower ul (TrimSpace s)) ` set ss}"
  by (induction ss arbitrary: cats) (auto simp: Let_def)

text \<open>C33: A configuration enables the gate only in one of the two modes, with at least one category and
  an opened database; otherwise every setting is reset. So a half-configured or unopenable
  database never takes part in a decision.\<close>

theorem parseIPIntelConfig_type:
  "case parseIPIntelConfig gj ul sys data dbBytes of (db, mode, cats, target, enabled, problems) \<Rightarrow>
     if enabled
     then (mode = ''challenge'' \<or> mode = ''difficulty'') \<and> cats \<noteq> {} \<and> [] \<notin> cats
       \<and> (\<exists>d. db = Some d \<and> OpenBytes (sys_time_ok sys) (sys_zstd_new sys) dbBytes = Inr d) \<and> problems = []
     else db = None \<and> mode = [] \<and> cats = {} \<and> target = 0"
  by (auto simp: parseIPIntelConfig_def Let_def collect_categories_set ipintelModeChallenge_def
      ipintelModeDifficulty_def split: sum.split)

text \<open>A database without blocks, to show that the configuration can succeed.\<close>

definition tiny_manifest :: string where
  "tiny_manifest = CHR ''{'' # CHR 0x22 # ''format_version'' @ CHR 0x22 # '':1}''"

definition tiny_database :: bytes where
  "tiny_database = bytes_of ''IPINTEL1'' @ [1, 0, 0, 0, 20, 0, 0, 0, 2, 0, 0, 0, 50, 0, 0, 0, 0, 0, 0, 0]
     @ bytes_of tiny_manifest @ bytes_of ''[]''"

lemma tiny_parse: "json_parse tiny_manifest = Some (JObj [(''format_version'', JNum ''1'')])" "json_parse ''[]'' = Some (JArr [])"
  by code_simp+

lemma ParseInt_1: "ParseInt ''1'' = Some 1"
proof -
  have "Itoa 1 = ''1''" by code_simp
  then show ?thesis using ParseInt_Itoa [of 1] by simp
qed

lemma length_tiny_manifest: "length tiny_manifest = 20" by (simp add: tiny_manifest_def)

lemma open_tiny:
  "OpenBytes ok True tiny_database = Inr \<lparr>db_data = tiny_database,
     db_manifest = zero_Manifest\<lparr>man_FormatVersion := 1\<rparr>, db_blocks = [], db_dataOffset = 50\<rparr>"
proof -
  have h: "ReadFull headerSize tiny_database = Some (bytes_of ''IPINTEL1'' @ [1, 0, 0, 0, 20, 0, 0, 0, 2, 0, 0, 0, 50, 0, 0, 0, 0, 0, 0, 0], bytes_of tiny_manifest @ bytes_of ''[]'')"
    using ReadFull_append [of "bytes_of ''IPINTEL1'' @ [1, 0, 0, 0, 20, 0, 0, 0, 2, 0, 0, 0, 50, 0, 0, 0, 0, 0, 0, 0]" headerSize "bytes_of tiny_manifest @ bytes_of ''[]''"]
    by (simp add: tiny_database_def headerSize_def)
  have m: "Manifest_Unmarshal ok (bytes_of tiny_manifest) = Some (zero_Manifest\<lparr>man_FormatVersion := 1\<rparr>)"
    by (simp add: Manifest_Unmarshal_def json_Unmarshal_def tiny_parse Manifest_fields_def field_of_def set_int64_def ParseInt_1)
  have i: "index_Unmarshal (bytes_of ''[]'') = Some []"
    by (simp add: index_Unmarshal_def tiny_parse)
  have e: "ReadFull 2 (bytes_of ''[]'') = Some (bytes_of ''[]'', [])" by (simp add: ReadFull_def)
  have n: "headerSize = 28" by (simp add: headerSize_def)
  show ?thesis
    by (simp add: OpenBytes_def openBytes_def openReader_def h [unfolded n] n length_tiny_manifest m i e FormatMagic_def FormatVersion_def
     Uint32_LE_def Uint64_LE_def le_val_def be_val_def word_sless_alt)
qed

text \<open>Where no mode is configured the gate is not off: one category and a database that opens enable
  it in challenge mode.\<close>

lemma ipintel_enabled_without_mode:
  assumes "gj_Str gj (gj_GetBytes gj data ''ipintel.mode'') = []"
    and "gj_Array gj (gj_GetBytes gj data ''ipintel.challenge_categories'') = [r]"
    and "gj_Str gj r = ''vpn''"
    and "OpenBytes (sys_time_ok sys) (sys_zstd_new sys) dbBytes = Inr db"
  shows "\<exists>target. parseIPIntelConfig gj ul sys data dbBytes = (Some db, ''challenge'', {''vpn''}, target, True, [])"
proof -
  have "strings_ToLower ul [] = []" "strings_ToLower ul ''vpn'' = ''vpn''"
    by (simp_all add: strings_ToLower_def is_ascii_def ascii_lower_def char_code_def)
  moreover have "TrimSpace ''vpn'' = ''vpn''"
    by (rule TrimSpace_all_visible) (simp add: visible_def char_code_def)
  ultimately show ?thesis
    using assms by (simp add: parseIPIntelConfig_def Let_def ipintelModeChallenge_def)
qed

lemma ipintel_enabled_without_mode_witness:
  "\<exists>gj :: string gjson. gj_Str gj (gj_GetBytes gj [] ''ipintel.mode'') = [] \<and>
     (\<exists>target db. parseIPIntelConfig gj id \<lparr>sys_time_ok = (\<lambda>_. True), sys_zstd_new = True,
          sys_zstd = (\<lambda>_. None), sys_shuffle = id\<rparr> [] tiny_database
        = (Some db, ''challenge'', {''vpn''}, target, True, []))"
proof -
  let ?gj = "\<lparr>gj_ValidBytes = (\<lambda>_. True),
     gj_GetBytes = (\<lambda>d p. if p = ''ipintel.challenge_categories'' then ''list'' else []),
     gj_Get = (\<lambda>_ _. []), gj_Exists = (\<lambda>_. True), gj_IsArray = (\<lambda>_. True), gj_IsObject = (\<lambda>_. True),
     gj_TypeIsString = (\<lambda>_. True), gj_Str = (\<lambda>r. r), gj_String = (\<lambda>r. r), gj_Int = (\<lambda>_. 0), gj_Uint = (\<lambda>_. 0),
     gj_Array = (\<lambda>r. [''vpn'']), gj_ForEach_values = (\<lambda>_. [])\<rparr>"
  let ?sys = "\<lparr>sys_time_ok = (\<lambda>_. True), sys_zstd_new = True, sys_zstd = (\<lambda>_. None), sys_shuffle = id\<rparr>"
  have "OpenBytes (sys_time_ok ?sys) (sys_zstd_new ?sys) tiny_database
      = Inr \<lparr>db_data = tiny_database, db_manifest = zero_Manifest\<lparr>man_FormatVersion := 1\<rparr>,
             db_blocks = [], db_dataOffset = 50\<rparr>"
    using open_tiny by simp
  from ipintel_enabled_without_mode [OF _ _ _ this, of ?gj "[]" "''vpn''" id]
  show ?thesis by (intro exI [of _ ?gj]) auto
qed

text \<open>The decision table of the gate: a request passes unchallenged only on a verdict outside the
  listed categories in challenge mode; it is elevated only on a listed verdict in difficulty mode
  with a positive target, to that target; a failed lookup always leads to a challenge.\<close>

lemma decideIPIntel_table:
  "decideIPIntel mode cats target verdict =
     (if mode \<noteq> [] \<and> mode \<noteq> ''difficulty'' \<and> cats \<noteq> {} \<and> verdict \<noteq> [] \<and> verdict \<notin> cats then (ipPass, 0)
      else if mode = ''difficulty'' \<and> verdict \<noteq> [] \<and> verdict \<in> cats \<and> target > 0 then (ipElevated, target)
      else (ipChallenge, 0))"
  by (auto simp: decideIPIntel_def ipintelModeDifficulty_def)

end
