(* ===== verification/Plugin_State.thy ===== *)
theory Plugin_State
  imports Client_Identity Protected Ipintel
begin

text \<open>
  The plugin's state, the \<open>pluginContext\<close> of \<^verbatim>\<open>src/main.go\<close>, and the parts of its start that only
  compute settings: the sliding renewal window and the difficulty bounds. \<open>macSumBuf\<close> is a scratch
  buffer that every call slices to length zero; it holds no state.
\<close>

record pluginContext =
  p_headerName :: string
  p_headerValue :: string
  p_secret :: bytes
  p_mac :: hmac
  p_baseDifficulty :: uint64
  p_minDifficulty :: uint64
  p_maxDifficulty :: uint64
  p_clientIPSource :: clientIPSource
  p_slidingRenewalTTL :: int64
  p_renewalTTL :: int64
  p_protectedRules :: "protectedRule list"
  p_protectAll :: bool
  p_challengeCounter :: uint64
  p_currentDiff :: uint64
  p_ipintel :: "DB option"
  p_ipintelMode :: string
  p_ipintelCats :: "string set"
  p_ipintelDiff :: uint64
  p_ipintelEnabled :: bool

text \<open>\<open>NewPluginContext\<close>: the zero value. The digester is nil until the plugin has started; the model
  has one for the empty secret there.\<close>

definition NewPluginContext :: pluginContext where
  "NewPluginContext =
     \<lparr>p_headerName = [], p_headerValue = [], p_secret = [], p_mac = hmac_New [], p_baseDifficulty = 0,
      p_minDifficulty = 0, p_maxDifficulty = 0, p_clientIPSource = ipSourceAuto, p_slidingRenewalTTL = 0,
      p_renewalTTL = 0, p_protectedRules = [], p_protectAll = False, p_challengeCounter = 0,
      p_currentDiff = 0, p_ipintel = None, p_ipintelMode = [], p_ipintelCats = {}, p_ipintelDiff = 0,
      p_ipintelEnabled = False\<rparr>"

definition parseSlidingRenewalConfig :: "'r gjson \<Rightarrow> bytes \<Rightarrow> int64 \<times> int64" where
  "parseSlidingRenewalConfig gj data =
     (let v = gj_GetBytes gj data ''sliding_renewal_ttl'';
          window = (if gj_Exists gj v then (if gj_Int gj v <s 0 then 0 else gj_Int gj v) else 0)
      in if window = 0 then (0, 0)
         else let v = gj_GetBytes gj data ''renewal_ttl'' in
              if gj_Exists gj v \<and> 0 <s gj_Int gj v then (window, gj_Int gj v)
              else (window, RenewalTTLMultiple * window))"

text \<open>Base, minimum and maximum as configured, to the ones used.\<close>

definition difficulty_config :: "uint64 \<Rightarrow> uint64 \<Rightarrow> uint64 \<Rightarrow> uint64 \<times> uint64 \<times> uint64" where
  "difficulty_config base minD maxD =
     (let base = (if base < 1 then DefaultDifficulty else base);
          minD = (if minD < 1 then 12 else minD);
          maxD = (if maxD < 1 \<or> maxD < minD then 26 else maxD);
          base = (if base < minD then minD else base);
          base = (if base > maxD then maxD else base)
      in (base, minD, maxD))"

section \<open>Properties\<close>

text \<open>Sliding renewal is off, with no lifetime, unless a positive window is configured; then the
  lifetime of a renewed cookie is the configured positive one, or six times the window. With a
  window that six times does not overflow both are positive.\<close>

lemma parseSlidingRenewalConfig_values:
  assumes "6 * sint (fst (parseSlidingRenewalConfig gj data)) < 2 ^ 63"
  shows "case parseSlidingRenewalConfig gj data of (window, ttl) \<Rightarrow>
     0 \<le> sint window \<and> (if window = 0 then ttl = 0 else 0 < sint window \<and> 0 < sint ttl
       \<and> (sint ttl = 6 * sint window \<or> ttl = gj_Int gj (gj_GetBytes gj data ''renewal_ttl'')))"
proof -
  have six: "sint (6 * w :: int64) = 6 * sint w" if "0 < sint w" "6 * sint w < 2 ^ 63" for w
    using that sint64_mult [of 6 w] by simp
  have nz: "0 < sint w" if "w \<noteq> 0" "\<not> w <s 0" for w :: int64
  proof -
    have "sint w \<noteq> 0" using that(1) by (metis signed_eq_0_iff)
    then show ?thesis using that(2) by (simp add: word_sless_alt)
  qed
  show ?thesis
    using assms nz six
    by (auto simp: parseSlidingRenewalConfig_def Let_def RenewalTTLMultiple_def word_sless_alt split: if_splits)
qed

lemma parseSlidingRenewalConfig_values_witness:
  "\<exists>gj :: int64 gjson. parseSlidingRenewalConfig gj [] = (300, 1800)
     \<and> (case parseSlidingRenewalConfig gj [] of (window, ttl) \<Rightarrow> sint ttl = 6 * sint window)"
proof -
  let ?gj = "\<lparr>gj_ValidBytes = (\<lambda>_. True), gj_GetBytes = (\<lambda>d p. if p = ''sliding_renewal_ttl'' then 300 else 0),
     gj_Get = (\<lambda>_ _. 0), gj_Exists = (\<lambda>_. True), gj_IsArray = (\<lambda>_. True), gj_IsObject = (\<lambda>_. True),
     gj_TypeIsString = (\<lambda>_. True), gj_Str = (\<lambda>r. []), gj_String = (\<lambda>r. []), gj_Int = (\<lambda>r. r), gj_Uint = (\<lambda>r. r),
     gj_Array = (\<lambda>r. []), gj_ForEach_values = (\<lambda>_. [])\<rparr> :: int64 gjson"
  have v: "parseSlidingRenewalConfig ?gj [] = (300, 1800)"
    by (simp add: parseSlidingRenewalConfig_def RenewalTTLMultiple_def word_sless_alt)
  then have "6 * sint (fst (parseSlidingRenewalConfig ?gj [])) < 2 ^ 63" by simp
  from parseSlidingRenewalConfig_values [OF this] v show ?thesis by (intro exI [of _ ?gj]) simp
qed

text \<open>The configured difficulties are made consistent: the minimum is at least one and the base lies
  between minimum and maximum, as long as the configured minimum does not exceed both the
  configured maximum and 26.\<close>

lemma difficulty_config_consistent:
  assumes "minD \<le> 26 \<or> minD \<le> maxD"
  shows "case difficulty_config base minD maxD of (b, mi, ma) \<Rightarrow> 1 \<le> mi \<and> mi \<le> b \<and> b \<le> ma"
proof -
  have one: "x \<noteq> 0 \<Longrightarrow> 1 \<le> x" for x :: uint64
    using inc_le [of 0 x] by (simp add: word_greater_zero_iff)
  define mi where "mi = (if minD < 1 then 12 else minD)"
  define ma where "ma = (if maxD < 1 \<or> maxD < mi then 26 else maxD)"
  define b where "b = (let b = if base < 1 then DefaultDifficulty else base in if b < mi then mi else b)"
  have mi: "1 \<le> mi" using one [of minD] by (simp add: mi_def)
  have "mi \<le> ma"
  proof (cases "maxD < 1 \<or> maxD < mi")
    case True
    have "minD < 1 \<or> minD \<le> 26"
    proof (rule ccontr)
      assume c: "\<not> (minD < 1 \<or> minD \<le> 26)"
      then have "minD \<le> maxD" "mi = minD" using assms by (auto simp: mi_def)
      with True mi show False by (metis leD order.strict_trans2)
    qed
    then show ?thesis using True by (auto simp: ma_def mi_def)
  qed (auto simp: ma_def not_less)
  moreover have "mi \<le> b" by (simp add: b_def Let_def not_less)
  moreover have "difficulty_config base minD maxD = (if b > ma then ma else b, mi, ma)"
    unfolding difficulty_config_def Let_def mi_def ma_def b_def by simp
  ultimately show ?thesis using mi by (simp add: not_less)
qed

lemma difficulty_config_consistent_witness:
  "difficulty_config 0 0 0 = (18, 12, 26) \<and> (1 :: uint64) \<le> 12"
  using difficulty_config_consistent [of 0 0 0]
  by (simp add: difficulty_config_def DefaultDifficulty_def)

end
