(* ===== verification/Difficulty.thy ===== *)
theory Difficulty
  imports Plugin_State
begin

text \<open>
  The dynamic difficulty, \<^verbatim>\<open>src/main.go\<close>: the choice of the difficulty of a new challenge, the
  counting of issued challenges and the periodic adjustment to traffic pressure. The data the VMs
  of a proxy share is a map from keys to bytes; \<open>None\<close> is the error of \<open>GetSharedData\<close>.
\<close>

section \<open>Definitions\<close>

type_synonym shared_data = "string \<Rightarrow> bytes option"

definition sharedKeyCurrentDifficulty :: string where
  "sharedKeyCurrentDifficulty = ''challenge:current_difficulty''"

datatype difficultySource = diffSourceConfig | diffSourceHeader | diffSourceDynamic | diffSourceIPIntel

definition clampDifficulty :: "uint64 \<Rightarrow> uint64 \<Rightarrow> uint64 \<Rightarrow> uint64" where
  "clampDifficulty d minD maxD = (if d < minD then minD else if d > maxD then maxD else d)"

text \<open>A positive 32-bit decimal number.\<close>

definition parse_difficulty :: "string \<Rightarrow> uint64 option" where
  "parse_difficulty s =
     (case ParseUint s 32 of Some v \<Rightarrow> if v > 0 then Some v else None | None \<Rightarrow> None)"

definition getEffectiveDifficulty ::
  "shared_data \<Rightarrow> string \<Rightarrow> pluginContext \<Rightarrow> pluginContext \<times> uint64 \<times> difficultySource" where
  "getEffectiveDifficulty shared headerOverride p =
     (let minD = p_minDifficulty p; maxD = p_maxDifficulty p; base = p_baseDifficulty p;
          fallback =
            (if p_currentDiff p > 0 then (p, clampDifficulty (p_currentDiff p) minD maxD, diffSourceDynamic)
             else
               let static = (p, clampDifficulty base minD maxD, diffSourceConfig) in
               case shared sharedKeyCurrentDifficulty of
                 None \<Rightarrow> static
               | Some data \<Rightarrow>
                   if length data > 0 then
                     (case parse_difficulty (string_of data) of
                        Some v \<Rightarrow> (let d = clampDifficulty v minD maxD
                                   in (p\<lparr>p_currentDiff := d\<rparr>, d, diffSourceDynamic))
                      | None \<Rightarrow> static)
                   else static)
      in if headerOverride \<noteq> [] then
           (case parse_difficulty headerOverride of
              Some v \<Rightarrow> (p, clampDifficulty v minD maxD, diffSourceHeader)
            | None \<Rightarrow> fallback)
         else fallback)"

definition recordChallengeIssued :: "pluginContext \<Rightarrow> pluginContext" where
  "recordChallengeIssued p = p\<lparr>p_challengeCounter := p_challengeCounter p + 1\<rparr>"

text \<open>The step up from the base for the number of recent challenges.\<close>

definition pressure_step :: "uint64 \<Rightarrow> uint64" where
  "pressure_step recent =
     (if recent \<ge> 800 then 6 else if recent \<ge> 400 then 4 else if recent \<ge> 180 then 3
      else if recent \<ge> 80 then 2 else if recent \<ge> 35 then 1 else 0)"

text \<open>\<open>set_ok\<close>: whether \<open>SetSharedData\<close> succeeds; its error is dropped.\<close>

definition OnTick :: "bool \<Rightarrow> pluginContext \<Rightarrow> shared_data \<Rightarrow> pluginContext \<times> shared_data" where
  "OnTick set_ok p shared =
     (let recent = p_challengeCounter p;
          p = p\<lparr>p_challengeCounter := 0\<rparr>;
          newDiff = p_baseDifficulty p + pressure_step recent;
          newDiff = clampDifficulty newDiff (p_minDifficulty p) (p_maxDifficulty p);
          p = p\<lparr>p_currentDiff := newDiff\<rparr>;
          shared = (if set_ok then shared(sharedKeyCurrentDifficulty \<mapsto> bytes_of (FormatUint newDiff)) else shared)
      in (p, shared))"

section \<open>Bounds\<close>

lemma clampDifficulty_bounds: "minD \<le> maxD \<Longrightarrow> minD \<le> clampDifficulty d minD maxD \<and> clampDifficulty d minD maxD \<le> maxD"
  by (auto simp: clampDifficulty_def not_less)

lemma clampDifficulty_id: "minD \<le> d \<Longrightarrow> d \<le> maxD \<Longrightarrow> clampDifficulty d minD maxD = d"
  by (auto simp: clampDifficulty_def)

lemma clampDifficulty_mono: "minD \<le> maxD \<Longrightarrow> d \<le> e \<Longrightarrow> clampDifficulty d minD maxD \<le> clampDifficulty e minD maxD"
  by (auto simp: clampDifficulty_def not_less)

lemma pressure_step_le: "unat (pressure_step recent) \<le> 6"
  by (simp add: pressure_step_def)

lemma pressure_step_mono: "a \<le> b \<Longrightarrow> pressure_step a \<le> pressure_step b"
  unfolding pressure_step_def by (auto dest: order.trans)

text \<open>The settings a started plugin has, and the difficulty it has cached.\<close>

definition diff_config_ok :: "pluginContext \<Rightarrow> bool" where
  "diff_config_ok p \<longleftrightarrow> 1 \<le> p_minDifficulty p \<and> p_minDifficulty p \<le> p_baseDifficulty p
     \<and> p_baseDifficulty p \<le> p_maxDifficulty p"

definition diff_ok :: "pluginContext \<Rightarrow> bool" where
  "diff_ok p \<longleftrightarrow> diff_config_ok p \<and>
     (p_currentDiff p = 0 \<or> p_minDifficulty p \<le> p_currentDiff p \<and> p_currentDiff p \<le> p_maxDifficulty p)"

lemma diff_bounds: "diff_config_ok p \<Longrightarrow> p_minDifficulty p \<le> p_maxDifficulty p"
  by (auto simp: diff_config_ok_def)

text \<open>The difficulty settings a step leaves alone.\<close>

definition same_diff_config :: "pluginContext \<Rightarrow> pluginContext \<Rightarrow> bool" where
  "same_diff_config p q \<longleftrightarrow> p_minDifficulty p = p_minDifficulty q \<and> p_baseDifficulty p = p_baseDifficulty q
     \<and> p_maxDifficulty p = p_maxDifficulty q"

lemma getEffectiveDifficulty_ok:
  assumes "diff_ok p" "getEffectiveDifficulty shared h p = (p', d, src)"
  shows "diff_ok p' \<and> same_diff_config p p' \<and> p_minDifficulty p \<le> d \<and> d \<le> p_maxDifficulty p
    \<and> p_challengeCounter p' = p_challengeCounter p"
proof -
  have c: "p_minDifficulty p \<le> clampDifficulty v (p_minDifficulty p) (p_maxDifficulty p)"
    "clampDifficulty v (p_minDifficulty p) (p_maxDifficulty p) \<le> p_maxDifficulty p" for v
    using assms(1) diff_bounds [of p] clampDifficulty_bounds by (auto simp: diff_ok_def)
  show ?thesis
    using assms c
    by (auto simp: getEffectiveDifficulty_def Let_def diff_ok_def diff_config_ok_def same_diff_config_def
        split: if_splits option.splits)
qed

lemma OnTick_ok:
  assumes "diff_ok p" "OnTick set_ok p shared = (p', shared')"
  shows "diff_ok p' \<and> same_diff_config p p' \<and> p_challengeCounter p' = 0
    \<and> p_minDifficulty p \<le> p_currentDiff p' \<and> p_currentDiff p' \<le> p_maxDifficulty p"
proof -
  let ?n = "p_baseDifficulty p + pressure_step (p_challengeCounter p)"
  have "p_minDifficulty p \<le> clampDifficulty ?n (p_minDifficulty p) (p_maxDifficulty p)"
    "clampDifficulty ?n (p_minDifficulty p) (p_maxDifficulty p) \<le> p_maxDifficulty p"
    using assms(1) diff_bounds [of p] clampDifficulty_bounds by (auto simp: diff_ok_def)
  then show ?thesis
    using assms by (auto simp: OnTick_def Let_def diff_ok_def diff_config_ok_def same_diff_config_def)
qed

lemma parse_published:
  assumes "d \<noteq> 0" "unat d < 2 ^ 32"
  shows "parse_difficulty (FormatUint d) = Some d"
  using assms by (simp add: parse_difficulty_def FormatUint_def ParseUint_digits_of word_greater_zero_iff)

section \<open>The priority of the sources\<close>

text \<open>The sources in the order of their priority, as the comment of \<open>getEffectiveDifficulty\<close> has it.\<close>

fun source_rank :: "difficultySource \<Rightarrow> nat" where
  "source_rank diffSourceConfig = 0"
| "source_rank diffSourceDynamic = 1"
| "source_rank diffSourceHeader = 2"
| "source_rank diffSourceIPIntel = 3"

lemma source_rank_inj: "source_rank s = source_rank t \<longleftrightarrow> s = t"
  by (cases s; cases t) simp_all

instantiation difficultySource :: linorder
begin

definition less_eq_difficultySource :: "difficultySource \<Rightarrow> difficultySource \<Rightarrow> bool" where
  "s \<le> t \<longleftrightarrow> source_rank s \<le> source_rank t"

definition less_difficultySource :: "difficultySource \<Rightarrow> difficultySource \<Rightarrow> bool" where
  "s < t \<longleftrightarrow> source_rank s < source_rank t"

instance
  by standard (auto simp: less_eq_difficultySource_def less_difficultySource_def source_rank_inj)

end

lemma finite_sources: "finite (S :: difficultySource set)"
proof (rule finite_subset)
  show "S \<subseteq> {diffSourceConfig, diffSourceDynamic, diffSourceHeader, diffSourceIPIntel}"
    using difficultySource.exhaust by auto
qed simp

text \<open>What each source has to offer, before it is clamped: the override header, the cached value or else
  the shared one, and the configured base. The ipintel gate comes in later.\<close>

fun offered :: "shared_data \<Rightarrow> string \<Rightarrow> pluginContext \<Rightarrow> difficultySource \<Rightarrow> uint64 option" where
  "offered shared header p diffSourceHeader = parse_difficulty header"
| "offered shared header p diffSourceDynamic =
     (if p_currentDiff p > 0 then Some (p_currentDiff p)
      else Option.bind (shared sharedKeyCurrentDifficulty) (\<lambda>data. parse_difficulty (string_of data)))"
| "offered shared header p diffSourceConfig = Some (p_baseDifficulty p)"
| "offered shared header p diffSourceIPIntel = None"

lemma best_offer:
  "Max {s. offered shared header p s \<noteq> None} =
     (if offered shared header p diffSourceHeader \<noteq> None then diffSourceHeader
      else if offered shared header p diffSourceDynamic \<noteq> None then diffSourceDynamic else diffSourceConfig)"
proof (rule Max_eqI [OF finite_sources])
  let ?m = "if offered shared header p diffSourceHeader \<noteq> None then diffSourceHeader
      else if offered shared header p diffSourceDynamic \<noteq> None then diffSourceDynamic else diffSourceConfig"
  show "s \<le> ?m" if "s \<in> {s. offered shared header p s \<noteq> None}" for s
    using that by (cases s) (auto simp: less_eq_difficultySource_def)
  show "?m \<in> {s. offered shared header p s \<noteq> None}" by auto
qed

lemma parse_difficulty_Nil [simp]: "parse_difficulty [] = None"
  by (simp add: parse_difficulty_def ParseUint_def)

lemma getEffectiveDifficulty_offered:
  "getEffectiveDifficulty shared header p =
     (let clamp = (\<lambda>v. clampDifficulty v (p_minDifficulty p) (p_maxDifficulty p)) in
      case offered shared header p diffSourceHeader of
        Some v \<Rightarrow> (p, clamp v, diffSourceHeader)
      | None \<Rightarrow>
          (case offered shared header p diffSourceDynamic of
             Some v \<Rightarrow> (if p_currentDiff p = 0 then p\<lparr>p_currentDiff := clamp v\<rparr> else p, clamp v, diffSourceDynamic)
           | None \<Rightarrow> (p, clamp (p_baseDifficulty p), diffSourceConfig)))"
proof (cases "parse_difficulty header")
  case (Some v)
  then have "header \<noteq> []" by auto
  with Some show ?thesis by (simp add: getEffectiveDifficulty_def Let_def)
next
  case None
  show ?thesis
  proof (cases "p_currentDiff p > 0")
    case True
    then show ?thesis using None by (auto simp: getEffectiveDifficulty_def Let_def)
  next
    case False
    then have z: "p_currentDiff p = 0" by (simp add: word_greater_zero_iff)
    show ?thesis
    proof (cases "shared sharedKeyCurrentDifficulty")
      case (Some data)
      have "parse_difficulty (string_of data) = None" if "data = []" using that by (simp add: string_of_def)
      then show ?thesis
        using None z Some by (cases "parse_difficulty (string_of data)") (auto simp: getEffectiveDifficulty_def Let_def)
    qed (use None z in \<open>simp add: getEffectiveDifficulty_def Let_def\<close>)
  qed
qed

section \<open>Properties\<close>

text \<open>C36: Which difficulty a new challenge starts from: the one of the source with the highest priority that
  has one to offer, clamped to the bounds. A positive 32-bit number in the override header beats
  the dynamic value, whether cached or read from the shared data, which beats the configured base. Of
  the plugin's state only the cache changes, and only when the shared value is used.\<close>

theorem effective_difficulty_priority:
  "case getEffectiveDifficulty shared header p of (p', d, src) \<Rightarrow>
     src = Max {s. offered shared header p s \<noteq> None}
     \<and> d = clampDifficulty (the (offered shared header p src)) (p_minDifficulty p) (p_maxDifficulty p)
     \<and> p' = (if src = diffSourceDynamic \<and> p_currentDiff p = 0 then p\<lparr>p_currentDiff := d\<rparr> else p)"
proof (cases "offered shared header p diffSourceHeader")
  case (Some v)
  then show ?thesis unfolding getEffectiveDifficulty_offered best_offer by (simp add: Let_def)
next
  case None
  then show ?thesis
    unfolding getEffectiveDifficulty_offered best_offer by (cases "offered shared header p diffSourceDynamic") (simp_all add: Let_def)
qed

text \<open>Whatever a request's override header and the shared data contain, the difficulty of a challenge
  lies between the configured minimum and maximum, and the value cached from the shared data
  does too.\<close>

lemma getEffectiveDifficulty_bounds:
  assumes "diff_ok p"
  shows "case getEffectiveDifficulty shared header p of (p', d, src) \<Rightarrow>
     p_minDifficulty p \<le> d \<and> d \<le> p_maxDifficulty p \<and> diff_ok p'"
  using getEffectiveDifficulty_ok [OF assms, of shared header] by (auto split: prod.split)

definition example_plugin :: pluginContext where
  "example_plugin = NewPluginContext\<lparr>p_baseDifficulty := 18, p_minDifficulty := 12, p_maxDifficulty := 26\<rparr>"

lemma example_diff_ok: "diff_ok example_plugin"
  by (simp add: example_plugin_def NewPluginContext_def diff_ok_def diff_config_ok_def)

lemma getEffectiveDifficulty_bounds_example:
  "\<exists>p' d src. getEffectiveDifficulty (\<lambda>_. Some (bytes_of ''99'')) [] example_plugin = (p', d, src) \<and> d \<le> 26"
  using getEffectiveDifficulty_bounds [OF example_diff_ok, of "\<lambda>_. Some (bytes_of ''99'')" "[]"]
  by (auto simp: example_plugin_def NewPluginContext_def split: prod.splits)

text \<open>More pressure never lowers the difficulty: of two plugins with the same consistent settings,
  the one that issued at least as many challenges since its last tick has at least the difficulty
  of the other after it, and both are at least the base.\<close>

lemma OnTick_monotone:
  assumes "diff_ok p" and "same_diff_config p q" and "p_challengeCounter p \<le> p_challengeCounter q"
    and "unat (p_baseDifficulty p) + 6 < 2 ^ 64"
  shows "p_currentDiff (fst (OnTick ok p shared)) \<le> p_currentDiff (fst (OnTick ok' q shared'))
    \<and> p_baseDifficulty p \<le> p_currentDiff (fst (OnTick ok p shared))"
proof -
  let ?s = "\<lambda>c. p_baseDifficulty p + pressure_step c"
  have no: "unat (?s c) = unat (p_baseDifficulty p) + unat (pressure_step c)" for c
    using assms(4) pressure_step_le [of c] by (intro unat_add_lem [THEN iffD1]) simp
  have b: "p_baseDifficulty p \<le> ?s c" for c by (simp add: word_le_nat_alt no)
  have le: "?s (p_challengeCounter p) \<le> ?s (p_challengeCounter q)"
    using pressure_step_mono [OF assms(3)] by (simp add: word_le_nat_alt no)
  have mm: "p_minDifficulty p \<le> p_maxDifficulty p" "p_minDifficulty p \<le> p_baseDifficulty p"
    "p_baseDifficulty p \<le> p_maxDifficulty p"
    using assms(1) diff_bounds [of p] by (auto simp: diff_ok_def diff_config_ok_def)
  have base: "p_baseDifficulty p = clampDifficulty (p_baseDifficulty p) (p_minDifficulty p) (p_maxDifficulty p)"
    using mm by (simp add: clampDifficulty_id)
  show ?thesis
    using clampDifficulty_mono [OF mm(1) le] clampDifficulty_mono [OF mm(1) b [of "p_challengeCounter p"]] assms(2) base
    by (auto simp: OnTick_def Let_def same_diff_config_def)
qed

lemma OnTick_monotone_example:
  "p_currentDiff (fst (OnTick True example_plugin (\<lambda>_. None)))
    \<le> p_currentDiff (fst (OnTick False (example_plugin\<lparr>p_challengeCounter := 500\<rparr>) (\<lambda>_. None)))"
proof -
  have "same_diff_config example_plugin (example_plugin\<lparr>p_challengeCounter := 500\<rparr>)"
    by (simp add: same_diff_config_def)
  moreover have "p_challengeCounter example_plugin \<le> p_challengeCounter (example_plugin\<lparr>p_challengeCounter := 500\<rparr>)"
    "unat (p_baseDifficulty example_plugin) + 6 < 2 ^ 64"
    by (simp_all add: example_plugin_def NewPluginContext_def)
  ultimately show ?thesis using OnTick_monotone [OF example_diff_ok] by blast
qed

text \<open>C37: VMs agree through the shared data: after one VM's tick has published its difficulty, a VM with
  the same settings that has none of its own uses and caches the same one for a request without
  a valid override, provided the maximum fits in 32 bits.\<close>

theorem shared_difficulty_agrees:
  assumes "diff_ok p" and "same_diff_config p q" and "p_currentDiff q = 0"
    and "unat (p_maxDifficulty p) < 2 ^ 32" and "parse_difficulty header = None"
    and "OnTick True p shared = (p', shared')"
  shows "getEffectiveDifficulty shared' header q
    = (q\<lparr>p_currentDiff := p_currentDiff p'\<rparr>, p_currentDiff p', diffSourceDynamic)"
proof -
  let ?d = "p_currentDiff p'"
  have b: "p_minDifficulty p \<le> ?d" "?d \<le> p_maxDifficulty p" using OnTick_ok [OF assms(1,6)] by auto
  have "?d \<noteq> 0"
  proof
    assume "?d = 0"
    then have "1 \<le> (0 :: uint64)" using b(1) assms(1) by (auto simp: diff_ok_def diff_config_ok_def)
    then show False by simp
  qed
  moreover have "unat ?d < 2 ^ 32" using b(2) assms(4) by (simp add: word_le_nat_alt)
  ultimately have "parse_difficulty (FormatUint ?d) = Some ?d" by (rule parse_published)
  moreover have "shared' sharedKeyCurrentDifficulty = Some (bytes_of (FormatUint ?d))"
    using assms(6) by (auto simp: OnTick_def Let_def)
  moreover have "FormatUint ?d \<noteq> []" by (simp add: FormatUint_def)
  moreover have "clampDifficulty ?d (p_minDifficulty q) (p_maxDifficulty q) = ?d"
    using assms(2) b by (simp add: same_diff_config_def clampDifficulty_id)
  ultimately show ?thesis
    using assms(3,5) by (simp add: getEffectiveDifficulty_def Let_def)
qed

theorem shared_difficulty_agrees_witness:
  "\<exists>p' shared'. OnTick True example_plugin (\<lambda>_. None) = (p', shared')
     \<and> getEffectiveDifficulty shared' [] example_plugin
       = (example_plugin\<lparr>p_currentDiff := p_currentDiff p'\<rparr>, p_currentDiff p', diffSourceDynamic)"
proof -
  obtain p' shared' where o: "OnTick True example_plugin (\<lambda>_. None) = (p', shared')" by (metis surj_pair)
  have "parse_difficulty [] = None" by (simp add: parse_difficulty_def ParseUint_def)
  moreover have "same_diff_config example_plugin example_plugin" "p_currentDiff example_plugin = 0"
    "unat (p_maxDifficulty example_plugin) < 2 ^ 32"
    by (simp_all add: same_diff_config_def example_plugin_def NewPluginContext_def)
  ultimately show ?thesis using shared_difficulty_agrees [OF example_diff_ok _ _ _ _ o] o by blast
qed

text \<open>With inconsistent settings the bounds do not hold: a configured minimum of 30 and no maximum
  give a maximum of 26, and challenges of difficulty 30.\<close>

lemma inverted_bounds_exceed_maximum:
  "difficulty_config 18 30 0 = (26, 30, 26) \<and> clampDifficulty 26 30 26 = 30"
  by (simp add: difficulty_config_def clampDifficulty_def)

end
