(* ===== verification/Plugin.thy ===== *)
theory Plugin
  imports Cookies Difficulty
begin

text \<open>
  The plugin's handlers, \<^verbatim>\<open>src/main.go\<close>: start, request headers and response headers.

  \<^item> A handler takes the plugin's and the stream's state and returns them updated, together with
    what it asks the proxy to do: continue, answer locally, or nothing because the VM trapped
    (only a panic in the ipintel database does that).
  \<^item> \<open>gateway\<close> is what surrounds the handlers and does not change: \<open>strings.ToLower\<close> outside
    ASCII, the challenge page, and the surroundings of the ipintel database.
  \<^item> Logging is left out. The errors of \<open>AddHttpResponseHeader\<close> and \<open>SendHttpResponse\<close> are dropped
    by the code; the calls are returned in their order.
\<close>

section \<open>State and outcomes\<close>

record gateway =
  gw_lower :: "string \<Rightarrow> string"
  gw_content :: string
  gw_sys :: db_system
  gw_ipintelDB :: bytes

record httpHeaders =
  h_contextID :: "32 word"
  h_headerName :: string
  h_headerValue :: string
  h_ipintelDifficulty :: uint64
  h_issueClearance :: bool
  h_renewClearance :: bool
  h_client :: ClientContext
  h_secureCookie :: bool

definition NewHttpContext :: "pluginContext \<Rightarrow> 32 word \<Rightarrow> httpHeaders" where
  "NewHttpContext p contextID =
     \<lparr>h_contextID = contextID, h_headerName = p_headerName p, h_headerValue = p_headerValue p,
      h_ipintelDifficulty = 0, h_issueClearance = False, h_renewClearance = False,
      h_client = \<lparr>IP = [], ConnID = []\<rparr>, h_secureCookie = False\<rparr>"

record local_response =
  lr_status :: nat
  lr_headers :: "(string \<times> string) list"
  lr_body :: bytes

datatype outcome = Continue | Respond local_response | Trap

section \<open>Start\<close>

datatype start_status = OnPluginStartStatusOK | OnPluginStartStatusFailed

definition parse_client_ip_source :: "(string \<Rightarrow> string) \<Rightarrow> string \<Rightarrow> clientIPSource" where
  "parse_client_ip_source ul s =
     (let s = strings_ToLower ul (TrimSpace s)
      in if s = ''source_address'' \<or> s = ''peer'' \<or> s = ''source'' then ipSourcePeer else ipSourceAuto)"

text \<open>The settings computed from a configuration whose secret is accepted.\<close>

definition configure :: "'r gjson \<Rightarrow> gateway \<Rightarrow> bytes \<Rightarrow> string \<Rightarrow> pluginContext \<Rightarrow> pluginContext" where
  "configure gj gw data secretStr p =
     (let str = (\<lambda>path. gj_Str gj (gj_GetBytes gj data path));
          uint = (\<lambda>path. gj_Uint gj (gj_GetBytes gj data path));
          p = p\<lparr>p_secret := bytes_of secretStr, p_mac := hmac_New (bytes_of secretStr),
                p_headerName := TrimSpace (str ''header''), p_headerValue := TrimSpace (str ''value'')\<rparr>;
          (base, minD, maxD) = difficulty_config (uint ''base_difficulty'') (uint ''min_difficulty'')
                                 (uint ''max_difficulty'');
          p = p\<lparr>p_baseDifficulty := base, p_minDifficulty := minD, p_maxDifficulty := maxD\<rparr>;
          (window, ttl) = parseSlidingRenewalConfig gj data;
          p = p\<lparr>p_slidingRenewalTTL := window, p_renewalTTL := ttl,
                p_clientIPSource := parse_client_ip_source (gw_lower gw) (str ''client_ip_source'')\<rparr>;
          (db, mode, cats, target, enabled, ipProblems) =
            parseIPIntelConfig gj (gw_lower gw) (gw_sys gw) data (gw_ipintelDB gw);
          p = p\<lparr>p_ipintel := db, p_ipintelMode := mode, p_ipintelCats := cats, p_ipintelDiff := target,
                p_ipintelEnabled := enabled\<rparr>;
          (rules, protectAll, protectedProblems) = parseProtectedConfig gj (gw_lower gw) data
      in p\<lparr>p_protectedRules := rules, p_protectAll := protectAll\<rparr>)"

text \<open>\<open>config\<close> is the outcome of \<open>GetPluginConfiguration\<close>.\<close>

definition OnPluginStart ::
  "'r gjson \<Rightarrow> gateway \<Rightarrow> bytes option \<Rightarrow> pluginContext \<Rightarrow> pluginContext \<times> start_status" where
  "OnPluginStart gj gw config p =
     (case config of
        None \<Rightarrow> (p, OnPluginStartStatusFailed)
      | Some data \<Rightarrow>
          if data = [] then (p, OnPluginStartStatusFailed)
          else if \<not> gj_ValidBytes gj data then (p, OnPluginStartStatusFailed)
          else
            let secretStr = TrimSpace (gj_Str gj (gj_GetBytes gj data ''secret'')) in
            if secretStr = [] then (p, OnPluginStartStatusFailed)
            else if length secretStr < MinSecretLen then (p, OnPluginStartStatusFailed)
            else (configure gj gw data secretStr p, OnPluginStartStatusOK))"

section \<open>Request headers\<close>

definition protected_request :: "gateway \<Rightarrow> request \<Rightarrow> pluginContext \<Rightarrow> bool" where
  "protected_request gw req p \<longleftrightarrow>
     p_protectAll p
     \<or> matchProtectedRules (gw_lower gw) (p_protectedRules p)
         (header_or_empty req '':authority'') (header_or_empty req '':path'')"

text \<open>The three proofs a request can carry; the boolean says whether the request may continue.\<close>

definition try_clearance ::
  "request \<Rightarrow> string \<Rightarrow> pluginContext \<Rightarrow> httpHeaders \<Rightarrow> pluginContext \<times> httpHeaders \<times> bool" where
  "try_clearance req clearance p ctx =
     (if clearance = [] then (p, ctx, False)
      else
        let ip = resolveClientIP (p_clientIPSource p) req;
            (mac, parsed) = parseClearanceMAC (p_mac p) [] clearance ip;
            p = p\<lparr>p_mac := mac\<rparr>;
            now = req_clock req ClearanceClock
        in case parsed of
             Inl err \<Rightarrow> (p, ctx, False)
           | Inr expiry \<Rightarrow>
               if now \<le>s expiry then (p, ctx\<lparr>h_client := \<lparr>IP = ip, ConnID = []\<rparr>\<rparr>, True)
               else if shouldRenewClearance expiry now (p_slidingRenewalTTL p) then
                 (p, ctx\<lparr>h_client := \<lparr>IP = ip, ConnID = []\<rparr>, h_renewClearance := True,
                         h_secureCookie := requestIsHTTPS req\<rparr>, True)
               else (p, ctx, False))"

definition try_solution ::
  "request \<Rightarrow> clock_read \<Rightarrow> Solution \<Rightarrow> ClientContext \<Rightarrow> pluginContext \<Rightarrow> httpHeaders
   \<Rightarrow> pluginContext \<times> httpHeaders \<times> bool" where
  "try_solution req clock sol client p ctx =
     (let (mac, verifyErr) = verifySolutionMAC (req_clock req clock) (p_mac p) [] sol client;
          p = p\<lparr>p_mac := mac\<rparr>
      in if verifyErr = None
         then (p, ctx\<lparr>h_issueClearance := True, h_secureCookie := requestIsHTTPS req\<rparr>, True)
         else (p, ctx, False))"

definition try_cookies ::
  "request \<Rightarrow> challengeCookies \<Rightarrow> ClientContext \<Rightarrow> pluginContext \<Rightarrow> httpHeaders
   \<Rightarrow> pluginContext \<times> httpHeaders \<times> bool" where
  "try_cookies req cookies client p ctx =
     (if ck_challenge cookies \<noteq> [] \<and> ck_signature cookies \<noteq> [] \<and> ck_nonce cookies \<noteq> [] then
        (case ParseUint (ck_nonce cookies) 64 of
           Some nonce \<Rightarrow>
             try_solution req CookieClock
               \<lparr>Challenge = ck_challenge cookies, Signature = ck_signature cookies, Nonce = nonce\<rparr> client p ctx
         | None \<Rightarrow> (p, ctx, False))
      else (p, ctx, False))"

definition try_token ::
  "request \<Rightarrow> ClientContext \<Rightarrow> pluginContext \<Rightarrow> httpHeaders \<Rightarrow> pluginContext \<times> httpHeaders \<times> bool" where
  "try_token req client p ctx =
     (case req_header req ''challenge-token'' of
        None \<Rightarrow> (p, ctx, False)
      | Some token \<Rightarrow>
          if token = [] then (p, ctx, False)
          else (case Solution_Unmarshal token of
            Some sol \<Rightarrow> try_solution req TokenClock sol client p ctx
          | None \<Rightarrow> (p, ctx, False)))"

text \<open>The ipintel gate: \<open>None\<close> for a trap, else the decision and the elevated difficulty.\<close>

definition ipintel_gate :: "gateway \<Rightarrow> pluginContext \<Rightarrow> ClientContext \<Rightarrow> (ipintelDecision \<times> uint64) option" where
  "ipintel_gate gw p client =
     (if p_ipintelEnabled p
      then map_option (decideIPIntel (p_ipintelMode p) (p_ipintelCats p) (p_ipintelDiff p))
             (ipintelMatch (gw_sys gw) (p_ipintel p) (IP client))
      else Some (ipChallenge, 0))"

definition challenge_headers :: "SignedChallenge \<Rightarrow> bool \<Rightarrow> (string \<times> string) list" where
  "challenge_headers challenge secure =
     (let maxAge = ChallengeCookieMaxAge in
      [(''content-type'', ''text/html; charset=utf-8''),
       (''Set-Cookie'', setCookie ''challenge'' (Challenge challenge) maxAge False secure),
       (''Set-Cookie'', setCookie ''challenge-sig'' (Signature challenge) maxAge False secure),
       (''Set-Cookie'', clearCookie ''challenge-nonce'' secure),
       (''Set-Cookie'', clearCookie ''challenge-clearance'' secure),
       (''challenge-sig'', Signature challenge)])"

definition issue_challenge ::
  "gateway \<Rightarrow> shared_data \<Rightarrow> request \<Rightarrow> ClientContext \<Rightarrow> pluginContext \<Rightarrow> httpHeaders
   \<Rightarrow> pluginContext \<times> httpHeaders \<times> outcome" where
  "issue_challenge gw shared req client p ctx =
     (let ctx = ctx\<lparr>h_secureCookie := requestIsHTTPS req\<rparr>;
          (p, difficulty, source) = getEffectiveDifficulty shared (header_or_empty req ''x-challenge-difficulty'') p;
          difficulty = (if h_ipintelDifficulty ctx > 0
                        then clampDifficulty (h_ipintelDifficulty ctx) difficulty (p_maxDifficulty p)
                        else difficulty);
          (mac, challenge) = generateChallengeMAC (req_clock req IssueClock) (req_rand req) (p_mac p) [] difficulty client;
          p = p\<lparr>p_mac := mac\<rparr>
      in case challenge of
           Inl err \<Rightarrow> (p, ctx, Continue)
         | Inr challenge \<Rightarrow>
             (recordChallengeIssued p, ctx,
              Respond \<lparr>lr_status = 403, lr_headers = challenge_headers challenge (h_secureCookie ctx),
                       lr_body = bytes_of (gw_content gw)\<rparr>))"

definition gate_and_issue ::
  "gateway \<Rightarrow> shared_data \<Rightarrow> request \<Rightarrow> ClientContext \<Rightarrow> pluginContext \<Rightarrow> httpHeaders
   \<Rightarrow> pluginContext \<times> httpHeaders \<times> outcome" where
  "gate_and_issue gw shared req client p ctx =
     (case ipintel_gate gw p client of
        None \<Rightarrow> (p, ctx, Trap)
      | Some (ipPass, _) \<Rightarrow> (p, ctx, Continue)
      | Some (ipElevated, elev) \<Rightarrow> issue_challenge gw shared req client p (ctx\<lparr>h_ipintelDifficulty := elev\<rparr>)
      | Some (ipChallenge, _) \<Rightarrow> issue_challenge gw shared req client p ctx)"

definition OnHttpRequestHeaders ::
  "gateway \<Rightarrow> shared_data \<Rightarrow> request \<Rightarrow> pluginContext \<Rightarrow> httpHeaders
   \<Rightarrow> pluginContext \<times> httpHeaders \<times> outcome" where
  "OnHttpRequestHeaders gw shared req p ctx =
     (if \<not> protected_request gw req p then (p, ctx, Continue)
      else
        let cookies = parseChallengeCookies (header_or_empty req ''cookie'');
            (p, ctx, cleared) = try_clearance req (ck_clearance cookies) p ctx
        in if cleared then (p, ctx, Continue)
           else
             let client = resolveClientContext (p_clientIPSource p) req;
                 ctx = ctx\<lparr>h_client := client\<rparr>;
                 (p, ctx, solved) = try_cookies req cookies client p ctx
             in if solved then (p, ctx, Continue)
                else
                  let (p, ctx, solved) = try_token req client p ctx
                  in if solved then (p, ctx, Continue)
                     else gate_and_issue gw shared req client p ctx)"

section \<open>Response headers\<close>

text \<open>The clock and the random source at the two places where a response mints a clearance.\<close>

record mint_env =
  mint_clock :: int64
  mint_rand :: "nat \<Rightarrow> bytes option"

definition mint_issued ::
  "mint_env \<Rightarrow> pluginContext \<Rightarrow> httpHeaders \<Rightarrow> pluginContext \<times> (string \<times> string) list" where
  "mint_issued env p ctx =
     (if h_issueClearance ctx then
        (let (mac, token) = generateClearanceMAC (mint_clock env) (mint_rand env) (p_mac p) []
                              (ClearanceBind (h_client ctx));
             p = p\<lparr>p_mac := mac\<rparr>;
             secure = h_secureCookie ctx
         in case token of
              Inl err \<Rightarrow> (p, [])
            | Inr token \<Rightarrow>
                (p, [(''Set-Cookie'', setCookie ''challenge-clearance'' token ClearanceCookieMaxAge True secure),
                     (''Set-Cookie'', clearCookie ''challenge'' secure),
                     (''Set-Cookie'', clearCookie ''challenge-sig'' secure),
                     (''Set-Cookie'', clearCookie ''challenge-nonce'' secure)]))
      else (p, []))"

definition mint_renewed ::
  "mint_env \<Rightarrow> pluginContext \<Rightarrow> httpHeaders \<Rightarrow> pluginContext \<times> (string \<times> string) list" where
  "mint_renewed env p ctx =
     (if h_renewClearance ctx then
        (let (mac, token) = generateClearanceMAC (mint_clock env) (mint_rand env) (p_mac p) []
                              (ClearanceBind (h_client ctx));
             p = p\<lparr>p_mac := mac\<rparr>
         in case token of
              Inl err \<Rightarrow> (p, [])
            | Inr token \<Rightarrow>
                (p, [(''Set-Cookie'', setCookie ''challenge-clearance'' token (p_renewalTTL p) True (h_secureCookie ctx))]))
      else (p, []))"

definition OnHttpResponseHeaders ::
  "mint_env \<Rightarrow> mint_env \<Rightarrow> pluginContext \<Rightarrow> httpHeaders \<Rightarrow> pluginContext \<times> (string \<times> string) list" where
  "OnHttpResponseHeaders env env' p ctx =
     (let (p, issued) = mint_issued env p ctx;
          (p, renewed) = mint_renewed env' p ctx;
          configured = (if h_headerName ctx \<noteq> [] then [(h_headerName ctx, h_headerValue ctx)] else [])
      in (p, issued @ renewed @ configured))"

text \<open>\<open>OnHttpStreamDone\<close> does nothing.\<close>

definition OnHttpStreamDone :: "pluginContext \<Rightarrow> httpHeaders \<Rightarrow> pluginContext \<times> httpHeaders" where
  "OnHttpStreamDone p ctx = (p, ctx)"

end
