(* ===== verification/Admission.thy ===== *)
theory Admission
  imports Plugin
begin

text \<open>
  What the handlers of \<open>Plugin\<close> do: which requests may continue, when a clearance is minted, what a
  refused request is answered, and the invariant of the plugin's state.
\<close>

section \<open>The proofs a request can carry\<close>

definition request_cookies :: "request \<Rightarrow> challengeCookies" where
  "request_cookies req = parseChallengeCookies (header_or_empty req ''cookie'')"

abbreviation request_client :: "pluginContext \<Rightarrow> request \<Rightarrow> ClientContext" where
  "request_client p req \<equiv> resolveClientContext (p_clientIPSource p) req"

text \<open>A correctly signed clearance for the client's address, that has not expired or may be renewed.\<close>

definition parsed_clearance :: "pluginContext \<Rightarrow> request \<Rightarrow> err + int64" where
  "parsed_clearance p req =
     snd (parseClearanceMAC (p_mac p) [] (ck_clearance (request_cookies req)) (resolveClientIP (p_clientIPSource p) req))"

definition valid_clearance :: "pluginContext \<Rightarrow> request \<Rightarrow> bool" where
  "valid_clearance p req \<longleftrightarrow>
     (case parsed_clearance p req of Inl e \<Rightarrow> False | Inr expiry \<Rightarrow> req_clock req ClearanceClock \<le>s expiry)"

definition renewable_clearance :: "pluginContext \<Rightarrow> request \<Rightarrow> bool" where
  "renewable_clearance p req \<longleftrightarrow>
     (case parsed_clearance p req of Inl e \<Rightarrow> False
      | Inr expiry \<Rightarrow> shouldRenewClearance expiry (req_clock req ClearanceClock) (p_slidingRenewalTTL p))"

definition solves :: "pluginContext \<Rightarrow> request \<Rightarrow> clock_read \<Rightarrow> Solution \<Rightarrow> bool" where
  "solves p req clock sol \<longleftrightarrow>
     snd (verifySolutionMAC (req_clock req clock) (p_mac p) [] sol (request_client p req)) = None"

definition cookie_solution :: "pluginContext \<Rightarrow> request \<Rightarrow> bool" where
  "cookie_solution p req \<longleftrightarrow>
     (let cookies = request_cookies req in
      case ParseUint (ck_nonce cookies) 64 of
        None \<Rightarrow> False
      | Some nonce \<Rightarrow> solves p req CookieClock
          \<lparr>Challenge = ck_challenge cookies, Signature = ck_signature cookies, Nonce = nonce\<rparr>)"

definition token_solution :: "pluginContext \<Rightarrow> request \<Rightarrow> bool" where
  "token_solution p req \<longleftrightarrow>
     (let token = header_or_empty req ''challenge-token'' in
      token \<noteq> [] \<and> (case Solution_Unmarshal token of None \<Rightarrow> False | Some sol \<Rightarrow> solves p req TokenClock sol))"

section \<open>The digester is the only state a verification changes\<close>

definition same_but_mac :: "pluginContext \<Rightarrow> pluginContext \<Rightarrow> bool" where
  "same_but_mac p p' \<longleftrightarrow> p' = p\<lparr>p_mac := p_mac p'\<rparr> \<and> hmac_secret (p_mac p') = hmac_secret (p_mac p)"

lemma same_but_mac_refl [simp]: "same_but_mac p p"
  by (simp add: same_but_mac_def)

lemma same_but_mac_trans: "same_but_mac p q \<Longrightarrow> same_but_mac q r \<Longrightarrow> same_but_mac p r"
  unfolding same_but_mac_def by (metis pluginContext.update_convs(4) pluginContext.surjective pluginContext.select_convs(4))

lemma same_but_mac_fields:
  assumes "same_but_mac p p'"
  shows "p_clientIPSource p' = p_clientIPSource p" "p_slidingRenewalTTL p' = p_slidingRenewalTTL p"
    "p_ipintelEnabled p' = p_ipintelEnabled p" "p_ipintelMode p' = p_ipintelMode p"
    "p_ipintelCats p' = p_ipintelCats p" "p_ipintelDiff p' = p_ipintelDiff p" "p_ipintel p' = p_ipintel p"
    "hmac_secret (p_mac p') = hmac_secret (p_mac p)"
proof -
  have e: "p' = p\<lparr>p_mac := p_mac p'\<rparr>" and k: "hmac_secret (p_mac p') = hmac_secret (p_mac p)"
    using assms by (simp_all add: same_but_mac_def)
  show "p_clientIPSource p' = p_clientIPSource p" "p_slidingRenewalTTL p' = p_slidingRenewalTTL p"
    "p_ipintelEnabled p' = p_ipintelEnabled p" "p_ipintelMode p' = p_ipintelMode p"
    "p_ipintelCats p' = p_ipintelCats p" "p_ipintelDiff p' = p_ipintelDiff p" "p_ipintel p' = p_ipintel p"
    by (subst e, simp)+
  show "hmac_secret (p_mac p') = hmac_secret (p_mac p)" by (rule k)
qed

lemma solves_same: "same_but_mac p p' \<Longrightarrow> solves p' req clock sol = solves p req clock sol"
  using same_key_same_result(3) [of "p_mac p'" "p_mac p"]
  by (simp add: solves_def same_but_mac_fields)

lemma ipintel_gate_same: "same_but_mac p p' \<Longrightarrow> ipintel_gate gw p' client = ipintel_gate gw p client"
  by (simp add: ipintel_gate_def same_but_mac_fields)

section \<open>The three attempts\<close>

lemma parse_empty_clearance: "snd (parseClearanceMAC mac [] [] ip) = Inl ErrInvalidToken"
  by (simp add: parseClearanceMAC_eq Cut_notin)

lemma verify_empty: "Challenge sol = [] \<or> Signature sol = [] \<Longrightarrow> snd (verifySolutionMAC now mac [] sol cl) \<noteq> None"
  by (auto simp: verifySolutionMAC_eq)

lemma ParseUint_Nil [simp]: "ParseUint [] n = None"
  by (simp add: ParseUint_def)

text \<open>The stream's state after a valid and after a renewable clearance, and after a solution.\<close>

definition cleared_ctx :: "pluginContext \<Rightarrow> request \<Rightarrow> httpHeaders \<Rightarrow> httpHeaders" where
  "cleared_ctx p req ctx = ctx\<lparr>h_client := \<lparr>IP = IP (request_client p req), ConnID = []\<rparr>\<rparr>"

definition renewed_ctx :: "pluginContext \<Rightarrow> request \<Rightarrow> httpHeaders \<Rightarrow> httpHeaders" where
  "renewed_ctx p req ctx = (cleared_ctx p req ctx)\<lparr>h_renewClearance := True, h_secureCookie := requestIsHTTPS req\<rparr>"

definition solved_ctx :: "request \<Rightarrow> httpHeaders \<Rightarrow> httpHeaders" where
  "solved_ctx req ctx = ctx\<lparr>h_issueClearance := True, h_secureCookie := requestIsHTTPS req\<rparr>"

lemma same_but_mac_update: "hmac_secret mac = hmac_secret (p_mac p) \<Longrightarrow> same_but_mac p (p\<lparr>p_mac := mac\<rparr>)"
  by (simp add: same_but_mac_def)

lemma try_clearance_spec:
  "\<exists>q. same_but_mac p q \<and> try_clearance req (ck_clearance (request_cookies req)) p ctx =
     (q, if valid_clearance p req then cleared_ctx p req ctx
         else if renewable_clearance p req then renewed_ctx p req ctx else ctx,
      valid_clearance p req \<or> renewable_clearance p req)"
proof (cases "ck_clearance (request_cookies req) = []")
  case True
  then show ?thesis
    using parse_empty_clearance
    by (intro exI [of _ p])
      (simp add: try_clearance_def valid_clearance_def renewable_clearance_def parsed_clearance_def)
next
  case False
  let ?r = "parseClearanceMAC (p_mac p) [] (ck_clearance (request_cookies req)) (resolveClientIP (p_clientIPSource p) req)"
  obtain mac parsed where r: "?r = (mac, parsed)" by (cases ?r)
  then have "hmac_secret mac = hmac_secret (p_mac p)"
    using parseClearanceMAC_key [of "p_mac p" "[]"] by (metis fst_conv)
  from same_but_mac_update [OF this] show ?thesis
    using False r
    by (intro exI [of _ "p\<lparr>p_mac := mac\<rparr>"], cases parsed)
      (simp_all add: try_clearance_def valid_clearance_def renewable_clearance_def parsed_clearance_def
        cleared_ctx_def renewed_ctx_def resolveClientContext_def Let_def)
qed

lemma try_solution_spec:
  "\<exists>q. same_but_mac p q \<and> try_solution req clock sol (request_client p req) p ctx =
     (q, if solves p req clock sol then solved_ctx req ctx else ctx, solves p req clock sol)"
proof -
  let ?r = "verifySolutionMAC (req_clock req clock) (p_mac p) [] sol (request_client p req)"
  obtain mac err where r: "?r = (mac, err)" by (cases ?r)
  then have "hmac_secret mac = hmac_secret (p_mac p)"
    using verifySolutionMAC_key [of "req_clock req clock" "p_mac p" "[]"] by (metis fst_conv)
  from same_but_mac_update [OF this] show ?thesis
    using r by (intro exI [of _ "p\<lparr>p_mac := mac\<rparr>"]) (simp add: try_solution_def solves_def solved_ctx_def Let_def)
qed

lemma try_cookies_spec:
  "\<exists>q. same_but_mac p q \<and> try_cookies req (request_cookies req) (request_client p req) p ctx =
     (q, if cookie_solution p req then solved_ctx req ctx else ctx, cookie_solution p req)"
proof -
  let ?k = "request_cookies req"
  show ?thesis
  proof (cases "ck_challenge ?k \<noteq> [] \<and> ck_signature ?k \<noteq> [] \<and> ParseUint (ck_nonce ?k) 64 \<noteq> None")
    case True
    then obtain nonce where n: "ParseUint (ck_nonce ?k) 64 = Some nonce" "ck_nonce ?k \<noteq> []"
      by (cases "ck_nonce ?k = []") auto
    from try_solution_spec [of p req CookieClock "\<lparr>Challenge = ck_challenge ?k, Signature = ck_signature ?k, Nonce = nonce\<rparr>" ctx]
    show ?thesis using True n by (simp add: try_cookies_def cookie_solution_def Let_def)
  next
    case False
    then have "\<not> cookie_solution p req"
      using verify_empty by (auto simp: cookie_solution_def Let_def solves_def split: option.split)
    then show ?thesis using False by (intro exI [of _ p]) (auto simp: try_cookies_def)
  qed
qed

lemma try_token_spec:
  "\<exists>q. same_but_mac p q \<and> try_token req (request_client p req) p ctx =
     (q, if token_solution p req then solved_ctx req ctx else ctx, token_solution p req)"
proof -
  let ?t = "header_or_empty req ''challenge-token''"
  show ?thesis
  proof (cases "?t \<noteq> [] \<and> Solution_Unmarshal ?t \<noteq> None")
    case True
    then obtain sol where s: "Solution_Unmarshal ?t = Some sol" by blast
    obtain h where h: "req_header req ''challenge-token'' = Some h" "h = ?t"
      using True by (cases "req_header req ''challenge-token''") (auto simp: header_or_empty_def)
    from try_solution_spec [of p req TokenClock sol ctx] show ?thesis
      using True s h by (simp add: try_token_def token_solution_def)
  next
    case False
    then show ?thesis
      by (intro exI [of _ p]) (auto simp: try_token_def token_solution_def Let_def header_or_empty_def split: option.splits)
  qed
qed

section \<open>The interface of an attempt\<close>

text \<open>What the handler relies on: an attempt to find a proof in a request says whether there is one, changes
  the stream's state accordingly, and of the plugin's state only the digester. The verdict does not
  depend on what earlier attempts have done to the digester.\<close>

locale attempt =
  fixes p0 :: pluginContext
    and tries :: "pluginContext \<Rightarrow> httpHeaders \<Rightarrow> pluginContext \<times> httpHeaders \<times> bool"
    and holds :: bool
    and effect :: "httpHeaders \<Rightarrow> httpHeaders"
  assumes outcome: "same_but_mac p0 p \<Longrightarrow>
    \<exists>q. same_but_mac p0 q \<and> tries p ctx = (q, if holds then effect ctx else ctx, holds)"

definition or_else ::
  "(pluginContext \<Rightarrow> httpHeaders \<Rightarrow> pluginContext \<times> httpHeaders \<times> bool)
   \<Rightarrow> (pluginContext \<Rightarrow> httpHeaders \<Rightarrow> pluginContext \<times> httpHeaders \<times> bool)
   \<Rightarrow> pluginContext \<Rightarrow> httpHeaders \<Rightarrow> pluginContext \<times> httpHeaders \<times> bool" where
  "or_else t1 t2 p ctx = (let (p, ctx, ok) = t1 p ctx in if ok then (p, ctx, True) else t2 p ctx)"

text \<open>One attempt and, where it fails, another is an attempt.\<close>

locale two_attempts =
  one: attempt p0 t1 h1 e1 + two: attempt p0 t2 h2 e2 for p0 t1 h1 e1 t2 h2 e2

sublocale two_attempts \<subseteq> both: attempt p0 "or_else t1 t2" "h1 \<or> h2" "\<lambda>ctx. if h1 then e1 ctx else e2 ctx"
proof
  fix p ctx assume "same_but_mac p0 p"
  then obtain q where q: "same_but_mac p0 q" "t1 p ctx = (q, if h1 then e1 ctx else ctx, h1)"
    using one.outcome by blast
  then show "\<exists>q. same_but_mac p0 q \<and> or_else t1 t2 p ctx = (q, if h1 \<or> h2 then if h1 then e1 ctx else e2 ctx else ctx, h1 \<or> h2)"
    using two.outcome [OF q(1), of ctx] by (cases h1) (auto simp: or_else_def)
qed

text \<open>The three attempts of the handler, for a plugin and a request.\<close>

lemma parsed_clearance_same:
  assumes "same_but_mac p q"
  shows "parsed_clearance q req = parsed_clearance p req"
  unfolding parsed_clearance_def parseClearanceMAC_eq same_but_mac_fields(1,8) [OF assms] by (rule refl)

lemma proofs_same:
  assumes "same_but_mac p q"
  shows "valid_clearance q req = valid_clearance p req" "renewable_clearance q req = renewable_clearance p req"
    "cookie_solution q req = cookie_solution p req" "token_solution q req = token_solution p req"
    "cleared_ctx q req = cleared_ctx p req" "renewed_ctx q req = renewed_ctx p req"
  unfolding valid_clearance_def renewable_clearance_def cookie_solution_def token_solution_def
    cleared_ctx_def renewed_ctx_def parsed_clearance_same [OF assms] solves_same [OF assms] same_but_mac_fields [OF assms]
  by (rule refl)+

interpretation clearance: attempt p "try_clearance req (ck_clearance (request_cookies req))"
  "valid_clearance p req \<or> renewable_clearance p req"
  "\<lambda>ctx. if valid_clearance p req then cleared_ctx p req ctx else renewed_ctx p req ctx" for p req
proof
  fix q ctx assume q: "same_but_mac p q"
  show "\<exists>r. same_but_mac p r \<and> try_clearance req (ck_clearance (request_cookies req)) q ctx =
      (r, if valid_clearance p req \<or> renewable_clearance p req
          then if valid_clearance p req then cleared_ctx p req ctx else renewed_ctx p req ctx else ctx,
       valid_clearance p req \<or> renewable_clearance p req)"
    using try_clearance_spec [of q req ctx] same_but_mac_trans [OF q] by (auto simp: proofs_same [OF q])
qed

interpretation solution: two_attempts p
  "try_cookies req (request_cookies req) (request_client p req)" "cookie_solution p req" "solved_ctx req"
  "try_token req (request_client p req)" "token_solution p req" "solved_ctx req" for p req
proof
  fix q ctx assume q: "same_but_mac p q"
  note c = same_but_mac_fields(1) [OF q]
  show "\<exists>r. same_but_mac p r \<and> try_cookies req (request_cookies req) (request_client p req) q ctx =
      (r, if cookie_solution p req then solved_ctx req ctx else ctx, cookie_solution p req)"
    using try_cookies_spec [of q req ctx] same_but_mac_trans [OF q] by (auto simp: proofs_same [OF q] c)
  show "\<exists>r. same_but_mac p r \<and> try_token req (request_client p req) q ctx =
      (r, if token_solution p req then solved_ctx req ctx else ctx, token_solution p req)"
    using try_token_spec [of q req ctx] same_but_mac_trans [OF q] by (auto simp: proofs_same [OF q] c)
qed

text \<open>The whole handler, in terms of the proofs the request carries.\<close>

lemma OnHttpRequestHeaders_attempts:
  "OnHttpRequestHeaders gw shared req p ctx =
     (if \<not> protected_request gw req p then (p, ctx, Continue)
      else case try_clearance req (ck_clearance (request_cookies req)) p ctx of (p1, ctx1, cleared) \<Rightarrow>
        if cleared then (p1, ctx1, Continue)
        else case or_else (try_cookies req (request_cookies req) (request_client p1 req)) (try_token req (request_client p1 req))
            p1 (ctx1\<lparr>h_client := request_client p1 req\<rparr>) of (p2, ctx2, solved) \<Rightarrow>
          if solved then (p2, ctx2, Continue) else gate_and_issue gw shared req (request_client p1 req) p2 ctx2)"
  by (auto simp: OnHttpRequestHeaders_def request_cookies_def or_else_def Let_def split: prod.split)

lemma OnHttpRequestHeaders_cases:
  "\<exists>q. same_but_mac p q \<and>
     OnHttpRequestHeaders gw shared req p ctx =
     (if \<not> protected_request gw req p then (p, ctx, Continue)
      else if valid_clearance p req then (q, cleared_ctx p req ctx, Continue)
      else if renewable_clearance p req then (q, renewed_ctx p req ctx, Continue)
      else if cookie_solution p req \<or> token_solution p req then
        (q, solved_ctx req (ctx\<lparr>h_client := request_client p req\<rparr>), Continue)
      else gate_and_issue gw shared req (request_client p req) q (ctx\<lparr>h_client := request_client p req\<rparr>))"
proof -
  let ?x = "ctx\<lparr>h_client := request_client p req\<rparr>"
  obtain p1 where p1: "same_but_mac p p1"
    and c: "try_clearance req (ck_clearance (request_cookies req)) p ctx =
      (p1, if valid_clearance p req \<or> renewable_clearance p req
           then if valid_clearance p req then cleared_ctx p req ctx else renewed_ctx p req ctx else ctx,
       valid_clearance p req \<or> renewable_clearance p req)"
    using clearance.outcome [OF same_but_mac_refl] by blast
  obtain p2 where p2: "same_but_mac p p2"
    and s: "or_else (try_cookies req (request_cookies req) (request_client p req)) (try_token req (request_client p req)) p1 ?x =
      (p2, if cookie_solution p req \<or> token_solution p req
           then if cookie_solution p req then solved_ctx req ?x else solved_ctx req ?x else ?x,
       cookie_solution p req \<or> token_solution p req)"
    using solution.both.outcome [OF p1] by blast
  note k = same_but_mac_fields(1) [OF p1]
  show ?thesis
  proof (cases "valid_clearance p req \<or> renewable_clearance p req")
    case True
    then show ?thesis using p1 unfolding OnHttpRequestHeaders_attempts c by (intro exI [of _ p1]) auto
  next
    case False
    then show ?thesis using p2 s k unfolding OnHttpRequestHeaders_attempts c by (intro exI [of _ p2]) simp
  qed
qed

definition by_proofs ::
  "gateway \<Rightarrow> shared_data \<Rightarrow> request \<Rightarrow> pluginContext \<Rightarrow> pluginContext \<Rightarrow> httpHeaders
   \<Rightarrow> pluginContext \<times> httpHeaders \<times> outcome" where
  "by_proofs gw shared req p q ctx =
     (if \<not> protected_request gw req p then (p, ctx, Continue)
      else if valid_clearance p req then (q, cleared_ctx p req ctx, Continue)
      else if renewable_clearance p req then (q, renewed_ctx p req ctx, Continue)
      else if cookie_solution p req \<or> token_solution p req then
        (q, solved_ctx req (ctx\<lparr>h_client := request_client p req\<rparr>), Continue)
      else gate_and_issue gw shared req (request_client p req) q (ctx\<lparr>h_client := request_client p req\<rparr>))"

lemma OnHttpRequestHeaders_by_proofs:
  "\<exists>q. same_but_mac p q \<and> OnHttpRequestHeaders gw shared req p ctx = by_proofs gw shared req p q ctx"
  unfolding by_proofs_def by (rule OnHttpRequestHeaders_cases)

section \<open>Issuing a challenge\<close>

lemma getEffectiveDifficulty_mac:
  "getEffectiveDifficulty shared h p = (p', d, src) \<Longrightarrow> p_mac p' = p_mac p \<and> p_challengeCounter p' = p_challengeCounter p
    \<and> p_secret p' = p_secret p \<and> p_maxDifficulty p' = p_maxDifficulty p"
  by (auto simp: getEffectiveDifficulty_def Let_def split: if_splits option.splits)

text \<open>The difficulty of the challenge a request is answered with.\<close>

definition challenge_difficulty :: "shared_data \<Rightarrow> request \<Rightarrow> pluginContext \<Rightarrow> uint64 \<Rightarrow> uint64" where
  "challenge_difficulty shared req p elevated =
     (case getEffectiveDifficulty shared (header_or_empty req ''x-challenge-difficulty'') p of
        (p', d, src) \<Rightarrow> if elevated > 0 then clampDifficulty elevated d (p_maxDifficulty p) else d)"

lemma issue_challenge_spec:
  "case issue_challenge gw shared req client p ctx of (p', ctx', out) \<Rightarrow>
     hmac_secret (p_mac p') = hmac_secret (p_mac p) \<and> ctx' = ctx\<lparr>h_secureCookie := requestIsHTTPS req\<rparr> \<and>
     (case req_rand req 32 of
        None \<Rightarrow> out = Continue \<and> p_challengeCounter p' = p_challengeCounter p
      | Some salt \<Rightarrow> p_challengeCounter p' = p_challengeCounter p + 1 \<and>
          out = Respond \<lparr>lr_status = 403,
             lr_headers = challenge_headers (issued_challenge (hmac_secret (p_mac p)) (req_clock req IssueClock) salt
                 (challenge_difficulty shared req p (h_ipintelDifficulty ctx)) client) (requestIsHTTPS req),
             lr_body = bytes_of (gw_content gw)\<rparr>)"
proof -
  let ?h = "header_or_empty req ''x-challenge-difficulty''"
  obtain p1 d src where g: "getEffectiveDifficulty shared ?h p = (p1, d, src)" by (metis prod_cases3)
  note m = getEffectiveDifficulty_mac [OF g]
  let ?d = "challenge_difficulty shared req p (h_ipintelDifficulty ctx)"
  let ?r = "generateChallengeMAC (req_clock req IssueClock) (req_rand req) (p_mac p) [] ?d client"
  have k: "hmac_secret (fst ?r) = hmac_secret (p_mac p)" by simp
  obtain mac ch where r: "?r = (mac, ch)" by (cases ?r)
  have ch: "ch = (case req_rand req 32 of None \<Rightarrow> Inl ErrRandom
      | Some salt \<Rightarrow> Inr (issued_challenge (hmac_secret (p_mac p)) (req_clock req IssueClock) salt ?d client))"
    using generate_sum_tag(1) [of "req_clock req IssueClock" "req_rand req" "p_mac p" ?d client] r by simp
  have d: "?d = (if h_ipintelDifficulty ctx > 0 then clampDifficulty (h_ipintelDifficulty ctx) d (p_maxDifficulty p1) else d)"
    using g m by (simp add: challenge_difficulty_def)
  have "issue_challenge gw shared req client p ctx =
     (case ch of
           Inl err \<Rightarrow> (p1\<lparr>p_mac := mac\<rparr>, ctx\<lparr>h_secureCookie := requestIsHTTPS req\<rparr>, Continue)
         | Inr challenge \<Rightarrow>
             (recordChallengeIssued (p1\<lparr>p_mac := mac\<rparr>), ctx\<lparr>h_secureCookie := requestIsHTTPS req\<rparr>,
              Respond \<lparr>lr_status = 403, lr_headers = challenge_headers challenge (requestIsHTTPS req),
                       lr_body = bytes_of (gw_content gw)\<rparr>))"
  proof (cases "h_ipintelDifficulty ctx > 0")
    case True
    then show ?thesis using g m r d by (simp add: issue_challenge_def Let_def)
  next
    case False
    then show ?thesis using g m r d by (simp add: issue_challenge_def Let_def)
  qed
  then show ?thesis
    using k r ch m by (auto simp: recordChallengeIssued_def split: option.split)
qed

lemma getEffectiveDifficulty_update:
  "getEffectiveDifficulty shared h (p\<lparr>p_mac := m\<rparr>) =
     (case getEffectiveDifficulty shared h p of (p', d, src) \<Rightarrow> (p'\<lparr>p_mac := m\<rparr>, d, src))"
  by (auto simp: getEffectiveDifficulty_def Let_def split: option.split)

lemma challenge_difficulty_update:
  "challenge_difficulty shared req (p\<lparr>p_mac := m\<rparr>) e = challenge_difficulty shared req p e"
  by (simp add: challenge_difficulty_def getEffectiveDifficulty_update split: prod.split)

lemma challenge_difficulty_same:
  assumes "same_but_mac p q"
  shows "challenge_difficulty shared req q e = challenge_difficulty shared req p e"
proof -
  have "q = p\<lparr>p_mac := p_mac q\<rparr>" using assms by (simp add: same_but_mac_def)
  then show ?thesis by (subst \<open>q = _\<close>) (rule challenge_difficulty_update)
qed

lemma continue_iff:
  "snd (snd (OnHttpRequestHeaders gw shared req p ctx)) = Continue \<longleftrightarrow>
     (if protected_request gw req p
      then valid_clearance p req \<or> renewable_clearance p req \<or> cookie_solution p req \<or> token_solution p req
        \<or> (case ipintel_gate gw p (request_client p req) of
             None \<Rightarrow> False
           | Some (decision, d) \<Rightarrow> decision = ipPass \<or> req_rand req 32 = None)
      else True)"
proof -
  obtain q where q: "same_but_mac p q" and h: "OnHttpRequestHeaders gw shared req p ctx = by_proofs gw shared req p q ctx"
    using OnHttpRequestHeaders_by_proofs by blast
  note h = h [unfolded by_proofs_def]
  have i: "snd (snd (issue_challenge gw shared req c q x)) = Continue \<longleftrightarrow> req_rand req 32 = None" for c x
    using issue_challenge_spec [where gw = gw and shared = shared and req = req and client = c and p = q and ctx = x] by (auto split: prod.splits option.splits)
  have "snd (snd (gate_and_issue gw shared req (request_client p req) q x)) = Continue \<longleftrightarrow>
      (case ipintel_gate gw p (request_client p req) of None \<Rightarrow> False
       | Some (decision, d) \<Rightarrow> decision = ipPass \<or> req_rand req 32 = None)" for x
    using i ipintel_gate_same [OF q]
    by (auto simp: gate_and_issue_def split: option.split prod.split ipintelDecision.split)
  then show ?thesis unfolding h by auto
qed

section \<open>Properties\<close>

text \<open>C5: Admission. A request to a protected resource continues exactly if it carries a valid or
  renewable clearance, a solution in its cookies or in its token header, or if the ipintel gate
  passes its address, or, where the gate does not pass it, the random source fails (the code
  fails open then); a request to an unprotected resource always continues.\<close>

theorem admission_iff:
  "snd (snd (OnHttpRequestHeaders gw shared req p ctx)) = Continue \<longleftrightarrow>
     (if protected_request gw req p
      then valid_clearance p req \<or> renewable_clearance p req \<or> cookie_solution p req \<or> token_solution p req
        \<or> (case ipintel_gate gw p (request_client p req) of
             None \<Rightarrow> False
           | Some (decision, d) \<Rightarrow> decision = ipPass \<or> req_rand req 32 = None)
      else True)"
  by (rule continue_iff)

text \<open>The token a response mints, and the headers it adds for it.\<close>

definition minted_token :: "bytes \<Rightarrow> int64 \<Rightarrow> bytes \<Rightarrow> string \<Rightarrow> string" where
  "minted_token k now salt ip =
     (let body = encodeClearanceBody (now + ClearanceLifetime) salt ip
      in body @ CHR ''.'' # b64_encode (hmac_sha256 k (bytes_of body)))"

lemma generateClearanceMAC_minted:
  "snd (generateClearanceMAC now rnd mac [] ip) =
     (case rnd 16 of None \<Rightarrow> Inl ErrRandom | Some salt \<Rightarrow> Inr (minted_token (hmac_secret mac) now salt ip))"
  by (simp add: generate_sum_tag(2) minted_token_def Let_def split: option.split)

definition issued_headers :: "string \<Rightarrow> bool \<Rightarrow> (string \<times> string) list" where
  "issued_headers token secure =
     [(''Set-Cookie'', setCookie ''challenge-clearance'' token 1800 True secure),
      (''Set-Cookie'', clearCookie ''challenge'' secure),
      (''Set-Cookie'', clearCookie ''challenge-sig'' secure),
      (''Set-Cookie'', clearCookie ''challenge-nonce'' secure)]"

lemma OnHttpResponseHeaders_eq:
  "snd (OnHttpResponseHeaders env env' p ctx) =
     (if h_issueClearance ctx then
        (case mint_rand env 16 of None \<Rightarrow> []
         | Some salt \<Rightarrow> issued_headers (minted_token (hmac_secret (p_mac p)) (mint_clock env) salt (IP (h_client ctx)))
                          (h_secureCookie ctx))
      else [])
     @ (if h_renewClearance ctx then
        (case mint_rand env' 16 of None \<Rightarrow> []
         | Some salt \<Rightarrow> [(''Set-Cookie'', setCookie ''challenge-clearance''
             (minted_token (hmac_secret (p_mac p)) (mint_clock env') salt (IP (h_client ctx)))
             (p_renewalTTL p) True (h_secureCookie ctx))])
      else [])
     @ (if h_headerName ctx \<noteq> [] then [(h_headerName ctx, h_headerValue ctx)] else [])"
proof -
  let ?g = "generateClearanceMAC (mint_clock env) (mint_rand env) (p_mac p) [] (IP (h_client ctx))"
  obtain mac tok where g: "?g = (mac, tok)" by (cases ?g)
  have k: "hmac_secret mac = hmac_secret (p_mac p)"
    using generateClearanceMAC_key [of "mint_clock env" "mint_rand env" "p_mac p"] g by (metis fst_conv)
  have t: "tok = (case mint_rand env 16 of None \<Rightarrow> Inl ErrRandom
      | Some salt \<Rightarrow> Inr (minted_token (hmac_secret (p_mac p)) (mint_clock env) salt (IP (h_client ctx))))"
    using generateClearanceMAC_minted [of "mint_clock env" "mint_rand env" "p_mac p" "IP (h_client ctx)"] g by simp
  have i: "mint_issued env p ctx = (if h_issueClearance ctx then p\<lparr>p_mac := mac\<rparr> else p,
      if h_issueClearance ctx then (case mint_rand env 16 of None \<Rightarrow> []
         | Some salt \<Rightarrow> issued_headers (minted_token (hmac_secret (p_mac p)) (mint_clock env) salt (IP (h_client ctx)))
                          (h_secureCookie ctx)) else [])"
    using g t by (auto simp: mint_issued_def ClearanceBind_def issued_headers_def ClearanceCookieMaxAge_def
        ClearanceLifetime_def Let_def split: option.split)
  have r: "snd (mint_renewed env' q ctx) = (if h_renewClearance ctx then
        (case mint_rand env' 16 of None \<Rightarrow> []
         | Some salt \<Rightarrow> [(''Set-Cookie'', setCookie ''challenge-clearance''
             (minted_token (hmac_secret (p_mac q)) (mint_clock env') salt (IP (h_client ctx)))
             (p_renewalTTL q) True (h_secureCookie ctx))]) else [])" for q
    using generateClearanceMAC_minted [of "mint_clock env'" "mint_rand env'" "p_mac q" "IP (h_client ctx)"]
    by (auto simp: mint_renewed_def ClearanceBind_def split: prod.split option.splits)
  show ?thesis
    using r [of p] r [of "p\<lparr>p_mac := mac\<rparr>"] k
    by (cases "h_issueClearance ctx") (simp_all add: OnHttpResponseHeaders_def i Let_def case_prod_unfold cong: option.case_cong)
qed

text \<open>The headers a response adds for a request \<open>req\<close> that plugin \<open>p\<close> handled: a clearance, and the
  configured header. The response itself is handled in state \<open>q\<close>.\<close>

definition granted_headers ::
  "gateway \<Rightarrow> pluginContext \<Rightarrow> pluginContext \<Rightarrow> request \<Rightarrow> mint_env \<Rightarrow> mint_env \<Rightarrow> (string \<times> string) list" where
  "granted_headers gw p q req env env' =
     (if protected_request gw req p \<and> \<not> valid_clearance p req then
        (if renewable_clearance p req then
           (case mint_rand env' 16 of None \<Rightarrow> []
            | Some salt \<Rightarrow> [(''Set-Cookie'', setCookie ''challenge-clearance''
                (minted_token (hmac_secret (p_mac q)) (mint_clock env') salt (IP (request_client p req)))
                (p_renewalTTL q) True (requestIsHTTPS req))])
         else if cookie_solution p req \<or> token_solution p req then
           (case mint_rand env 16 of None \<Rightarrow> []
            | Some salt \<Rightarrow> issued_headers
                (minted_token (hmac_secret (p_mac q)) (mint_clock env) salt (IP (request_client p req)))
                (requestIsHTTPS req))
         else [])
      else [])"

definition configured_headers :: "pluginContext \<Rightarrow> (string \<times> string) list" where
  "configured_headers p = (if p_headerName p \<noteq> [] then [(p_headerName p, p_headerValue p)] else [])"

lemma response_to_request:
  "case OnHttpRequestHeaders gw shared req p (NewHttpContext p cid) of (p', ctx, out) \<Rightarrow>
     snd (OnHttpResponseHeaders env env' q ctx) = granted_headers gw p q req env env' @ configured_headers p"
proof -
  let ?n = "NewHttpContext p cid"
  obtain r where r: "same_but_mac p r" and h: "OnHttpRequestHeaders gw shared req p ?n = by_proofs gw shared req p r ?n"
    using OnHttpRequestHeaders_by_proofs by blast
  note h = h [unfolded by_proofs_def]
  have "h_issueClearance (fst (snd (issue_challenge gw shared req c r x))) = h_issueClearance x
      \<and> h_renewClearance (fst (snd (issue_challenge gw shared req c r x))) = h_renewClearance x
      \<and> h_headerName (fst (snd (issue_challenge gw shared req c r x))) = h_headerName x
      \<and> h_headerValue (fst (snd (issue_challenge gw shared req c r x))) = h_headerValue x" for c x
    using issue_challenge_spec [where gw = gw and shared = shared and req = req and client = c and p = r and ctx = x]
    by (auto split: prod.splits)
  then have g: "h_issueClearance (fst (snd (gate_and_issue gw shared req c r x))) = h_issueClearance x
      \<and> h_renewClearance (fst (snd (gate_and_issue gw shared req c r x))) = h_renewClearance x
      \<and> h_headerName (fst (snd (gate_and_issue gw shared req c r x))) = h_headerName x
      \<and> h_headerValue (fst (snd (gate_and_issue gw shared req c r x))) = h_headerValue x" for c x
    by (auto simp: gate_and_issue_def split: option.split ipintelDecision.split)
  show ?thesis
    unfolding h using g [of "request_client p req" "?n\<lparr>h_client := request_client p req\<rparr>"]
    by (auto simp: OnHttpResponseHeaders_eq granted_headers_def configured_headers_def cleared_ctx_def renewed_ctx_def solved_ctx_def NewHttpContext_def
        split: prod.split option.split)
qed

text \<open>C15: A clearance is minted for a proof and for nothing else. The response to a request on a fresh
  stream carries a new clearance for the request's own address, lasting thirty minutes and with
  the solve cookies cleared, exactly if the request was admitted by a solution; it carries a
  renewed one exactly if it was admitted by a renewable clearance; beyond that only the configured
  header is added. The response may be handled in any later state of the plugin.\<close>

theorem clearance_minted_only_for_proof:
  "case OnHttpRequestHeaders gw shared req p (NewHttpContext p cid) of (p', ctx, out) \<Rightarrow>
     snd (OnHttpResponseHeaders env env' q ctx) =
       (if protected_request gw req p \<and> \<not> valid_clearance p req then
          (if renewable_clearance p req then
             (case mint_rand env' 16 of None \<Rightarrow> []
              | Some salt \<Rightarrow> [(''Set-Cookie'', setCookie ''challenge-clearance''
                  (minted_token (hmac_secret (p_mac q)) (mint_clock env') salt (IP (request_client p req)))
                  (p_renewalTTL q) True (requestIsHTTPS req))])
           else if cookie_solution p req \<or> token_solution p req then
             (case mint_rand env 16 of None \<Rightarrow> []
              | Some salt \<Rightarrow> issued_headers
                  (minted_token (hmac_secret (p_mac q)) (mint_clock env) salt (IP (request_client p req)))
                  (requestIsHTTPS req))
           else [])
        else [])
       @ (if p_headerName p \<noteq> [] then [(p_headerName p, p_headerValue p)] else [])"
  using response_to_request [where gw = gw and shared = shared and req = req and p = p and cid = cid
      and env = env and env' = env' and q = q]
  by (simp only: granted_headers_def configured_headers_def)

lemma challenge_difficulty_ok:
  assumes "diff_ok p"
  shows "p_minDifficulty p \<le> challenge_difficulty shared req p e \<and> challenge_difficulty shared req p e \<le> p_maxDifficulty p"
proof -
  obtain p1 d1 src where g: "getEffectiveDifficulty shared (header_or_empty req ''x-challenge-difficulty'') p = (p1, d1, src)"
    by (metis prod_cases3)
  have "p_minDifficulty p \<le> d1" "d1 \<le> p_maxDifficulty p" using getEffectiveDifficulty_ok [OF assms g] by auto
  then show ?thesis using g clampDifficulty_bounds [of d1 "p_maxDifficulty p" e]
    by (auto simp: challenge_difficulty_def intro: order.trans)
qed

lemma refused_spec:
  assumes "diff_ok p"
  shows "case OnHttpRequestHeaders gw shared req p ctx of (p', ctx', out) \<Rightarrow>
     (case out of
        Respond r \<Rightarrow> p_challengeCounter p' = p_challengeCounter p + 1 \<and> lr_status r = 403
          \<and> lr_body r = bytes_of (gw_content gw)
          \<and> (\<exists>salt d. lr_headers r = challenge_headers (issued_challenge (hmac_secret (p_mac p))
                 (req_clock req IssueClock) salt d (request_client p req)) (requestIsHTTPS req)
               \<and> p_minDifficulty p \<le> d \<and> d \<le> p_maxDifficulty p)
      | _ \<Rightarrow> p_challengeCounter p' = p_challengeCounter p)"
proof -
  obtain q where q: "same_but_mac p q" and h: "OnHttpRequestHeaders gw shared req p ctx = by_proofs gw shared req p q ctx"
    using OnHttpRequestHeaders_by_proofs by blast
  note h = h [unfolded by_proofs_def]
  have cnt: "p_challengeCounter q = p_challengeCounter p" and key: "hmac_secret (p_mac q) = hmac_secret (p_mac p)"
    using q by (simp_all add: same_but_mac_def) (metis pluginContext.select_convs pluginContext.surjective pluginContext.update_convs)
  note d = challenge_difficulty_ok [OF assms]
  have i: "case issue_challenge gw shared req c q x of (p', ctx', out) \<Rightarrow>
     (case out of
        Respond r \<Rightarrow> p_challengeCounter p' = p_challengeCounter p + 1 \<and> lr_status r = 403
          \<and> lr_body r = bytes_of (gw_content gw)
          \<and> (\<exists>salt d. lr_headers r = challenge_headers (issued_challenge (hmac_secret (p_mac p))
                 (req_clock req IssueClock) salt d c) (requestIsHTTPS req)
               \<and> p_minDifficulty p \<le> d \<and> d \<le> p_maxDifficulty p)
      | _ \<Rightarrow> p_challengeCounter p' = p_challengeCounter p)" for c x
    using issue_challenge_spec [where gw = gw and shared = shared and req = req and client = c and p = q and ctx = x]
      cnt key d [of shared req "h_ipintelDifficulty x"] challenge_difficulty_same [OF q]
    by (auto split: prod.splits option.splits)
  show ?thesis
    unfolding h using i cnt
    by (auto simp: gate_and_issue_def split: option.split ipintelDecision.split)
qed

text \<open>C14: What a refused request is answered: status 403, the challenge page, and a challenge signed for
  the request's client in cookies and header, after which the counter of issued challenges is one
  higher; its difficulty lies between the configured bounds, also when the ipintel gate elevates
  it. In all other outcomes the counter is unchanged.\<close>

theorem refused_request_is_challenged:
  assumes "diff_ok p"
  shows "case OnHttpRequestHeaders gw shared req p ctx of (p', ctx', out) \<Rightarrow>
     (case out of
        Respond r \<Rightarrow> p_challengeCounter p' = p_challengeCounter p + 1 \<and> lr_status r = 403
          \<and> lr_body r = bytes_of (gw_content gw)
          \<and> (\<exists>salt d. lr_headers r = challenge_headers (issued_challenge (hmac_secret (p_mac p))
                 (req_clock req IssueClock) salt d (request_client p req)) (requestIsHTTPS req)
               \<and> p_minDifficulty p \<le> d \<and> d \<le> p_maxDifficulty p)
      | _ \<Rightarrow> p_challengeCounter p' = p_challengeCounter p)"
  by (rule refused_spec [OF assms])

definition example_request :: request where
  "example_request = \<lparr>req_header = (\<lambda>_. None), req_property = (\<lambda>_. None), req_clock = (\<lambda>_. 1000),
     req_rand = (\<lambda>n. Some (replicate n 0))\<rparr>"

definition example_gateway :: gateway where
  "example_gateway = \<lparr>gw_lower = id, gw_content = ''page'', gw_sys = \<lparr>sys_time_ok = (\<lambda>_. True), sys_zstd_new = True,
     sys_zstd = (\<lambda>_. None), sys_shuffle = id\<rparr>, gw_ipintelDB = []\<rparr>"

definition guarded_plugin :: pluginContext where
  "guarded_plugin = example_plugin\<lparr>p_protectAll := True\<rparr>"

lemma guarded_diff_ok: "diff_ok guarded_plugin"
  using example_diff_ok by (simp add: guarded_plugin_def diff_ok_def diff_config_ok_def)

lemma example_refused:
  "\<exists>p' ctx' r. OnHttpRequestHeaders example_gateway (\<lambda>_. None) example_request guarded_plugin
     (NewHttpContext guarded_plugin 1) = (p', ctx', Respond r)"
proof -
  let ?p = guarded_plugin and ?c = "request_client guarded_plugin example_request"
  have "OnHttpRequestHeaders example_gateway (\<lambda>_. None) example_request ?p (NewHttpContext ?p 1)
      = issue_challenge example_gateway (\<lambda>_. None) example_request ?c ?p ((NewHttpContext ?p 1)\<lparr>h_client := ?c\<rparr>)"
    by (simp add: OnHttpRequestHeaders_def protected_request_def guarded_plugin_def example_plugin_def NewPluginContext_def
        example_request_def header_or_empty_def parseChallengeCookies_def no_cookies_def try_clearance_def try_cookies_def
        try_token_def gate_and_issue_def ipintel_gate_def Let_def)
  moreover have "req_rand example_request 32 = Some (replicate 32 0)" by (simp add: example_request_def)
  ultimately show ?thesis
    using issue_challenge_spec [where gw = example_gateway and shared = "\<lambda>_. None" and req = example_request
        and client = ?c and p = ?p and ctx = "(NewHttpContext ?p 1)\<lparr>h_client := ?c\<rparr>"]
    by (auto split: prod.splits)
qed

theorem refused_request_is_challenged_witness:
  "\<exists>p' ctx' r. OnHttpRequestHeaders example_gateway (\<lambda>_. None) example_request guarded_plugin
       (NewHttpContext guarded_plugin 1) = (p', ctx', Respond r) \<and> lr_status r = 403"
proof -
  obtain p' ctx' r where "OnHttpRequestHeaders example_gateway (\<lambda>_. None) example_request guarded_plugin
     (NewHttpContext guarded_plugin 1) = (p', ctx', Respond r)" using example_refused by blast
  with refused_request_is_challenged [OF guarded_diff_ok, where gw = example_gateway and shared = "\<lambda>_. None"
      and req = example_request and ctx = "NewHttpContext guarded_plugin 1"]
  show ?thesis by auto
qed

end
