(* ===== verification/Gateway_Run.thy ===== *)
theory Gateway_Run
  imports Admission
begin

text \<open>
  The plugin in operation: several VMs of one proxy, each with its own plugin state, sharing the
  proxy's shared data, and the streams they serve. Every step is one callback of
  \<^verbatim>\<open>src/main.go\<close> run to its end (Wasm is single threaded in a VM), in any interleaving over VMs
  and streams. The initial shared data is arbitrary.
\<close>

section \<open>Worlds\<close>

datatype stage = AwaitRequest | AwaitResponse request | Answered

record stream =
  st_stage :: stage
  st_ctx :: httpHeaders

type_synonym stream_key = "nat \<times> 32 word"

record world =
  w_vms :: "nat \<Rightarrow> pluginContext option"
  w_streams :: "stream_key \<Rightarrow> stream option"
  w_shared :: shared_data

text \<open>The events of the two header callbacks carry the state of the VM in which they ran.\<close>

datatype event =
    Started nat | NotStarted nat | Ticked nat | Opened stream_key
  | Handled stream_key pluginContext request outcome
  | AddedHeaders stream_key pluginContext "(string \<times> string) list"
  | Done stream_key

abbreviation set_vm :: "nat \<Rightarrow> pluginContext \<Rightarrow> world \<Rightarrow> world" where
  "set_vm i p w \<equiv> w\<lparr>w_vms := (w_vms w)(i \<mapsto> p)\<rparr>"

abbreviation set_stream :: "stream_key \<Rightarrow> stream \<Rightarrow> world \<Rightarrow> world" where
  "set_stream key s w \<equiv> w\<lparr>w_streams := (w_streams w)(key \<mapsto> s)\<rparr>"

text \<open>A trap takes the VM and its streams down; the proxy may start it anew.\<close>

definition crash :: "nat \<Rightarrow> world \<Rightarrow> world" where
  "crash i w = w\<lparr>w_vms := (w_vms w)(i := None),
     w_streams := (\<lambda>key. if fst key = i then None else w_streams w key)\<rparr>"

text \<open>One callback. The response callback may come without a request callback, when an earlier filter
  answers the request.\<close>

inductive wstep :: "'r gjson \<Rightarrow> gateway \<Rightarrow> world \<Rightarrow> event \<Rightarrow> world \<Rightarrow> bool" for gj gw where
  start: "w_vms w i = None \<Longrightarrow> OnPluginStart gj gw config NewPluginContext = (p, OnPluginStartStatusOK)
    \<Longrightarrow> wstep gj gw w (Started i) (set_vm i p w)"
| start_fails: "w_vms w i = None \<Longrightarrow> OnPluginStart gj gw config NewPluginContext = (p, OnPluginStartStatusFailed)
    \<Longrightarrow> wstep gj gw w (NotStarted i) w"
| tick: "w_vms w i = Some p \<Longrightarrow> OnTick set_ok p (w_shared w) = (p', shared')
    \<Longrightarrow> wstep gj gw w (Ticked i) ((set_vm i p' w)\<lparr>w_shared := shared'\<rparr>)"
| new: "w_vms w i = Some p \<Longrightarrow> w_streams w (i, c) = None
    \<Longrightarrow> wstep gj gw w (Opened (i, c)) (set_stream (i, c) \<lparr>st_stage = AwaitRequest, st_ctx = NewHttpContext p c\<rparr> w)"
| req: "w_vms w i = Some p \<Longrightarrow> w_streams w (i, c) = Some \<lparr>st_stage = AwaitRequest, st_ctx = ctx\<rparr>
    \<Longrightarrow> OnHttpRequestHeaders gw (w_shared w) r p ctx = (p', ctx', out) \<Longrightarrow> out \<noteq> Trap
    \<Longrightarrow> wstep gj gw w (Handled (i, c) p r out)
          (set_stream (i, c) \<lparr>st_stage = AwaitResponse r, st_ctx = ctx'\<rparr> (set_vm i p' w))"
| trap: "w_vms w i = Some p \<Longrightarrow> w_streams w (i, c) = Some \<lparr>st_stage = AwaitRequest, st_ctx = ctx\<rparr>
    \<Longrightarrow> OnHttpRequestHeaders gw (w_shared w) r p ctx = (p', ctx', Trap)
    \<Longrightarrow> wstep gj gw w (Handled (i, c) p r Trap) (crash i w)"
| resp: "w_vms w i = Some p \<Longrightarrow> w_streams w (i, c) = Some \<lparr>st_stage = stage, st_ctx = ctx\<rparr> \<Longrightarrow> stage \<noteq> Answered
    \<Longrightarrow> OnHttpResponseHeaders env env' p ctx = (p', hs)
    \<Longrightarrow> wstep gj gw w (AddedHeaders (i, c) p hs)
          (set_stream (i, c) \<lparr>st_stage = Answered, st_ctx = ctx\<rparr> (set_vm i p' w))"
| fin: "w_vms w i = Some p \<Longrightarrow> w_streams w (i, c) = Some s \<Longrightarrow> OnHttpStreamDone p (st_ctx s) = (p', ctx')
    \<Longrightarrow> wstep gj gw w (Done (i, c)) ((set_vm i p' w)\<lparr>w_streams := (w_streams w)((i, c) := None)\<rparr>)"

inductive_cases added_headersE: "wstep gj gw w (AddedHeaders key p hs) w'"
inductive_cases handledE: "wstep gj gw w (Handled key p r out) w'"

definition initial_world :: "shared_data \<Rightarrow> world" where
  "initial_world shared = \<lparr>w_vms = (\<lambda>_. None), w_streams = (\<lambda>_. None), w_shared = shared\<rparr>"

text \<open>A run, with its events in order.\<close>

inductive run :: "'r gjson \<Rightarrow> gateway \<Rightarrow> event list \<Rightarrow> world \<Rightarrow> bool" for gj gw where
  initial: "run gj gw [] (initial_world shared)"
| step: "run gj gw es w \<Longrightarrow> wstep gj gw w e w' \<Longrightarrow> run gj gw (es @ [e]) w'"

section \<open>What callbacks leave alone\<close>

text \<open>The settings: all but the digester's buffer, the counter and the cached difficulty.\<close>

definition config_of :: "pluginContext \<Rightarrow> pluginContext" where
  "config_of p = p\<lparr>p_mac := hmac_New (hmac_secret (p_mac p)), p_challengeCounter := 0, p_currentDiff := 0\<rparr>"

lemma hmac_secret_New [simp]: "hmac_secret (hmac_New k) = k"
  by (simp add: hmac_New_def)

lemma config_of_fields:
  assumes "config_of q = config_of p"
  shows "p_headerName q = p_headerName p" "p_headerValue q = p_headerValue p" "p_secret q = p_secret p"
    "p_baseDifficulty q = p_baseDifficulty p" "p_minDifficulty q = p_minDifficulty p"
    "p_maxDifficulty q = p_maxDifficulty p" "p_clientIPSource q = p_clientIPSource p"
    "p_slidingRenewalTTL q = p_slidingRenewalTTL p" "p_renewalTTL q = p_renewalTTL p"
    "p_protectedRules q = p_protectedRules p" "p_protectAll q = p_protectAll p"
    "hmac_secret (p_mac q) = hmac_secret (p_mac p)"
proof -
  have f: "f (config_of q) = f (config_of p)" for f :: "pluginContext \<Rightarrow> 'z" by (simp add: assms)
  show "p_headerName q = p_headerName p" using f [of p_headerName] by (simp add: config_of_def)
  show "p_headerValue q = p_headerValue p" using f [of p_headerValue] by (simp add: config_of_def)
  show "p_secret q = p_secret p" using f [of p_secret] by (simp add: config_of_def)
  show "p_baseDifficulty q = p_baseDifficulty p" using f [of p_baseDifficulty] by (simp add: config_of_def)
  show "p_minDifficulty q = p_minDifficulty p" using f [of p_minDifficulty] by (simp add: config_of_def)
  show "p_maxDifficulty q = p_maxDifficulty p" using f [of p_maxDifficulty] by (simp add: config_of_def)
  show "p_clientIPSource q = p_clientIPSource p" using f [of p_clientIPSource] by (simp add: config_of_def)
  show "p_slidingRenewalTTL q = p_slidingRenewalTTL p" using f [of p_slidingRenewalTTL] by (simp add: config_of_def)
  show "p_renewalTTL q = p_renewalTTL p" using f [of p_renewalTTL] by (simp add: config_of_def)
  show "p_protectedRules q = p_protectedRules p" using f [of p_protectedRules] by (simp add: config_of_def)
  show "p_protectAll q = p_protectAll p" using f [of p_protectAll] by (simp add: config_of_def)
  show "hmac_secret (p_mac q) = hmac_secret (p_mac p)" using f [of p_mac] by (metis config_of_def hmac_secret_New pluginContext.ext_inject pluginContext.surjective pluginContext.update_convs(4,13,14))
qed

lemma config_of_update:
  "hmac_secret m = hmac_secret (p_mac p) \<Longrightarrow> config_of (p\<lparr>p_mac := m\<rparr>) = config_of p"
  "config_of (p\<lparr>p_challengeCounter := n\<rparr>) = config_of p" "config_of (p\<lparr>p_currentDiff := d\<rparr>) = config_of p"
  by (simp_all add: config_of_def)

lemma same_but_mac_config: "same_but_mac p q \<Longrightarrow> config_of q = config_of p"
  unfolding same_but_mac_def by (metis config_of_update(1))

lemma diff_ok_update [simp]:
  "diff_ok (p\<lparr>p_mac := m\<rparr>) = diff_ok p" "diff_ok (p\<lparr>p_challengeCounter := n\<rparr>) = diff_ok p"
  by (simp_all add: diff_ok_def diff_config_ok_def)

lemma same_but_mac_diff:
  assumes "same_but_mac p q"
  shows "diff_ok q = diff_ok p"
proof -
  have "q = p\<lparr>p_mac := p_mac q\<rparr>" using assms by (simp add: same_but_mac_def)
  then show ?thesis by (metis diff_ok_update(1))
qed

text \<open>\<open>keeps p q\<close>: the settings stay, and consistent difficulties stay consistent.\<close>

definition keeps :: "pluginContext \<Rightarrow> pluginContext \<Rightarrow> bool" where
  "keeps p q \<longleftrightarrow> config_of q = config_of p \<and> (diff_ok p \<longrightarrow> diff_ok q)"

lemma keeps_refl [simp]: "keeps p p"
  by (simp add: keeps_def)

lemma keeps_trans: "keeps p q \<Longrightarrow> keeps q r \<Longrightarrow> keeps p r"
  by (simp add: keeps_def)

lemma keeps_same_but_mac: "same_but_mac p q \<Longrightarrow> keeps p q"
  by (simp add: keeps_def same_but_mac_config same_but_mac_diff)

lemma keeps_update:
  "hmac_secret m = hmac_secret (p_mac p) \<Longrightarrow> keeps p (p\<lparr>p_mac := m\<rparr>)" "keeps p (p\<lparr>p_challengeCounter := n\<rparr>)"
  by (simp_all add: keeps_def config_of_update)

lemma keeps_getEffectiveDifficulty: "getEffectiveDifficulty shared h p = (q, d, src) \<Longrightarrow> keeps p q"
  unfolding keeps_def
  by (auto dest: getEffectiveDifficulty_ok)
    (auto simp: getEffectiveDifficulty_def Let_def config_of_update split: if_splits option.splits)

lemma keeps_OnTick: "OnTick ok p shared = (q, shared') \<Longrightarrow> keeps p q"
  unfolding keeps_def
  by (auto dest: OnTick_ok) (auto simp: OnTick_def Let_def config_of_update)

lemma keeps_generate:
  assumes "generateChallengeMAC t rnd (p_mac p) [] d client = (m, r)"
  shows "keeps p (p\<lparr>p_mac := m\<rparr>)"
  using assms generateChallengeMAC_key [of t rnd "p_mac p" "[]" d client] by (intro keeps_update) simp

lemma keeps_issue_challenge:
  assumes "issue_challenge gw shared req client p ctx = (q, ctx', out)"
  shows "keeps p q"
proof -
  let ?h = "header_or_empty req ''x-challenge-difficulty''"
  obtain p1 d src where g: "getEffectiveDifficulty shared ?h p = (p1, d, src)" by (metis prod_cases3)
  let ?d = "if h_ipintelDifficulty ctx > 0 then clampDifficulty (h_ipintelDifficulty ctx) d (p_maxDifficulty p1) else d"
  obtain m r where r: "generateChallengeMAC (req_clock req IssueClock) (req_rand req) (p_mac p1) [] ?d client = (m, r)"
    by (metis surj_pair)
  have "q = p1\<lparr>p_mac := m\<rparr> \<or> q = recordChallengeIssued (p1\<lparr>p_mac := m\<rparr>)"
    using assms g r by (cases "h_ipintelDifficulty ctx > 0") (auto simp: issue_challenge_def Let_def split: sum.splits)
  moreover have "keeps p (p1\<lparr>p_mac := m\<rparr>)"
    using keeps_trans [OF keeps_getEffectiveDifficulty [OF g] keeps_generate [OF r]] .
  ultimately show ?thesis
    using keeps_trans keeps_update(2) by (auto simp: recordChallengeIssued_def)
qed

lemma keeps_OnHttpRequestHeaders:
  assumes "OnHttpRequestHeaders gw shared req p ctx = (q, ctx', out)"
  shows "keeps p q"
proof -
  obtain r where r: "same_but_mac p r" and h: "OnHttpRequestHeaders gw shared req p ctx = by_proofs gw shared req p r ctx"
    using OnHttpRequestHeaders_by_proofs by blast
  note h = h [unfolded by_proofs_def]
  have "gate_and_issue gw shared req c r x = (q, ctx', out) \<Longrightarrow> keeps r q" for c x
    by (auto simp: gate_and_issue_def dest: keeps_issue_challenge split: option.splits ipintelDecision.splits)
  with keeps_same_but_mac [OF r] show ?thesis
    using assms unfolding h by (auto split: if_splits dest: keeps_trans)
qed

lemma keeps_mint:
  "mint_issued env p ctx = (q, hs) \<Longrightarrow> keeps p q" "mint_renewed env p ctx = (q, hs) \<Longrightarrow> keeps p q"
proof -
  obtain m t where g: "generateClearanceMAC (mint_clock env) (mint_rand env) (p_mac p) [] (ClearanceBind (h_client ctx)) = (m, t)"
    by (metis surj_pair)
  have k: "keeps p (p\<lparr>p_mac := m\<rparr>)"
    using g generateClearanceMAC_key [of "mint_clock env" "mint_rand env" "p_mac p"] by (metis fst_conv keeps_update(1))
  show "mint_issued env p ctx = (q, hs) \<Longrightarrow> keeps p q" "mint_renewed env p ctx = (q, hs) \<Longrightarrow> keeps p q"
    using k g by (auto simp: mint_issued_def mint_renewed_def Let_def split: if_splits sum.splits)
qed

lemma keeps_OnHttpResponseHeaders: "OnHttpResponseHeaders env env' p ctx = (q, hs) \<Longrightarrow> keeps p q"
  by (auto simp: OnHttpResponseHeaders_def Let_def split: prod.splits intro: keeps_trans dest: keeps_mint)

section \<open>The start\<close>

definition plugin_ok :: "pluginContext \<Rightarrow> bool" where
  "plugin_ok p \<longleftrightarrow> MinSecretLen \<le> length (p_secret p) \<and> hmac_secret (p_mac p) = p_secret p
     \<and> p_protectAll p = (p_protectedRules p = []) \<and> 1 \<le> p_minDifficulty p
     \<and> (p_minDifficulty p \<le> p_maxDifficulty p \<longrightarrow> diff_ok p)"

lemma plugin_ok_keeps: "plugin_ok p \<Longrightarrow> keeps p q \<Longrightarrow> plugin_ok q"
  using config_of_fields [of q p] by (auto simp: plugin_ok_def keeps_def)

lemma difficulty_config_type:
  assumes "difficulty_config base minD maxD = (b, mi, ma)"
  shows "1 \<le> mi \<and> (mi \<le> ma \<longrightarrow> mi \<le> b \<and> b \<le> ma)"
proof -
  have one: "x \<noteq> 0 \<Longrightarrow> 1 \<le> x" for x :: uint64
    using inc_le [of 0 x] by (simp add: word_greater_zero_iff)
  then show ?thesis using assms
    by (auto simp: difficulty_config_def Let_def not_less not_le split: if_splits)
qed

lemma parseProtectedConfig_all:
  assumes "parseProtectedConfig gj ul data = (rules, protectAll, problems)"
  shows "protectAll = (rules = [])"
  using assms by (auto simp: parseProtectedConfig_def Let_def split: if_splits prod.splits)

lemma configure_ok:
  assumes "MinSecretLen \<le> length secretStr" and "p_currentDiff p = 0"
  shows "plugin_ok (configure gj gw data secretStr p) \<and> p_secret (configure gj gw data secretStr p) = bytes_of secretStr"
proof -
  let ?u = "\<lambda>path. gj_Uint gj (gj_GetBytes gj data path)"
  obtain b mi ma where d: "difficulty_config (?u ''base_difficulty'') (?u ''min_difficulty'') (?u ''max_difficulty'') = (b, mi, ma)"
    by (metis prod_cases3)
  obtain w t where sr: "parseSlidingRenewalConfig gj data = (w, t)" by (metis surj_pair)
  obtain db m c tg en pr where ii: "parseIPIntelConfig gj (gw_lower gw) (gw_sys gw) data (gw_ipintelDB gw) = (db, m, c, tg, en, pr)"
    by (metis surj_pair)
  obtain rs pa pp where pc: "parseProtectedConfig gj (gw_lower gw) data = (rs, pa, pp)" by (metis prod_cases3)
  show ?thesis
    using assms difficulty_config_type [OF d] parseProtectedConfig_all [OF pc]
    by (auto simp: configure_def d sr ii pc Let_def plugin_ok_def diff_ok_def diff_config_ok_def)
qed

section \<open>The invariant of a run\<close>

text \<open>Every VM's state is sound, and every stream's state is what its VM's settings make of the stream's
  request, of which the run has the event.\<close>

definition stream_ok :: "gateway \<Rightarrow> event list \<Rightarrow> stream_key \<Rightarrow> stream \<Rightarrow> pluginContext \<Rightarrow> bool" where
  "stream_ok gw es key s p \<longleftrightarrow>
     (case st_stage s of
        AwaitRequest \<Rightarrow> st_ctx s = NewHttpContext p (snd key)
      | AwaitResponse r \<Rightarrow> (\<exists>shared p0 out. config_of p0 = config_of p \<and> Handled key p0 r out \<in> set es \<and>
          snd (OnHttpRequestHeaders gw shared r p0 (NewHttpContext p0 (snd key))) = (st_ctx s, out))
      | Answered \<Rightarrow> True)"

definition world_ok :: "gateway \<Rightarrow> event list \<Rightarrow> world \<Rightarrow> bool" where
  "world_ok gw es w \<longleftrightarrow>
     (\<forall>i p. w_vms w i = Some p \<longrightarrow> plugin_ok p) \<and>
     (\<forall>i c s. w_streams w (i, c) = Some s \<longrightarrow> (\<exists>p. w_vms w i = Some p \<and> stream_ok gw es (i, c) s p))"

lemma NewHttpContext_config: "config_of q = config_of p \<Longrightarrow> NewHttpContext q c = NewHttpContext p c"
  using config_of_fields [of q p] by (simp add: NewHttpContext_def)

lemma stream_ok_mono:
  assumes "stream_ok gw es key s p" "config_of q = config_of p" "set es \<subseteq> set es'"
  shows "stream_ok gw es' key s q"
proof (cases "st_stage s")
  case (AwaitResponse r)
  then show ?thesis using assms unfolding stream_ok_def by simp blast
qed (use assms NewHttpContext_config [OF assms(2)] in \<open>auto simp: stream_ok_def\<close>)

lemma world_ok_vm:
  assumes "world_ok gw es w" "w_vms w i = Some p" "keeps p q"
  shows "world_ok gw (es @ [e]) (set_vm i q w)"
proof -
  have "stream_ok gw (es @ [e]) (j, c) s q" if "stream_ok gw es (j, c) s p" for j c s
    using assms(3) by (intro stream_ok_mono [OF that]) (auto simp: keeps_def)
  moreover have "stream_ok gw (es @ [e]) (j, c) s p'" if "stream_ok gw es (j, c) s p'" for j c s p'
    by (intro stream_ok_mono [OF that]) auto
  moreover have "plugin_ok q" using assms plugin_ok_keeps by (auto simp: world_ok_def)
  ultimately show ?thesis using assms(1,2) by (fastforce simp: world_ok_def)
qed

lemma world_ok_stream:
  assumes "world_ok gw es w" "w_vms w i = Some p" "stream_ok gw es (i, c) s p"
  shows "world_ok gw es (set_stream (i, c) s w)"
  using assms by (auto simp: world_ok_def)

lemma world_ok_shared: "world_ok gw es (w\<lparr>w_shared := sh\<rparr>) = world_ok gw es w"
  by (simp add: world_ok_def)

lemma world_ok_remove: "world_ok gw es w \<Longrightarrow> world_ok gw es (w\<lparr>w_streams := (w_streams w)(key := None)\<rparr>)"
  by (auto simp: world_ok_def split: if_splits)

lemma world_ok_crash: "world_ok gw es w \<Longrightarrow> world_ok gw es (crash i w)"
  by (auto simp: world_ok_def crash_def split: if_splits)

lemma stream_ok_event: "stream_ok gw es key s p \<Longrightarrow> stream_ok gw (es @ [e]) key s p"
  by (erule stream_ok_mono) auto

lemma world_ok_event: "world_ok gw es w \<Longrightarrow> world_ok gw (es @ [e]) w"
  unfolding world_ok_def by (meson stream_ok_event)

lemma world_ok_start:
  assumes "world_ok gw es w" "w_vms w i = None" "plugin_ok p"
  shows "world_ok gw es (set_vm i p w)"
  using assms by (fastforce simp: world_ok_def)

lemma NewPluginContext_currentDiff [simp]: "p_currentDiff NewPluginContext = 0"
  by (simp add: NewPluginContext_def)

lemma OnPluginStart_plugin_ok:
  assumes "OnPluginStart gj gw config NewPluginContext = (p, OnPluginStartStatusOK)"
  shows "plugin_ok p"
  using assms
  by (auto simp: OnPluginStart_def Let_def not_less intro!: configure_ok [THEN conjunct1] split: option.splits if_splits)

lemma world_ok_streamD:
  assumes "world_ok gw es w" "w_vms w i = Some p" "w_streams w (i, c) = Some s"
  shows "stream_ok gw es (i, c) s p"
  using assms unfolding world_ok_def by (metis option.inject)

lemma wstep_ok:
  assumes "wstep gj gw w e w'" "world_ok gw es w"
  shows "world_ok gw (es @ [e]) w'"
  using assms
proof (cases rule: wstep.cases)
  case (start i config p)
  then show ?thesis
    using world_ok_start OnPluginStart_plugin_ok world_ok_event assms(2) by metis
next
  case start_fails
  then show ?thesis using assms(2) by (simp add: world_ok_event)
next
  case (tick i p set_ok p' shared')
  then show ?thesis using world_ok_vm [OF assms(2)] keeps_OnTick by (auto simp: world_ok_shared)
next
  case (new i p c)
  have "stream_ok gw es (i, c) \<lparr>st_stage = AwaitRequest, st_ctx = NewHttpContext p c\<rparr> p" by (simp add: stream_ok_def)
  then show ?thesis using world_ok_event [OF world_ok_stream [OF assms(2)]] new by metis
next
  case (req i p c ctx r p' ctx' out)
  have "ctx = NewHttpContext p c" using world_ok_streamD [OF assms(2)] req by (fastforce simp: stream_ok_def)
  moreover have k: "keeps p p'" using keeps_OnHttpRequestHeaders req by blast
  ultimately have "stream_ok gw (es @ [e]) (i, c) \<lparr>st_stage = AwaitResponse r, st_ctx = ctx'\<rparr> p'"
    using req unfolding stream_ok_def keeps_def
    by (auto intro!: exI [of _ "w_shared w"] exI [of _ p])
  moreover have "w_vms (set_vm i p' w) i = Some p'" by simp
  ultimately show ?thesis using world_ok_stream world_ok_vm [OF assms(2) _ k] req by metis
next
  case (trap i)
  then show ?thesis using assms(2) by (simp add: world_ok_event world_ok_crash)
next
  case (resp i p c stage ctx env env' p' hs)
  have "keeps p p'" using keeps_OnHttpResponseHeaders resp by blast
  then have "world_ok gw (es @ [e]) (set_vm i p' w)" using world_ok_vm [OF assms(2)] resp by metis
  moreover have "stream_ok gw (es @ [e]) (i, c) \<lparr>st_stage = Answered, st_ctx = ctx\<rparr> p'" by (simp add: stream_ok_def)
  ultimately have "world_ok gw (es @ [e]) (set_stream (i, c) \<lparr>st_stage = Answered, st_ctx = ctx\<rparr> (set_vm i p' w))"
    by (intro world_ok_stream [where p = p']) auto
  then show ?thesis using resp by simp
next
  case (fin i p c s p' ctx')
  have "p' = p" using fin by (simp add: OnHttpStreamDone_def)
  then have "world_ok gw (es @ [e]) (set_vm i p' w)" using world_ok_vm [OF assms(2)] fin keeps_refl by metis
  then have "world_ok gw (es @ [e]) ((set_vm i p' w)\<lparr>w_streams := (w_streams (set_vm i p' w))((i, c) := None)\<rparr>)"
    by (rule world_ok_remove)
  then show ?thesis using fin by simp
qed

lemma run_ok: "run gj gw es w \<Longrightarrow> world_ok gw es w"
proof (induction rule: run.induct)
  case (initial shared)
  show ?case by (simp add: world_ok_def initial_world_def)
next
  case (step es w e w')
  then show ?case by (blast intro: wstep_ok)
qed

section \<open>What a request's proofs depend on\<close>

lemma request_proofs_config:
  assumes "config_of q = config_of p"
  shows "protected_request gw req q = protected_request gw req p" "valid_clearance q req = valid_clearance p req"
    "renewable_clearance q req = renewable_clearance p req" "cookie_solution q req = cookie_solution p req"
    "token_solution q req = token_solution p req" "request_client q req = request_client p req"
    "configured_headers q = configured_headers p"
proof -
  note f = config_of_fields [OF assms]
  have c: "parsed_clearance q req = parsed_clearance p req"
    by (simp only: parsed_clearance_def parseClearanceMAC_eq f)
  have s: "solves q req clk sol = solves p req clk sol" for clk sol
    using same_key_same_result [of "p_mac q" "p_mac p"] f by (simp add: solves_def)
  show "protected_request gw req q = protected_request gw req p" using f by (simp add: protected_request_def)
  show "valid_clearance q req = valid_clearance p req" using f c by (simp add: valid_clearance_def)
  show "renewable_clearance q req = renewable_clearance p req" unfolding renewable_clearance_def c f ..
  show "cookie_solution q req = cookie_solution p req" unfolding cookie_solution_def s ..
  show "token_solution q req = token_solution p req" unfolding token_solution_def s ..
  show "request_client q req = request_client p req" using f by simp
  show "configured_headers q = configured_headers p" using f by (simp add: configured_headers_def)
qed

lemma granted_headers_config:
  assumes "config_of q = config_of p"
  shows "granted_headers gw q r req env env' = granted_headers gw p r req env env'"
  unfolding granted_headers_def request_proofs_config [OF assms] ..

text \<open>What the response callback adds in a run.\<close>

lemma response_in_run:
  assumes "run gj gw es w" and "w_vms w i = Some p" and "w_streams w (i, c) = Some \<lparr>st_stage = stage, st_ctx = ctx\<rparr>"
    and "stage \<noteq> Answered" and "OnHttpResponseHeaders env env' p ctx = (p', hs)"
  shows "hs = configured_headers p \<or> (\<exists>p0 r. Handled (i, c) p0 r Continue \<in> set es \<and> config_of p0 = config_of p
     \<and> protected_request gw r p
     \<and> (renewable_clearance p r \<or> cookie_solution p r \<or> token_solution p r)
     \<and> hs = granted_headers gw p p r env env' @ configured_headers p)"
proof (cases stage)
  case AwaitRequest
  have "ctx = NewHttpContext p c"
    using world_ok_streamD [OF run_ok [OF assms(1)] assms(2,3)] AwaitRequest by (simp add: stream_ok_def)
  then show ?thesis
    using OnHttpResponseHeaders_eq [of env env' p ctx] assms(5) by (simp add: NewHttpContext_def configured_headers_def)
next
  case (AwaitResponse r)
  obtain sh p0 out where p0: "config_of p0 = config_of p" and e: "Handled (i, c) p0 r out \<in> set es"
    and h: "snd (OnHttpRequestHeaders gw sh r p0 (NewHttpContext p0 c)) = (ctx, out)"
    using world_ok_streamD [OF run_ok [OF assms(1)] assms(2,3)] AwaitResponse by (auto simp: stream_ok_def)
  note f = request_proofs_config [OF p0]
  have hs: "hs = granted_headers gw p p r env env' @ configured_headers p"
    using response_to_request [where gw = gw and shared = sh and req = r and p = p0 and cid = c
        and env = env and env' = env' and q = p] h assms(5) f(7) granted_headers_config [OF p0]
    by (auto split: prod.splits)
  show ?thesis
  proof (cases "protected_request gw r p \<and> (renewable_clearance p r \<or> cookie_solution p r \<or> token_solution p r)")
    case True
    then have "protected_request gw r p0" "renewable_clearance p0 r \<or> cookie_solution p0 r \<or> token_solution p0 r"
      by (simp_all only: f)
    then have "out = Continue"
      using OnHttpRequestHeaders_cases [of p0 gw sh r "NewHttpContext p0 c"] h by (auto split: if_splits)
    then show ?thesis using hs e p0 True by blast
  next
    case False
    then have "granted_headers gw p p r env env' = []" by (auto simp: granted_headers_def)
    then show ?thesis using hs by simp
  qed
qed (use assms(4) in simp)

section \<open>Properties\<close>

text \<open>C18: The plugin starts exactly on a readable, non-empty and valid configuration whose trimmed secret
  has at least 32 bytes. A refused start leaves the plugin's state as it was, and an accepted start
  of a new plugin establishes the state's invariant: the digester is keyed by the configured
  secret, every request is protected or there is a rule, and the difficulties lie between their bounds
  when the least is not above the greatest.\<close>

theorem OnPluginStart_iff:
  "case OnPluginStart gj gw config p of (p', status) \<Rightarrow>
     (status = OnPluginStartStatusOK) = (\<exists>data. config = Some data \<and> data \<noteq> [] \<and> gj_ValidBytes gj data
        \<and> 32 \<le> length (TrimSpace (gj_Str gj (gj_GetBytes gj data ''secret''))))
     \<and> (if status = OnPluginStartStatusOK
        then p_secret p' = bytes_of (TrimSpace (gj_Str gj (gj_GetBytes gj (the config) ''secret'')))
          \<and> (if p_currentDiff p = 0 then plugin_ok p' else True)
        else p' = p)"
proof -
  have "MinSecretLen \<le> length s \<Longrightarrow> s \<noteq> []" for s :: string by (auto simp: MinSecretLen_def)
  moreover have "p_secret (configure gj gw data s p) = bytes_of s" for data s
    by (simp add: configure_def Let_def split: prod.split)
  ultimately show ?thesis
    using configure_ok [where gj = gj and gw = gw and p = p]
    by (auto simp: OnPluginStart_def Let_def not_less MinSecretLen_def [symmetric] split: option.split)
qed

text \<open>C11: In every run, with any number of VMs, in any interleaving of their callbacks and from any shared
  data, the state of each VM keeps its invariant: the digester holds the configured secret of at
  least 32 bytes, requests are protected or there is a rule, and with a minimum not above the
  maximum the base and the cached difficulty stay between them.\<close>

theorem run_plugins_ok:
  assumes "run gj gw es w" and "w_vms w i = Some p"
  shows "32 \<le> length (p_secret p) \<and> hmac_secret (p_mac p) = p_secret p
     \<and> p_protectAll p = (p_protectedRules p = [])
     \<and> (if p_minDifficulty p \<le> p_maxDifficulty p
        then 1 \<le> p_minDifficulty p \<and> p_minDifficulty p \<le> p_baseDifficulty p \<and> p_baseDifficulty p \<le> p_maxDifficulty p
          \<and> (p_currentDiff p = 0 \<or> p_minDifficulty p \<le> p_currentDiff p \<and> p_currentDiff p \<le> p_maxDifficulty p)
        else True)"
proof -
  have "plugin_ok p" using run_ok [OF assms(1)] assms(2) by (simp add: world_ok_def)
  then show ?thesis by (simp add: plugin_ok_def diff_ok_def diff_config_ok_def MinSecretLen_def)
qed

text \<open>A configuration with a secret and the least difficulties, a run that starts a VM with it, and one that
  opens a stream.\<close>

definition secret_gjson :: "string gjson" where
  "secret_gjson = \<lparr>gj_ValidBytes = (\<lambda>_. True), gj_GetBytes = (\<lambda>d path. path), gj_Get = (\<lambda>r path. path),
     gj_Exists = (\<lambda>_. False), gj_IsArray = (\<lambda>_. False), gj_IsObject = (\<lambda>_. False), gj_TypeIsString = (\<lambda>_. False),
     gj_Str = (\<lambda>r. if r = ''secret'' then replicate 32 CHR ''k'' else []), gj_String = (\<lambda>r. []),
     gj_Int = (\<lambda>r. 0),
     gj_Uint = (\<lambda>r. if r = ''min_difficulty'' \<or> r = ''base_difficulty'' then 1 else 0), gj_Array = (\<lambda>r. []), gj_ForEach_values = (\<lambda>_. [])\<rparr>"

definition secret_plugin :: pluginContext where
  "secret_plugin = configure secret_gjson example_gateway [0] (replicate 32 CHR ''k'') NewPluginContext"

lemma secret_plugin_start:
  "OnPluginStart secret_gjson example_gateway (Some [0]) NewPluginContext = (secret_plugin, OnPluginStartStatusOK)"
proof -
  have "TrimSpace (replicate 32 CHR ''k'') = replicate 32 CHR ''k''"
    by (rule TrimSpace_all_visible) (simp add: list_all_iff visible_def char_code_def)
  then show ?thesis
    by (simp add: OnPluginStart_def secret_plugin_def secret_gjson_def MinSecretLen_def Let_def)
qed

lemma secret_run:
  "run secret_gjson example_gateway [Started 0] (set_vm 0 secret_plugin (initial_world (\<lambda>_. None)))"
proof -
  have "wstep secret_gjson example_gateway (initial_world (\<lambda>_. None)) (Started 0)
      (set_vm 0 secret_plugin (initial_world (\<lambda>_. None)))"
    by (rule wstep.start [OF _ secret_plugin_start]) (simp add: initial_world_def)
  from run.step [OF run.initial this] show ?thesis by simp
qed

definition secret_world :: world where
  "secret_world = set_stream (0, 7) \<lparr>st_stage = AwaitRequest, st_ctx = NewHttpContext secret_plugin 7\<rparr>
     (set_vm 0 secret_plugin (initial_world (\<lambda>_. None)))"

lemma secret_world:
  "w_vms secret_world 0 = Some secret_plugin"
  "w_streams secret_world (0, 7) = Some \<lparr>st_stage = AwaitRequest, st_ctx = NewHttpContext secret_plugin 7\<rparr>"
  "run secret_gjson example_gateway [Started 0, Opened (0, 7)] secret_world"
proof -
  have "wstep secret_gjson example_gateway (set_vm 0 secret_plugin (initial_world (\<lambda>_. None))) (Opened (0, 7)) secret_world"
    unfolding secret_world_def by (rule wstep.new) (simp_all add: initial_world_def)
  from run.step [OF secret_run this] show "run secret_gjson example_gateway [Started 0, Opened (0, 7)] secret_world" by simp
qed (simp_all add: secret_world_def)

lemma secret_plugin_fields:
  "p_headerName secret_plugin = []" "p_protectAll secret_plugin" "\<not> p_ipintelEnabled secret_plugin" "p_clientIPSource secret_plugin = ipSourceAuto"
  "p_minDifficulty secret_plugin = 1" "p_maxDifficulty secret_plugin = 26" "p_baseDifficulty secret_plugin = 1"
  "p_currentDiff secret_plugin = 0" "hmac_secret (p_mac secret_plugin) = bytes_of (replicate 32 CHR ''k'')"
proof -
  have l: "strings_ToLower id [] = []" by (simp add: strings_ToLower_def)
  obtain db mode cats t problems where ip: "parseIPIntelConfig secret_gjson (gw_lower example_gateway) (gw_sys example_gateway)
      [0] (gw_ipintelDB example_gateway) = (db, mode, cats, t, False, problems)"
    by (simp add: parseIPIntelConfig_def secret_gjson_def example_gateway_def Let_def l TrimSpace_def)
  have d: "difficulty_config 1 1 0 = (1, 1, 26)" by (simp add: difficulty_config_def)
  note g = secret_plugin_def configure_def Let_def secret_gjson_def
  show "p_headerName secret_plugin = []" by (simp add: g TrimSpace_def split: prod.split)
  show "p_protectAll secret_plugin" by (simp add: g parseProtectedConfig_def split: prod.split)
  show "\<not> p_ipintelEnabled secret_plugin"
    unfolding secret_plugin_def configure_def ip Let_def by (simp split: prod.split)
  show "p_clientIPSource secret_plugin = ipSourceAuto"
    by (simp add: g parse_client_ip_source_def example_gateway_def l TrimSpace_def split: prod.split)
  show "p_minDifficulty secret_plugin = 1" "p_maxDifficulty secret_plugin = 26" "p_baseDifficulty secret_plugin = 1"
    by (simp_all add: g d split: prod.split)
  show "p_currentDiff secret_plugin = 0" "hmac_secret (p_mac secret_plugin) = bytes_of (replicate 32 CHR ''k'')"
    by (simp_all add: g NewPluginContext_def split: prod.split)
qed

theorem run_plugins_ok_witness:
  "\<exists>es w. run secret_gjson example_gateway es w \<and> w_vms w 0 = Some secret_plugin
     \<and> hmac_secret (p_mac secret_plugin) = p_secret secret_plugin"
proof -
  have "w_vms (set_vm 0 secret_plugin (initial_world (\<lambda>_. None))) 0 = Some secret_plugin" by simp
  from run_plugins_ok [OF secret_run this] secret_run show ?thesis
    by (metis \<open>w_vms (set_vm 0 secret_plugin (initial_world (\<lambda>_. None))) 0 = Some secret_plugin\<close>)
qed

text \<open>C10: In every run, a response callback adds nothing but the configured header unless an earlier
  request callback on the same stream let a protected request continue that carried a renewable
  clearance or a solution under the VM's secret; then it adds the clearance for that request's
  client address, signed with that secret.\<close>

theorem run_grants_only_for_proof:
  assumes "run gj gw es w" and "wstep gj gw w (AddedHeaders (i, c) p hs) w'"
  shows "hs = configured_headers p
     \<or> (\<exists>p0 r env env'. Handled (i, c) p0 r Continue \<in> set es \<and> config_of p0 = config_of p
       \<and> protected_request gw r p
       \<and> (renewable_clearance p r \<or> cookie_solution p r \<or> token_solution p r)
       \<and> hs = granted_headers gw p p r env env' @ configured_headers p)"
  using assms(2) by (rule added_headersE) (use response_in_run [OF assms(1)] in blast)

theorem run_grants_only_for_proof_witness:
  "\<exists>es w w'. run secret_gjson example_gateway es w \<and> wstep secret_gjson example_gateway w (AddedHeaders (0, 7) secret_plugin []) w'
     \<and> configured_headers secret_plugin = []"
proof -
  let ?w = "secret_world"
  let ?env = "\<lparr>mint_clock = 0, mint_rand = (\<lambda>_. None)\<rparr>"
  have "OnHttpResponseHeaders ?env ?env secret_plugin (NewHttpContext secret_plugin 7) = (secret_plugin, [])"
    by (simp add: OnHttpResponseHeaders_def secret_plugin_fields mint_issued_def mint_renewed_def NewHttpContext_def)
  from wstep.resp [OF secret_world(1,2) _ this]
  have "wstep secret_gjson example_gateway ?w (AddedHeaders (0, 7) secret_plugin [])
      (set_stream (0, 7) \<lparr>st_stage = Answered, st_ctx = NewHttpContext secret_plugin 7\<rparr> (set_vm 0 secret_plugin ?w))"
    by simp
  with run_grants_only_for_proof [OF secret_world(3) this] secret_world(3) show ?thesis
    by (metis (no_types, lifting) append_is_Nil_conv)
qed

end
