(* ===== verification/Challenge_Page.thy ===== *)
theory Challenge_Page
  imports Cookies Crypt
begin

text \<open>
  The solver of the challenge page, the script of \<^verbatim>\<open>src/challenge.html\<close>.

  \<^item> \<open>document.cookie\<close> is an argument: the cookies the script can see, as the browser writes them.
  \<^item> \<open>atob\<close> of the browser is an argument. \<open>JSON.parse\<close> is the parser of \<open>Go_Json\<close>; \<open>TextDecoder\<close> leaves the
    ASCII text of a challenge as it is. A thrown error is a value of \<open>page_err\<close>.
  \<^item> The counter of nonces is a big integer that stays below 80 million, so it is a 64-bit word here, and
    \<open>Number(non)\<close> is exact.
  \<^item> The script's own \<open>sha256\<close> is the algorithm of \<open>Sha256\<close>, which it follows word by word; it stands for it here.
  \<^item> Reading a typed array out of range gives \<open>undefined\<close>, which the bitwise \<open>&\<close> takes for 0.
\<close>

section \<open>Definitions\<close>

datatype page_err = CookiesNotFound | BadChallengeText | CouldNotSolve

text \<open>\<open>s.split(sep)\<close> for a non-empty separator.\<close>

function js_split :: "string \<Rightarrow> string \<Rightarrow> string list" where
  "js_split s sep =
     (if sep = [] then [s]
      else case Index s sep of
        None \<Rightarrow> [s]
      | Some i \<Rightarrow> take i s # js_split (drop (i + length sep) s) sep)"
  by auto
termination
proof (relation "measure (length \<circ> fst)", simp)
  fix s sep :: string and i
  assume "sep \<noteq> []" "Index s sep = Some i"
  moreover from this have "s \<noteq> []" by auto
  ultimately show "((drop (i + length sep) s, sep), s, sep) \<in> measure (length \<circ> fst)" by (cases sep) simp_all
qed

declare js_split.simps [simp del]

definition gc :: "string \<Rightarrow> string \<Rightarrow> string option" where
  "gc cookies n =
     (let m = js_split (''; '' @ cookies) (''; '' @ n @ ''='')
      in if length m = 2 then Some (hd (js_split (last m) '';'')) else None)"

definition url_to_std :: "char \<Rightarrow> char" where
  "url_to_std c = (if c = CHR ''-'' then CHR ''+'' else if c = CHR ''_'' then CHR ''/'' else c)"

definition b64dec :: "(string \<Rightarrow> bytes option) \<Rightarrow> string \<Rightarrow> bytes option" where
  "b64dec atob s = (let s = map url_to_std s in atob (s @ replicate ((4 - length s mod 4) mod 4) CHR ''=''))"

text \<open>\<open>JSON.parse(text).diff||18\<close>: of two members of one name the last counts, a value that is false in
  JavaScript gives 18, and the loop over bits takes \<open>true\<close> for 1. Only \<open>null\<close> has no members at all. A
  difficulty that is a text, an array, an object or a number not written in plain digits, which the
  loop would convert, is left out: the plugin writes none.\<close>

definition page_difficulty :: "string \<Rightarrow> nat option" where
  "page_difficulty s =
     (case json_parse s of
        None \<Rightarrow> None
      | Some JNull \<Rightarrow> None
      | Some (JObj ms) \<Rightarrow>
          (case map_of (rev ms) ''diff'' of
             None \<Rightarrow> Some 18
           | Some (JNum t) \<Rightarrow> map_option (\<lambda>d. if d = 0 then 18 else unat d) (ParseUint t 64)
           | Some (JBool b) \<Rightarrow> Some (if b then 1 else 18)
           | Some JNull \<Rightarrow> Some 18
           | Some (JStr t) \<Rightarrow> if t = [] then Some 18 else None
           | _ \<Rightarrow> None)
      | _ \<Rightarrow> Some 18)"

fun hasZ_loop :: "bytes \<Rightarrow> nat list \<Rightarrow> bool" where
  "hasZ_loop h [] = True"
| "hasZ_loop h (i # is) =
     (let bi = i div 8; bt = 7 - i mod 8
      in if bi < length h \<and> h ! bi AND push_bit bt 1 \<noteq> 0 then False else hasZ_loop h is)"

definition hasZ :: "bytes \<Rightarrow> nat \<Rightarrow> bool" where
  "hasZ h b = (if b = 0 then True else hasZ_loop h [0..<b])"

fun page_loop :: "bytes \<Rightarrow> nat \<Rightarrow> nat \<Rightarrow> uint64 \<Rightarrow> uint64 option" where
  "page_loop pb df i non =
     (if i = 0 then None
      else if hasZ (sha256 (pb @ PutUint64_BE non)) df then Some non
      else page_loop pb df (i - 1) (non + 1))"

declare page_loop.simps [simp del]

definition page_solve :: "(string \<Rightarrow> bytes option) \<Rightarrow> string \<Rightarrow> page_err + Solution" where
  "page_solve atob cookies =
     (case (gc cookies ''challenge'', gc cookies ''challenge-sig'') of
        (Some cb, Some sb) \<Rightarrow>
          if cb = [] \<or> sb = [] then Inl CookiesNotFound
          else (case b64dec atob cb of
             None \<Rightarrow> Inl BadChallengeText
           | Some pb \<Rightarrow>
               (case page_difficulty (string_of pb) of
                  None \<Rightarrow> Inl BadChallengeText
                | Some df \<Rightarrow>
                    (case page_loop pb df 80000000 0 of
                       None \<Rightarrow> Inl CouldNotSolve
                     | Some non \<Rightarrow> Inr \<lparr>Challenge = cb, Signature = sb, Nonce = non\<rparr>)))
      | _ \<Rightarrow> Inl CookiesNotFound)"

text \<open>\<open>sc('challenge-nonce', sol.n)\<close>: the cookies the next request of the page carries.\<close>

definition page_cookies :: "(string \<times> string) list \<Rightarrow> Solution \<Rightarrow> (string \<times> string) list" where
  "page_cookies ps sol = filter (\<lambda>(n, v). n \<noteq> ''challenge-nonce'') ps @ [(''challenge-nonce'', FormatUint (Nonce sol))]"

section \<open>Cookies\<close>

definition jar :: "(string \<times> string) list \<Rightarrow> string" where
  "jar ps = concat (map (\<lambda>(n, v). ''; '' @ n @ ''='' @ v) ps)"

lemma jar_render: "ps \<noteq> [] \<Longrightarrow> ''; '' @ render_cookies ps = jar ps"
  by (induction ps rule: render_cookies.induct) (simp_all add: jar_def)

lemma Index_jar:
  assumes "list_all plain_cookie as" "CHR ''='' \<notin> set n" "n \<notin> fst ` set as"
  shows "Index (jar as @ t) (''; '' @ n @ ''='') = map_option (\<lambda>i. length (jar as) + i) (Index t (''; '' @ n @ ''=''))"
  using assms(1,3)
proof (induction as)
  case Nil
  then show ?case by (simp add: jar_def option.map_ident)
next
  case (Cons p as)
  obtain m v where p: "p = (m, v)" by (cases p)
  let ?key = "CHR '';'' # CHR '' '' # n @ ''=''" and ?rest = "jar as @ t"
  have m: "plain_cookie (m, v)" "m \<noteq> n" using Cons.prems by (auto simp: p)
  then have "\<not> HasPrefix (m @ CHR ''='' # v @ ?rest) (n @ ''='')"
    using HasPrefix_name [of n m "v @ ?rest"] assms(2) by (simp add: plain_cookie_def)
  then have "\<not> HasPrefix (CHR '';'' # CHR '' '' # m @ CHR ''='' # v @ ?rest) ?key" by (simp add: HasPrefix_def)
  then have "Index (jar (p # as) @ t) ?key = map_option Suc (Index ((CHR '' '' # m @ CHR ''='' # v) @ ?rest) ?key)"
    by (simp add: p jar_def)
  also have "\<dots> = map_option Suc (map_option (\<lambda>i. length (CHR '' '' # m @ CHR ''='' # v) + i) (Index ?rest ?key))"
    using m(1) by (subst Index_skip) (auto simp: plain_cookie_def)
  finally show ?case
    using Cons by (simp add: p option.map_comp comp_def jar_def add.assoc)
qed

lemma js_split_two:
  assumes "sep \<noteq> []" "Index s sep = Some i" "Index (drop (i + length sep) s) sep = None"
  shows "js_split s sep = [take i s, drop (i + length sep) s]"
  using assms by (subst js_split.simps, simp, subst js_split.simps, simp)

lemma hd_js_split_semicolon: "hd (js_split s '';'') = takeWhile (\<lambda>c. c \<noteq> CHR '';'') s"
proof -
  have "(case Index s '';'' of None \<Rightarrow> s | Some i \<Rightarrow> take i s) = takeWhile (\<lambda>c. c \<noteq> CHR '';'') s"
    by (induction s) (auto simp: HasPrefix_def split: option.splits)
  then show ?thesis by (subst js_split.simps) (auto split: option.splits)
qed

text \<open>The lookup finds a cookie whose name occurs once.\<close>

lemma gc_render:
  assumes "list_all plain_cookie (as @ (n, v) # bs)" "n \<notin> fst ` set as" "n \<notin> fst ` set bs"
  shows "gc (render_cookies (as @ (n, v) # bs)) n = Some v"
proof -
  let ?key = "''; '' @ n @ ''=''"
  have n: "CHR ''='' \<notin> set n" "CHR '';'' \<notin> set v" using assms(1) by (auto simp: plain_cookie_def)
  have j: "''; '' @ render_cookies (as @ (n, v) # bs) = jar as @ ?key @ v @ jar bs"
    by (subst jar_render) (simp_all add: jar_def)
  have "Index (?key @ v @ jar bs) ?key = Some 0" by (simp add: HasPrefix_def)
  then have i: "Index (jar as @ ?key @ v @ jar bs) ?key = Some (length (jar as))"
    using assms by (subst Index_jar [OF _ n(1)]) simp_all
  have "Index (v @ jar bs) ?key = map_option (\<lambda>i. length v + i) (Index (jar bs @ []) ?key)"
    using Index_skip [OF n(2), of "jar bs" "CHR '' '' # n @ ''=''"] by simp
  also have "\<dots> = None" using assms by (subst Index_jar [OF _ n(1)]) simp_all
  finally have none: "Index (v @ jar bs) ?key = None" .
  have "drop (length a + length k) (a @ k @ r) = r" for a k r :: string by simp
  from this [of "jar as" ?key "v @ jar bs"]
  have d: "drop (length (jar as) + length ?key) (jar as @ ?key @ v @ jar bs) = v @ jar bs" .
  have "js_split (jar as @ ?key @ v @ jar bs) ?key = [jar as, v @ jar bs]"
    using js_split_two [OF _ i] none unfolding d by simp
  moreover have "takeWhile (\<lambda>c. c \<noteq> CHR '';'') (v @ jar bs) = v"
    using n(2) by (cases bs) (auto simp: jar_def takeWhile_append2 takeWhile_tail)
  ultimately show ?thesis unfolding gc_def Let_def j hd_js_split_semicolon by simp
qed

lemma gc_distinct:
  assumes "list_all plain_cookie ps" "distinct (map fst ps)" "(n, v) \<in> set ps"
  shows "gc (render_cookies ps) n = Some v"
proof -
  obtain as bs where ps: "ps = as @ (n, v) # bs" using split_list [OF assms(3)] by blast
  then show ?thesis using assms gc_render [of as n v bs] by auto
qed

section \<open>The decoder of the browser\<close>

text \<open>Standard base64 with padding, which \<open>atob\<close> decodes.\<close>

definition std_b64 :: "bytes \<Rightarrow> string" where
  "std_b64 bs = (let s = map url_to_std (b64_encode bs) in s @ replicate ((4 - length s mod 4) mod 4) CHR ''='')"

lemma b64dec_encode: "b64dec atob (b64_encode bs) = atob (std_b64 bs)"
  by (simp add: b64dec_def std_b64_def Let_def)

section \<open>The search\<close>

lemma hasZ_iff: "hasZ h b \<longleftrightarrow> (\<forall>i<b. i < 8 * length h \<longrightarrow> \<not> bit_at h i)"
proof -
  have "hasZ_loop h is \<longleftrightarrow> (\<forall>i\<in>set is. i < 8 * length h \<longrightarrow> \<not> bit_at h i)" for "is"
  proof (induction "is")
    case (Cons i "is")
    have "i div 8 < length h \<longleftrightarrow> i < 8 * length h" by (simp add: div_less_iff_less_mult mult.commute)
    then show ?case using Cons by (auto simp: Let_def bit_at_def and_push_bit_iff simp del: push_bit_of_1)
  qed simp
  then show ?thesis by (auto simp: hasZ_def)
qed

lemma page_loop_find:
  "page_loop pb df i non = find (\<lambda>n. hasZ (sha256 (pb @ PutUint64_BE n)) df) (map (\<lambda>k. non + of_nat k) [0..<i])"
proof (induction i arbitrary: non)
  case 0
  then show ?case by (subst page_loop.simps) simp
next
  case (Suc i)
  have "map (\<lambda>k. non + of_nat k) [0..<Suc i] = non # map (\<lambda>k. (non + 1) + of_nat k) [0..<i]"
    by (simp add: upt_conv_Cons map_Suc_upt [symmetric] add.assoc del: upt_Suc)
  then show ?case using Suc [of "non + 1"] by (subst page_loop.simps) simp
qed

text \<open>On a challenge the plugin issued.\<close>

lemma page_difficulty_issued:
  assumes "plain_payload pl"
  shows "page_difficulty (ChallengePayload_Marshal pl) = Some (if Difficulty pl = 0 then 18 else unat (Difficulty pl))"
proof -
  have "map_of (rev (zip (map fst (payload_members pl)) (payload_values pl))) ''diff'' = Some (JNum (FormatUint (Difficulty pl)))"
    by (simp add: payload_members_def payload_values_def)
  then show ?thesis by (simp add: page_difficulty_def json_parse_payload [OF assms])
qed

definition page_nonces :: "uint64 list" where
  "page_nonces = map of_nat [0..<80000000]"

lemma page_search: "page_loop pb df 80000000 0 = find (\<lambda>n. hasZ (sha256 (pb @ PutUint64_BE n)) df) page_nonces"
  unfolding page_loop_find page_nonces_def by (simp only: add_0)

lemma page_nonces_set: "n \<in> set page_nonces \<longleftrightarrow> unat n < 80000000"
proof
  assume "n \<in> set page_nonces"
  then obtain k where "n = of_nat k" "k < 80000000" unfolding page_nonces_def set_map set_upt by auto
  then show "unat n < 80000000" by (simp add: unat_of_nat take_bit_nat_eq_self_iff)
next
  assume "unat n < 80000000"
  then have "unat n \<in> {0..<80000000}" by simp
  then have "(of_nat (unat n) :: uint64) \<in> of_nat ` {0..<80000000}" by (rule imageI)
  then show "n \<in> set page_nonces" unfolding page_nonces_def set_map set_upt by simp
qed

lemma hasZ_sha256: "unat d \<le> 256 \<Longrightarrow> hasZ (sha256 bs) (unat d) = hasLeadingZeroBits (sha256 bs) d"
  unfolding hasZ_iff by (auto simp: hasLeadingZeroBits_def leading_zero_loop_iff)

text \<open>What the page does with a challenge the plugin issued: it tries the nonces in order.\<close>

lemma page_solve_issued:
  assumes "ch = issued_challenge k t0 salt d c" and "json_plain (IP c)" "json_plain (ConnID c)"
    and "d \<noteq> 0" "unat d \<le> 256" and "\<And>bs. atob (std_b64 bs) = Some bs"
    and "list_all plain_cookie ps" "distinct (map fst ps)"
    and "(''challenge'', Challenge ch) \<in> set ps" "(''challenge-sig'', Signature ch) \<in> set ps"
  shows "page_solve atob (render_cookies ps) =
     (case find (\<lambda>n. hasLeadingZeroBits (pow_hash (issued_bytes t0 salt d c) n) d) page_nonces of
        None \<Rightarrow> Inl CouldNotSolve | Some n \<Rightarrow> Inr (solution_of ch n))"
proof -
  let ?pl = "issued_payload t0 salt d c" and ?raw = "issued_bytes t0 salt d c"
  have g: "gc (render_cookies ps) ''challenge'' = Some (Challenge ch)"
    "gc (render_cookies ps) ''challenge-sig'' = Some (Signature ch)"
    using gc_distinct [OF assms(7,8)] assms(9,10) by simp_all
  have ne: "Challenge ch \<noteq> []" "Signature ch \<noteq> []"
    by (simp_all add: assms(1) issued_challenge_def issued_bytes_def Let_def)
  have b: "b64dec atob (Challenge ch) = Some ?raw"
    by (simp add: assms(1,6) issued_challenge_def Let_def b64dec_encode)
  have "plain_payload ?pl" using assms(2,3) by (simp add: plain_payload_def issued_payload_def)
  from page_difficulty_issued [OF this] have df: "page_difficulty (string_of ?raw) = Some (unat d)"
    using assms(4) by (simp add: issued_bytes_def issued_payload_def word_less_1)
  have "find (\<lambda>n. hasZ (sha256 (?raw @ PutUint64_BE n)) (unat d)) page_nonces
      = find (\<lambda>n. hasLeadingZeroBits (pow_hash ?raw n) d) page_nonces"
    by (simp add: hasZ_sha256 [OF assms(5)] pow_hash_def)
  then show ?thesis
    by (simp add: page_solve_def g ne b df page_search solution_of_def Solution.defs SignedChallenge.defs split: option.split)
qed

section \<open>Properties\<close>

text \<open>C20: The page and the plugin agree on leading zero bits for every difficulty that a hash can meet. For more
  bits than the hash has the plugin rejects, and the page only looks at the bits that are there.\<close>

theorem hasZ_agrees:
  "hasZ h (unat bits) = (if unat bits \<le> 8 * length h then hasLeadingZeroBits h bits else be_val h = 0)
   \<and> (if unat bits \<le> 8 * length h then True else \<not> hasLeadingZeroBits h bits)"
proof -
  have l: "hasLeadingZeroBits h bits \<longleftrightarrow> (\<forall>j<unat bits. j < 8 * length h \<and> \<not> bit_at h j)"
    by (auto simp: hasLeadingZeroBits_def leading_zero_loop_iff)
  have "be_val h = 0 \<longleftrightarrow> (\<forall>j<8 * length h. \<not> bit_at h j)"
  proof -
    have "be_val h = 0 \<longleftrightarrow> (\<forall>k. \<not> bit (be_val h) k)" by (auto simp: bit_eq_iff)
    also have "\<dots> \<longleftrightarrow> (\<forall>k<8 * length h. \<not> bit_at h (8 * length h - 1 - k))" by (auto simp: bit_be_val)
    also have "\<dots> \<longleftrightarrow> (\<forall>j<8 * length h. \<not> bit_at h j)"
    proof (intro iffI allI impI)
      fix j assume a: "\<forall>k<8 * length h. \<not> bit_at h (8 * length h - 1 - k)" and j: "j < 8 * length h"
      then show "\<not> bit_at h j" using a [rule_format, of "8 * length h - 1 - j"] by simp
    qed simp
    finally show ?thesis .
  qed
  moreover have "\<not> (\<forall>j<unat bits. j < 8 * length h \<and> \<not> bit_at h j)" if "\<not> unat bits \<le> 8 * length h"
    using that by (auto intro!: exI [of _ "8 * length h"])
  ultimately show ?thesis unfolding hasZ_iff l by (cases "unat bits \<le> 8 * length h") auto
qed

end
