(* ===== verification/Returned.thy ===== *)
theory Returned
  imports Admission Challenge_Page
begin

text \<open>
  What the plugin makes of a request that brings back what it was given: a challenge and its signature
  with a nonce, in its cookies, and a minted clearance. The cookies of the page (\<^verbatim>\<open>src/challenge.html\<close>)
  may come with others.
\<close>

section \<open>A solved challenge in cookies\<close>

lemma b64_plain_cookie: "n \<in> {''challenge'', ''challenge-sig''} \<Longrightarrow> plain_cookie (n, b64_encode bs)"
  using b64.enc_visible [of bs] b64.enc_avoids [of "CHR '';''" bs]
  by (auto simp: plain_cookie_def visible_def char_code_def)

lemma FormatUint_plain_cookie: "plain_cookie (''challenge-nonce'', FormatUint u)"
  using digits_of_digits [of "unat u"]
  by (auto simp: plain_cookie_def FormatUint_def list_all_iff visible_def char_code_def is_digit_def)

definition solved_cookies :: "SignedChallenge \<Rightarrow> uint64 \<Rightarrow> (string \<times> string) list" where
  "solved_cookies ch nonce =
     [(''challenge'', Challenge ch), (''challenge-sig'', Signature ch), (''challenge-nonce'', FormatUint nonce)]"

lemma parse_solved_cookies:
  assumes "list_all plain_cookie others" and "''challenge-clearance'' \<notin> fst ` set others"
    and "ch = issued_challenge k now salt d client"
  shows "parseChallengeCookies (render_cookies (others @ solved_cookies ch nonce))
    = \<lparr>ck_clearance = [], ck_challenge = Challenge ch, ck_signature = Signature ch, ck_nonce = FormatUint nonce\<rparr>"
proof -
  have "list_all plain_cookie (others @ solved_cookies ch nonce)"
    using assms(1) b64_plain_cookie FormatUint_plain_cookie
    by (simp add: solved_cookies_def assms(3) issued_challenge_def Let_def)
  moreover have "map_of (rev others) ''challenge-clearance'' = None"
    using assms(2) by (simp add: map_of_eq_None_iff)
  moreover have "parseChallengeCookies (render_cookies ps) = \<lparr>ck_clearance = last_cookie ps ''challenge-clearance'',
      ck_challenge = last_cookie ps ''challenge'', ck_signature = last_cookie ps ''challenge-sig'',
      ck_nonce = last_cookie ps ''challenge-nonce''\<rparr>" if "list_all plain_cookie ps" for ps
    by (rule trans [OF parse_render [OF that] foldl_assign_cookie])
  ultimately show ?thesis
    by (simp add: last_cookie_def solved_cookies_def)
qed

text \<open>What the plugin makes of a request whose cookies are a challenge it issued, its signature and a nonce.\<close>

lemma answered_request:
  assumes k: "request_cookies req = \<lparr>ck_clearance = [], ck_challenge = Challenge ch, ck_signature = Signature ch,
      ck_nonce = FormatUint nonce\<rparr>"
    and ch: "ch = issued_challenge k now salt d (request_client p req)" and key: "hmac_secret (p_mac p) = k"
    and conn: "json_plain (ConnID (request_client p req))" and d: "d \<noteq> 0"
  shows "cookie_solution p req \<longleftrightarrow> req_clock req CookieClock \<le>s now + 60
      \<and> hasLeadingZeroBits (pow_hash (issued_bytes now salt d (request_client p req)) nonce) d"
    and "\<not> valid_clearance p req" and "\<not> renewable_clearance p req"
proof -
  let ?c = "request_client p req"
  have "parsed_clearance p req = Inl ErrInvalidToken"
    by (simp add: parsed_clearance_def k parse_empty_clearance)
  then show "\<not> valid_clearance p req" "\<not> renewable_clearance p req"
    by (simp_all add: valid_clearance_def renewable_clearance_def)
  have ip: "json_plain (IP ?c)"
    using canonical_plain [OF canonical_resolveClientIP] by (simp add: resolveClientContext_def)
  have m: "matchChallengeContext (IP ?c) (ConnID ?c) ?c = None" by (simp add: matchChallengeContext_None)
  have sol: "\<lparr>Challenge = Challenge ch, Signature = Signature ch, Nonce = nonce\<rparr> = solution_of ch nonce"
    by (simp add: solution_of_def SignedChallenge.defs Solution.defs)
  have nz: "\<not> d < 1" using d by (simp add: word_less_1)
  have c: "cookie_solution p req \<longleftrightarrow>
      snd (verifySolutionMAC (req_clock req CookieClock) (p_mac p) [] (solution_of ch nonce) ?c) = None"
    by (simp add: cookie_solution_def k sol solves_def)
  show "cookie_solution p req \<longleftrightarrow> req_clock req CookieClock \<le>s now + 60
      \<and> hasLeadingZeroBits (pow_hash (issued_bytes now salt d ?c) nonce) d"
    unfolding c ch using verify_issued [OF ip conn key, of "req_clock req CookieClock" now salt d nonce ?c] nz m
    by (auto simp: ChallengeLifetime_def word_sless_alt word_sle_eq not_less split: if_splits)
qed

lemma solved_request:
  assumes "header_or_empty req ''cookie'' = render_cookies (others @ solved_cookies ch nonce)"
    and "list_all plain_cookie others" and "''challenge-clearance'' \<notin> fst ` set others"
    and "ch = issued_challenge k now salt d (request_client p req)" and "hmac_secret (p_mac p) = k"
    and "json_plain (ConnID (request_client p req))" and "d \<noteq> 0"
  shows "cookie_solution p req \<longleftrightarrow> req_clock req CookieClock \<le>s now + 60
      \<and> hasLeadingZeroBits (pow_hash (issued_bytes now salt d (request_client p req)) nonce) d"
    and "\<not> valid_clearance p req" and "\<not> renewable_clearance p req"
proof -
  have "request_cookies req = \<lparr>ck_clearance = [], ck_challenge = Challenge ch, ck_signature = Signature ch,
      ck_nonce = FormatUint nonce\<rparr>"
    using parse_solved_cookies [OF assms(2-4)] assms(1) by (simp add: request_cookies_def)
  note a = answered_request [OF this assms(4-7)]
  show "cookie_solution p req \<longleftrightarrow> req_clock req CookieClock \<le>s now + 60
      \<and> hasLeadingZeroBits (pow_hash (issued_bytes now salt d (request_client p req)) nonce) d"
    "\<not> valid_clearance p req" "\<not> renewable_clearance p req" using a by blast+
qed

text \<open>The cookies of the page, when its script has added the nonce.\<close>

lemma page_cookies_request:
  assumes "list_all plain_cookie ps" "distinct (map fst ps)" "''challenge-clearance'' \<notin> fst ` set ps"
    and "(''challenge'', Challenge sol) \<in> set ps" "(''challenge-sig'', Signature sol) \<in> set ps"
  shows "parseChallengeCookies (render_cookies (page_cookies ps sol)) = \<lparr>ck_clearance = [], ck_challenge = Challenge sol,
     ck_signature = Signature sol, ck_nonce = FormatUint (Nonce sol)\<rparr>"
proof -
  let ?qs = "page_cookies ps sol"
  have p: "list_all plain_cookie ?qs"
    using assms(1) FormatUint_plain_cookie by (auto simp: page_cookies_def list_all_iff)
  have "distinct (map fst (rev ?qs))"
    using assms(2) by (auto simp: page_cookies_def rev_map [symmetric] distinct_map_filter)
  then have m: "last_cookie ?qs n = v" if "(n, v) \<in> set ?qs" for n v
    using that by (simp add: last_cookie_def)
  have "''challenge-clearance'' \<notin> fst ` set ?qs" using assms(3) by (auto simp: page_cookies_def)
  then have c: "last_cookie ?qs ''challenge-clearance'' = []"
    by (simp add: last_cookie_def map_of_eq_None_iff [THEN iffD2])
  show ?thesis
    unfolding parse_render [OF p] foldl_assign_cookie c
    using m [of "''challenge''"] m [of "''challenge-sig''"] m [of "''challenge-nonce''"] assms(4,5)
    by (auto simp: page_cookies_def)
qed

section \<open>A minted clearance in a cookie\<close>

definition clearance_cookie :: "string \<Rightarrow> (string \<times> string) list" where
  "clearance_cookie token = [(''challenge-clearance'', token)]"

lemma minted_plain_cookie: "plain_cookie (''challenge-clearance'', minted_token k now salt ip)"
  using encodeClearanceBody_chars [of "now + ClearanceLifetime" salt ip] b64.enc_visible b64.enc_avoids [of "CHR '';''"]
  by (auto simp: plain_cookie_def minted_token_def Let_def list_all_iff visible_def char_code_def)

lemma clearance_request:
  assumes "header_or_empty req ''cookie'' = render_cookies (others @ clearance_cookie (minted_token k now salt ip))"
    and "list_all plain_cookie others" and "hmac_secret (p_mac p) = k"
  shows "parsed_clearance p req =
     (let client = resolveClientIP (p_clientIPSource p) req
      in if client \<noteq> [] \<and> ip \<noteq> client then Inl ErrContextMismatch else Inr (now + ClearanceLifetime))"
proof -
  have "list_all plain_cookie (others @ clearance_cookie (minted_token k now salt ip))"
    using assms(2) minted_plain_cookie by (simp add: clearance_cookie_def)
  then have "ck_clearance (request_cookies req) = minted_token k now salt ip"
    using assms(1) by (simp add: request_cookies_def parse_render foldl_assign_cookie last_cookie_def clearance_cookie_def assign_cookie_def)
  then show ?thesis
    using parse_signed_clearance [OF assms(3), of "now + ClearanceLifetime" salt ip]
    by (simp add: parsed_clearance_def minted_token_def Let_def)
qed

end
