(* ===== verification/Solved_Sample.thy ===== *)
theory Solved_Sample
  imports Crypt
begin

text \<open>
  A challenge with a nonce that solves it, evaluated in the kernel: the challenge issued at time 0 with
  difficulty 1 and an empty salt to the address \<open>::\<close>, and the nonce 1. The message, its padding and the
  eight bytes of the nonce fill exactly one block. The theorems on whole runs are applied to it.

  The message schedule and the rounds are evaluated in pieces; the digest is the one that other
  implementations of SHA-256 compute for this message.
\<close>

section \<open>The schedule and the rounds\<close>

text \<open>The 64 words of the message schedule.\<close>

definition sample_words :: "32 word list" where
  "sample_words =
     [2065855603, 574238764, 577075312, 574240304, 740451433, 1717969466, 824975987, 1634497570, 975315500,
     576943224, 574235194, 975338752, 0, 384, 0, 440, 1838031830, 4285775821, 463587474, 421598773,
     4195262041, 4179335788, 602747971, 1694190537, 2672660926, 51877319, 1318751596, 1821163365, 277062364,
     3962728123, 2056976054, 1134452184, 35454362, 2294159311, 2521330955, 4261708882, 982299459, 360572704,
     2214048294, 3242340242, 3264754508, 1568729573, 1429227138, 1668894512, 1131841585, 3701275134, 7234214,
     4115614422, 1754996762, 1117966854, 2298366420, 583176161, 1080679080, 3722512701, 94806344, 1550877539,
     2235153584, 1475807840, 2705831517, 3509678954, 662296767, 1322560178, 2518112714, 745188229]"

lemma sample_schedule_0: "extend_schedule 16 (take 16 sample_words) = take 32 sample_words"
  by code_simp

lemma sample_schedule_1: "extend_schedule 16 (take 32 sample_words) = take 48 sample_words"
  by code_simp

lemma sample_schedule_2: "extend_schedule 16 (take 48 sample_words) = take 64 sample_words"
  by code_simp

lemma sample_rounds_0:
  "sha_rounds [1779033703, 3144134277, 1013904242, 2773480762, 1359893119, 2600822924, 528734635, 1541459225]
     (zip (take 8 (drop 0 K256)) (take 8 (drop 0 sample_words)))
   = [396990576, 3717039000, 528636662, 2459543481, 1287381483, 969749354, 1742714502, 2872222612]"
  by code_simp

lemma sample_rounds_1:
  "sha_rounds [396990576, 3717039000, 528636662, 2459543481, 1287381483, 969749354, 1742714502, 2872222612]
     (zip (take 8 (drop 8 K256)) (take 8 (drop 8 sample_words)))
   = [810909632, 910430377, 3279298153, 2525392264, 3563431395, 307076056, 509535938, 149104220]"
  by code_simp

lemma sample_rounds_2:
  "sha_rounds [810909632, 910430377, 3279298153, 2525392264, 3563431395, 307076056, 509535938, 149104220]
     (zip (take 8 (drop 16 K256)) (take 8 (drop 16 sample_words)))
   = [3077160687, 2258943435, 95574288, 898206056, 2948401441, 2969764836, 1662590272, 1002126884]"
  by code_simp

lemma sample_rounds_3:
  "sha_rounds [3077160687, 2258943435, 95574288, 898206056, 2948401441, 2969764836, 1662590272, 1002126884]
     (zip (take 8 (drop 24 K256)) (take 8 (drop 24 sample_words)))
   = [1504168619, 1405385176, 702780063, 4222009144, 926584317, 1187933530, 2994621211, 4192905637]"
  by code_simp

lemma sample_rounds_4:
  "sha_rounds [1504168619, 1405385176, 702780063, 4222009144, 926584317, 1187933530, 2994621211, 4192905637]
     (zip (take 8 (drop 32 K256)) (take 8 (drop 32 sample_words)))
   = [3784450671, 4170696362, 2843214879, 889777117, 2076664612, 3434015599, 2382907570, 2761675526]"
  by code_simp

lemma sample_rounds_5:
  "sha_rounds [3784450671, 4170696362, 2843214879, 889777117, 2076664612, 3434015599, 2382907570, 2761675526]
     (zip (take 8 (drop 40 K256)) (take 8 (drop 40 sample_words)))
   = [763408491, 2537767869, 4121579987, 934537362, 4045107817, 2403519725, 3133612626, 4201926486]"
  by code_simp

lemma sample_rounds_6:
  "sha_rounds [763408491, 2537767869, 4121579987, 934537362, 4045107817, 2403519725, 3133612626, 4201926486]
     (zip (take 8 (drop 48 K256)) (take 8 (drop 48 sample_words)))
   = [3198953882, 197959505, 1693413596, 4012673191, 1003721770, 3871679713, 2674587372, 2083141564]"
  by code_simp

lemma sample_rounds_7:
  "sha_rounds [3198953882, 197959505, 1693413596, 4012673191, 1003721770, 3871679713, 2674587372, 2083141564]
     (zip (take 8 (drop 56 K256)) (take 8 (drop 56 sample_words)))
   = [4162643482, 2091038735, 1496063654, 2906250556, 3820186673, 3923515904, 3657710026, 403957214]"
  by code_simp

section \<open>The digest\<close>

lemma sha_rounds_append: "sha_rounds hs (xs @ ys) = sha_rounds (sha_rounds hs xs) ys"
  by (induction hs xs rule: sha_rounds.induct) (simp_all only: sha_rounds.simps append.simps Let_def)

lemma zip_split: "length xs = length ys \<Longrightarrow> zip xs ys = zip (take n xs) (take n ys) @ zip (drop n xs) (drop n ys)"
  by (metis append_take_drop_id length_take zip_append)

definition sample_client :: ClientContext where
  "sample_client = \<lparr>IP = ''::'', ConnID = []\<rparr>"

lemma sample_block:
  "block_words (sha_pad (issued_bytes 0 [] 1 sample_client @ PutUint64_BE 1)) = take 16 sample_words"
  by code_simp

lemma sample_padded: "length (sha_pad (issued_bytes 0 [] 1 sample_client @ PutUint64_BE 1)) = 64"
  by code_simp

lemma length_sample_words: "length sample_words = 64"
  by (simp add: sample_words_def)

lemma extend_schedule_add: "extend_schedule (m + n) w = extend_schedule n (extend_schedule m w)"
  by (induction m arbitrary: w) (simp_all add: Let_def)

lemma sample_extended: "extend_schedule 48 (take 16 sample_words) = sample_words"
proof -
  have "extend_schedule (16 + 16 + 16) (take 16 sample_words) = take 64 sample_words"
    by (simp only: extend_schedule_add sample_schedule_0 sample_schedule_1 sample_schedule_2)
  then show ?thesis using length_sample_words by simp
qed

lemma rounds_step:
  assumes "sha_rounds hs (zip (take 8 (drop n K256)) (take 8 (drop n sample_words))) = hs'"
  shows "sha_rounds hs (zip (drop n K256) (drop n sample_words))
    = sha_rounds hs' (zip (drop (n + 8) K256) (drop (n + 8) sample_words))"
proof -
  have "zip (drop n K256) (drop n sample_words) = zip (take 8 (drop n K256)) (take 8 (drop n sample_words))
      @ zip (drop 8 (drop n K256)) (drop 8 (drop n sample_words))"
    by (rule zip_split) (simp add: length_sample_words)
  then show ?thesis using assms by (simp only: sha_rounds_append drop_drop add.commute [of n])
qed

lemmas sample_rounds = rounds_step [OF sample_rounds_0] rounds_step [OF sample_rounds_1] rounds_step [OF sample_rounds_2]
  rounds_step [OF sample_rounds_3] rounds_step [OF sample_rounds_4] rounds_step [OF sample_rounds_5]
  rounds_step [OF sample_rounds_6] rounds_step [OF sample_rounds_7]

lemma sample_compressed: "sha_rounds H256 (zip K256 sample_words) =
    [4162643482, 2091038735, 1496063654, 2906250556, 3820186673, 3923515904, 3657710026, 403957214]"
proof -
  have "drop (56 + 8) K256 = []" by simp
  moreover have "sha_rounds H256 (zip (drop 0 K256) (drop 0 sample_words))
      = sha_rounds [4162643482, 2091038735, 1496063654, 2906250556, 3820186673, 3923515904, 3657710026, 403957214] (zip (drop (56 + 8) K256) (drop (56 + 8) sample_words))"
    unfolding H256_def using sample_rounds by simp
  ultimately show ?thesis by simp
qed

lemma sample_digest:
  "sha256 (issued_bytes 0 [] 1 sample_client @ PutUint64_BE 1) =
     [98, 38, 204, 129, 56, 10, 102, 148, 149, 155, 18, 24, 82, 137, 210, 118, 52, 193, 190, 176, 132, 225,
     130, 140, 249, 136, 19, 117, 115, 244, 178, 247]"
proof -
  let ?m = "sha_pad (issued_bytes 0 [] 1 sample_client @ PutUint64_BE 1)"
  have "sha_compress H256 ?m = map2 (+) H256 [4162643482, 2091038735, 1496063654, 2906250556, 3820186673, 3923515904, 3657710026, 403957214]"
    by (simp only: sha_compress_def sample_block sample_extended sample_compressed)
  moreover have "sha_blocks H256 ?m = sha_compress H256 ?m"
    using sample_padded by (subst sha_blocks.simps) (simp add: sha_blocks.simps [of _ "[]"])
  moreover have "concat (map word_bytes (map2 (+) H256 [4162643482, 2091038735, 1496063654, 2906250556, 3820186673, 3923515904, 3657710026, 403957214])) =
     [98, 38, 204, 129, 56, 10, 102, 148, 149, 155, 18, 24, 82, 137, 210, 118, 52, 193, 190, 176, 132, 225,
     130, 140, 249, 136, 19, 117, 115, 244, 178, 247]"
    by code_simp
  ultimately show ?thesis by (simp only: sha256_def)
qed

lemma sample_solved: "hasLeadingZeroBits (pow_hash (issued_bytes 0 [] 1 sample_client) 1) 1"
  unfolding pow_hash_def sample_digest by code_simp

end
