(* ===== verification/Sample_Run.thy ===== *)
theory Sample_Run
  imports Gateway_Run Returned Solved_Sample
begin

text \<open>
  A run in which a client solves its challenge: a VM with minimal difficulties refuses a request from
  \<open>::\<close>, and the client comes back with the challenge, its signature and the nonce of \<open>Solved_Sample\<close>.
\<close>

section \<open>The client\<close>

text \<open>A request from \<open>::\<close> with the given cookies, at time 0.\<close>

definition sample_request :: "string \<Rightarrow> request" where
  "sample_request cookies = \<lparr>req_header = (\<lambda>n. if n = ''cookie'' then Some cookies else None),
     req_property = (\<lambda>path. if path = [''source'', ''address''] then Some (bytes_of ''[::]:5000'') else None),
     req_clock = (\<lambda>_. 0), req_rand = (\<lambda>_. Some [])\<rparr>"

lemma sample_request_fields:
  "header_or_empty (sample_request cookies) ''cookie'' = cookies"
  "n \<noteq> ''cookie'' \<Longrightarrow> header_or_empty (sample_request cookies) n = []"
  "req_clock (sample_request cookies) c = 0" "req_rand (sample_request cookies) k = Some []"
  by (simp_all add: sample_request_def header_or_empty_def)

lemma sample_request_client: "resolveClientContext ipSourceAuto (sample_request cookies) = sample_client"
proof -
  have "normalizeIP ''[::]:5000'' = ''::''" by code_simp
  then show ?thesis
    by (simp add: sample_request_def resolveClientContext_def resolveClientIP_def peerIP_def resolveConnectionID_def
        sample_client_def)
qed

abbreviation secret_key :: bytes where
  "secret_key \<equiv> hmac_secret (p_mac secret_plugin)"

definition sample_challenge :: SignedChallenge where
  "sample_challenge = issued_challenge secret_key 0 [] 1 sample_client"

text \<open>The first request is refused with that challenge.\<close>

lemma sample_refused:
  "\<exists>p' ctx' lr. OnHttpRequestHeaders example_gateway (\<lambda>_. None) (sample_request []) secret_plugin (NewHttpContext secret_plugin 7)
       = (p', ctx', Respond lr)
     \<and> lr_headers lr = challenge_headers sample_challenge (requestIsHTTPS (sample_request [])) \<and> config_of p' = config_of secret_plugin"
proof -
  let ?x = "NewHttpContext secret_plugin 7" and ?r = "sample_request []"
  have o: "OnHttpRequestHeaders example_gateway (\<lambda>_. None) ?r secret_plugin ?x
      = issue_challenge example_gateway (\<lambda>_. None) ?r sample_client secret_plugin (?x\<lparr>h_client := sample_client\<rparr>)"
    using sample_request_client
    by (simp add: OnHttpRequestHeaders_def protected_request_def secret_plugin_fields sample_request_def header_or_empty_def
        parseChallengeCookies_def no_cookies_def try_clearance_def try_cookies_def try_token_def gate_and_issue_def
        ipintel_gate_def Let_def)
  have "challenge_difficulty (\<lambda>_. None) ?r secret_plugin 0 = 1"
    by (simp add: challenge_difficulty_def getEffectiveDifficulty_def secret_plugin_fields sample_request_fields
        clampDifficulty_def Let_def)
  then obtain p' ctx' lr where "issue_challenge example_gateway (\<lambda>_. None) ?r sample_client secret_plugin
      (?x\<lparr>h_client := sample_client\<rparr>) = (p', ctx', Respond lr)"
    "lr_headers lr = challenge_headers sample_challenge (requestIsHTTPS ?r)"
    using issue_challenge_spec [where gw = example_gateway and shared = "\<lambda>_. None" and req = ?r
        and client = sample_client and p = secret_plugin and ctx = "?x\<lparr>h_client := sample_client\<rparr>"]
    by (auto simp: sample_request_fields sample_challenge_def NewHttpContext_def)
  moreover from this have "config_of p' = config_of secret_plugin"
    using keeps_OnHttpRequestHeaders o by (fastforce simp: keeps_def)
  ultimately show ?thesis using o by auto
qed

text \<open>The second one solves it.\<close>

definition sample_answer :: request where
  "sample_answer = sample_request (render_cookies (solved_cookies sample_challenge 1))"

lemma sample_answer_solves:
  assumes "config_of p = config_of secret_plugin"
  shows "cookie_solution p sample_answer"
proof -
  have c: "request_client secret_plugin sample_answer = sample_client"
    by (simp add: secret_plugin_fields sample_answer_def sample_request_client)
  have "cookie_solution secret_plugin sample_answer \<longleftrightarrow> req_clock sample_answer CookieClock \<le>s 0 + 60
      \<and> hasLeadingZeroBits (pow_hash (issued_bytes 0 [] 1 (request_client secret_plugin sample_answer)) 1) 1"
  proof (rule solved_request(1) [where others = "[]"])
    show "header_or_empty sample_answer ''cookie'' = render_cookies ([] @ solved_cookies sample_challenge 1)"
      by (simp add: sample_answer_def sample_request_fields)
    show "sample_challenge = issued_challenge secret_key 0 [] 1 (request_client secret_plugin sample_answer)"
      unfolding c by (rule sample_challenge_def)
    show "json_plain (ConnID (request_client secret_plugin sample_answer))" unfolding c by (simp add: sample_client_def)
  qed simp_all
  moreover have "req_clock sample_answer CookieClock \<le>s 0 + 60"
    by (simp add: sample_answer_def sample_request_fields word_sle_eq)
  ultimately have "cookie_solution secret_plugin sample_answer" using sample_solved c by simp
  then show ?thesis using request_proofs_config(4) [OF assms] by simp
qed

section \<open>The run\<close>

lemma sample_run:
  "\<exists>p lr w. run secret_gjson example_gateway
       ([Started 0, Opened (0, 7), Handled (0, 7) secret_plugin (sample_request []) (Respond lr), Opened (0, 8)]
         @ [Handled (0, 8) p sample_answer Continue]) w
     \<and> lr_headers lr = challenge_headers sample_challenge (requestIsHTTPS (sample_request []))
     \<and> config_of p = config_of secret_plugin"
proof -
  obtain p x lr where h: "OnHttpRequestHeaders example_gateway (\<lambda>_. None) (sample_request []) secret_plugin
      (NewHttpContext secret_plugin 7) = (p, x, Respond lr)"
    and lr: "lr_headers lr = challenge_headers sample_challenge (requestIsHTTPS (sample_request []))"
    and p: "config_of p = config_of secret_plugin" using sample_refused by blast
  let ?w1 = "set_stream (0, 7) \<lparr>st_stage = AwaitResponse (sample_request []), st_ctx = x\<rparr> (set_vm 0 p secret_world)"
  let ?w2 = "set_stream (0, 8) \<lparr>st_stage = AwaitRequest, st_ctx = NewHttpContext p 8\<rparr> ?w1"
  have shared: "w_shared secret_world = (\<lambda>_. None)" by (simp add: secret_world_def initial_world_def)
  have "wstep secret_gjson example_gateway secret_world (Handled (0, 7) secret_plugin (sample_request []) (Respond lr)) ?w1"
    using wstep.req [OF secret_world(1,2) h [folded shared]] by simp
  from run.step [OF secret_world(3) this]
  have r1: "run secret_gjson example_gateway
      ([Started 0, Opened (0, 7), Handled (0, 7) secret_plugin (sample_request []) (Respond lr)]) ?w1" by simp
  have "wstep secret_gjson example_gateway ?w1 (Opened (0, 8)) ?w2"
    by (rule wstep.new) (simp_all add: secret_world_def initial_world_def)
  from run.step [OF r1 this]
  have r2: "run secret_gjson example_gateway
      [Started 0, Opened (0, 7), Handled (0, 7) secret_plugin (sample_request []) (Respond lr), Opened (0, 8)] ?w2" by simp
  obtain p2 x2 out where h2: "OnHttpRequestHeaders example_gateway (w_shared ?w2) sample_answer p (NewHttpContext p 8)
      = (p2, x2, out)" by (metis prod_cases3)
  have "out = Continue"
    using OnHttpRequestHeaders_cases [of p example_gateway "w_shared ?w2" sample_answer "NewHttpContext p 8"] h2
      sample_answer_solves [OF p] by (auto split: if_splits)
  moreover have "w_vms ?w2 0 = Some p"
    "w_streams ?w2 (0, 8) = Some \<lparr>st_stage = AwaitRequest, st_ctx = NewHttpContext p 8\<rparr>" by simp_all
  ultimately have "\<exists>w. wstep secret_gjson example_gateway ?w2 (Handled (0, 8) p sample_answer Continue) w"
    using wstep.req [OF _ _ h2] by blast
  with run.step [OF r2] lr p show ?thesis by blast
qed

end
