(* ===== verification/Agreement.thy ===== *)
theory Agreement
  imports Sample_Run
begin

text \<open>
  Who can come to hold what, along a run: a clearance that admits a client with a known address was
  minted in the run for that address, and goes back to a challenge the run issued to that address
  and a nonce that solves it.

  Both tokens are signed with the same key and without a tag that says which kind they are. The
  first section shows why the formats keep them apart for a client with a known address, and that
  they do not for a client without one.
\<close>

section \<open>Challenges and clearances are told apart\<close>

lemma json_object_last: "ms \<noteq> [] \<Longrightarrow> last (json_object ms) = CHR ''}''"
  by (induction ms rule: json_fields.induct) (auto simp: json_object_def)

lemma challenge_not_clearance:
  assumes "decodeClearanceBody (b64_encode (bytes_of (ChallengePayload_Marshal pl))) = Inr (x, ip)"
  shows "ip = [] \<or> last ip = CHR ''}''"
proof -
  let ?s = "ChallengePayload_Marshal pl"
  have "ip = string_of (drop clearanceFixedPrefix (bytes_of ?s))"
    using assms by (auto simp: decodeClearanceBody_def split: if_splits)
  also have "\<dots> = drop clearanceFixedPrefix (string_of (bytes_of ?s))" by (simp add: string_of_def drop_map)
  finally have ip: "ip = drop clearanceFixedPrefix ?s" by simp
  have "last ?s = CHR ''}''"
    unfolding ChallengePayload_Marshal_def by (rule json_object_last) (simp add: payload_members_def)
  then show ?thesis unfolding ip by (cases "drop clearanceFixedPrefix ?s = []") auto
qed

lemma decimal_length: "1 \<le> length (Itoa i)" "1 \<le> length (FormatUint u)"
proof -
  have "digits_of n \<noteq> []" for n by (subst digits_of.simps) simp
  then show "1 \<le> length (Itoa i)" "1 \<le> length (FormatUint u)" by (simp_all add: Itoa_def FormatUint_def Suc_le_eq)
qed

text \<open>Read as a clearance, a challenge expires in more than a hundred billion years.\<close>

lemma challenge_as_clearance:
  "\<exists>x. decodeClearanceBody (b64_encode (bytes_of (ChallengePayload_Marshal pl)))
      = Inr (x, drop clearanceFixedPrefix (ChallengePayload_Marshal pl)) \<and> 2 ^ 62 \<le> sint x"
proof -
  let ?s = "ChallengePayload_Marshal pl"
  obtain m ms where ms: "payload_members pl = (''ts'', Itoa (Timestamp pl)) # (''exp'', Itoa (Expiry pl))
      # (''diff'', FormatUint (Difficulty pl)) # m # ms" by (auto simp: payload_members_def)
  have quote: "json_quote ''ts'' = CHR 0x22 # ''ts'' @ [CHR 0x22]" "json_quote ''exp'' = CHR 0x22 # ''exp'' @ [CHR 0x22]"
    "json_quote ''diff'' = CHR 0x22 # ''diff'' @ [CHR 0x22]" by code_simp+
  have s: "?s = CHR ''{'' # json_quote ''ts'' @ '':'' @ Itoa (Timestamp pl) @ '','' @ json_quote ''exp'' @ '':''
      @ Itoa (Expiry pl) @ '','' @ json_quote ''diff'' @ '':'' @ FormatUint (Difficulty pl) @ '','' @ json_fields (m # ms)"
    by (simp only: ChallengePayload_Marshal_def json_object_def ms json_fields.simps append.simps)
  obtain rest where rest: "?s = CHR ''{'' # rest" using s by blast
  have "24 \<le> length ?s"
    using decimal_length(1) [of "Timestamp pl"] decimal_length(1) [of "Expiry pl"] decimal_length(2) [of "Difficulty pl"]
    unfolding s quote by simp
  then have len: "24 \<le> length (bytes_of ?s)" by simp
  obtain t where t: "take 8 (bytes_of ?s) = byte_of_char CHR ''{'' # t" "length t = 7"
    using len by (simp add: rest bytes_of_def)
  have v: "be_val (take 8 (bytes_of ?s)) = 123 * 256 ^ 7 + be_val t"
    unfolding t(1) be_val_Cons t(2) unat_byte_of_char by (simp add: char_code_def)
  have "be_val t < 256 ^ 7" using be_val_bound [of t] unfolding t(2) .
  then have "sint (Uint64_BE (bytes_of ?s)) = int (123 * 256 ^ 7 + be_val t)"
    using sint64_of_int [of "int (123 * 256 ^ 7 + be_val t)"] unfolding Uint64_BE_def v of_int_of_nat_eq by simp
  then have "2 ^ 62 \<le> sint (Uint64_BE (bytes_of ?s))" by simp
  moreover have "string_of (drop 24 (bytes_of ?s)) = drop 24 ?s"
    by (simp add: string_of_def bytes_of_def drop_map comp_def)
  ultimately show ?thesis
    using len by (simp add: decodeClearanceBody_def clearanceFixedPrefix_def clearanceSaltLen_def not_less)
qed

lemma canonical_not_brace: "canonical_ip ip \<Longrightarrow> ip \<noteq> [] \<Longrightarrow> last ip \<noteq> CHR ''}''"
proof
  assume c: "canonical_ip ip" "ip \<noteq> []" "last ip = CHR ''}''"
  then obtain b where "ip = IP_String b" by (auto simp: canonical_ip_def)
  then have "ip_char (last ip)" using IP_String_chars [of b] c(2) by (metis last_in_set list_all_iff)
  then show False using c(3) by (simp add: ip_char_def hexdigit_val_def char_code_def)
qed

text \<open>A time below \<open>2 ^ 55\<close> seconds (a billion years) has a leading zero byte.\<close>

lemma PutUint64_BE_zero:
  assumes "unat w < 2 ^ 55"
  shows "hd (PutUint64_BE w) = 0"
proof -
  have "unat (ucast (drop_bit 56 w) :: byte) = 0"
    using assms by (simp add: unat_ucast_drop)
  then show ?thesis by (simp add: PutUint64_BE_def unat_eq_0)
qed

lemma clearance_not_challenge:
  assumes "unat x < 2 ^ 55" and "b64_decode (encodeClearanceBody x salt ip) = Some raw"
  shows "ChallengePayload_Unmarshal (string_of raw) = None"
proof -
  have "raw = PutUint64_BE x @ take clearanceSaltLen (salt @ replicate clearanceSaltLen 0) @ bytes_of ip"
    using assms(2) unfolding encodeClearanceBody_def b64_decode_encode by simp
  then obtain bs where raw: "raw = 0 # bs"
    using PutUint64_BE_zero [OF assms(1)] PutUint64_BE_nonempty [of x] by (cases "PutUint64_BE x") auto
  have z: "char_of_byte 0 = CHR 0x00" by code_simp
  have "json_parse (string_of raw) = None"
    by (simp add: raw z json_parse_def json_fuel_def string_of_def json_ws_def is_digit_def char_code_def)
  then show ?thesis by (simp add: ChallengePayload_Unmarshal_def json_Unmarshal_def)
qed

section \<open>What the events of a run establish\<close>

definition event_ok :: "gateway \<Rightarrow> event list \<Rightarrow> event \<Rightarrow> bool" where
  "event_ok gw es e \<longleftrightarrow>
     (case e of
        Handled key p r out \<Rightarrow> plugin_ok p \<and> (\<exists>sh ctx. snd (snd (OnHttpRequestHeaders gw sh r p ctx)) = out)
      | AddedHeaders key p hs \<Rightarrow> hs = configured_headers p \<or>
          (\<exists>p0 r env env'. Handled key p0 r Continue \<in> set es \<and> config_of p0 = config_of p \<and>
             (renewable_clearance p r \<or> cookie_solution p r \<or> token_solution p r) \<and>
             hs = granted_headers gw p p r env env' @ configured_headers p)
      | _ \<Rightarrow> True)"

lemma wstep_event_ok:
  assumes "run gj gw es w" "wstep gj gw w e w'"
  shows "event_ok gw es e"
proof (cases e)
  case (Handled key p r out)
  from assms(2) [unfolded Handled] show ?thesis
    using run_ok [OF assms(1)] unfolding Handled event_ok_def world_ok_def
    by (elim handledE) (auto, (metis snd_conv)+)
next
  case (AddedHeaders key p hs)
  from assms(2) [unfolded AddedHeaders] show ?thesis
    unfolding AddedHeaders event_ok_def
    by (elim added_headersE) (use response_in_run [OF assms(1)] in \<open>simp, blast\<close>)
qed (simp_all add: event_ok_def)

lemma run_event_ok:
  assumes "run gj gw es w" "es = es1 @ e # es2"
  shows "event_ok gw es1 e"
  using assms
proof (induction arbitrary: es2 rule: run.induct)
  case (step es w e' w')
  then show ?case
    by (cases es2 rule: rev_cases) (auto intro: wstep_event_ok)
qed simp

section \<open>Signed and presented messages\<close>

text \<open>The messages an event puts a signature under the key \<open>k\<close> on, and the pairs of a message and a tag
  that a request presents.\<close>

definition signs :: "bytes \<Rightarrow> event \<Rightarrow> string \<Rightarrow> bool" where
  "signs k e m \<longleftrightarrow>
     (case e of
        Handled key p r (Respond lr) \<Rightarrow> hmac_secret (p_mac p) = k \<and>
          (\<exists>ch secure. lr_headers lr = challenge_headers ch secure \<and> m = Challenge ch)
      | AddedHeaders key p hs \<Rightarrow> hmac_secret (p_mac p) = k \<and>
          (\<exists>now salt ip age secure. m = encodeClearanceBody (now + ClearanceLifetime) salt ip \<and>
             (''Set-Cookie'', setCookie ''challenge-clearance'' (minted_token k now salt ip) age True secure) \<in> set hs)
      | _ \<Rightarrow> False)"

definition presents :: "request \<Rightarrow> string \<Rightarrow> string \<Rightarrow> bool" where
  "presents r m t \<longleftrightarrow>
     Cut (ck_clearance (request_cookies r)) CHR ''.'' = (m, t, True)
     \<or> m = ck_challenge (request_cookies r) \<and> t = ck_signature (request_cookies r)
     \<or> (\<exists>sol. Solution_Unmarshal (header_or_empty r ''challenge-token'') = Some sol \<and> m = Challenge sol \<and> t = Signature sol)"

text \<open>What the protocol rests on: no client presents a tag under the key for a message that the run has
  not signed before.\<close>

definition unforgeable :: "bytes \<Rightarrow> event list \<Rightarrow> bool" where
  "unforgeable k es \<longleftrightarrow>
     (\<forall>es1 key p r out es2 m t. es = es1 @ Handled key p r out # es2 \<longrightarrow> presents r m t \<longrightarrow>
        b64_decode t = Some (hmac_sha256 k (bytes_of m)) \<longrightarrow> (\<exists>e\<in>set es1. signs k e m))"

text \<open>What the proxy and the configuration provide: connection identifiers without characters that JSON
  escapes (Envoy's are decimal), no configured \<open>Set-Cookie\<close> header, and clocks below \<open>2 ^ 55\<close> seconds.\<close>

definition plain_environment :: "bytes \<Rightarrow> event list \<Rightarrow> bool" where
  "plain_environment k es \<longleftrightarrow>
     (\<forall>key p r out. Handled key p r out \<in> set es \<longrightarrow> json_plain (ConnID (request_client p r)))
     \<and> (\<forall>key p hs. AddedHeaders key p hs \<in> set es \<longrightarrow> p_headerName p \<noteq> ''Set-Cookie'')
     \<and> (\<forall>key p hs m x ip. AddedHeaders key p hs \<in> set es \<longrightarrow> signs k (AddedHeaders key p hs) m \<longrightarrow>
          decodeClearanceBody m = Inr (x, ip) \<longrightarrow> unat x < 2 ^ 55)"

lemma setCookie_inj: "setCookie n v m h s = setCookie n v' m h s \<Longrightarrow> v = v'"
  by (cases h; cases s) (simp_all add: setCookie_def)

lemma challenge_headers_inj:
  assumes "challenge_headers ch secure = challenge_headers ch' secure'"
  shows "ch = ch'"
proof -
  have "secure = secure'"
    using assms by (cases secure; cases secure') (simp_all add: challenge_headers_def clearCookie_def Let_def)
  then show ?thesis
    using assms setCookie_inj by (cases ch; cases ch') (auto simp: challenge_headers_def Let_def)
qed

lemma takeWhile_no_semicolon:
  "CHR '';'' \<notin> set a \<Longrightarrow> takeWhile (\<lambda>c. c \<noteq> CHR '';'') (a @ b) = a @ takeWhile (\<lambda>c. c \<noteq> CHR '';'') b"
  by (subst takeWhile_append2) auto

lemma takeWhile_setCookie:
  "CHR '';'' \<notin> set n \<Longrightarrow> CHR '';'' \<notin> set v
    \<Longrightarrow> takeWhile (\<lambda>c. c \<noteq> CHR '';'') (setCookie n v m h s) = n @ CHR ''='' # v"
  by (cases h; cases s) (simp_all add: setCookie_def takeWhile_no_semicolon)

lemma takeWhile_clearCookie:
  "CHR '';'' \<notin> set n \<Longrightarrow> takeWhile (\<lambda>c. c \<noteq> CHR '';'') (clearCookie n s) = n @ ''=''"
  by (cases s) (auto simp: clearCookie_def takeWhile_no_semicolon Let_def)

lemma minted_token_chars: "CHR '';'' \<notin> set (minted_token k now salt ip)"
  using encodeClearanceBody_chars(4) [of "now + ClearanceLifetime" salt ip] b64.enc_avoids [of "CHR '';''"]
  by (simp add: minted_token_def Let_def)

lemma minted_token_inj:
  assumes "minted_token k now salt ip = minted_token k' now' salt' ip'"
  shows "encodeClearanceBody (now + ClearanceLifetime) salt ip = encodeClearanceBody (now' + ClearanceLifetime) salt' ip'"
    and "ip = ip'"
proof -
  let ?b = "\<lambda>now salt ip. encodeClearanceBody (now + ClearanceLifetime) salt ip"
  have "Cut (minted_token k now salt ip) CHR ''.'' = (?b now salt ip, b64_encode (hmac_sha256 k (bytes_of (?b now salt ip))), True)"
    for k now salt ip
    using encodeClearanceBody_chars(1) [of "now + ClearanceLifetime" salt ip]
    by (simp add: minted_token_def Let_def Cut_append)
  then show e: "?b now salt ip = ?b now' salt' ip'" using assms by (metis prod.inject)
  show "ip = ip'"
    using decode_encode_clearance [of "now + ClearanceLifetime" salt ip]
      decode_encode_clearance [of "now' + ClearanceLifetime" salt' ip'] e by simp
qed

lemma clearance_cookie_inj:
  assumes "setCookie ''challenge-clearance'' tok m h s = setCookie ''challenge-clearance'' tok' m' h' s'"
    and "CHR '';'' \<notin> set tok" "CHR '';'' \<notin> set tok'"
  shows "tok = tok'"
proof -
  have "CHR '';'' \<notin> set ''challenge-clearance''" by simp
  note t = takeWhile_setCookie [OF this]
  from arg_cong [OF assms(1), of "takeWhile (\<lambda>c. c \<noteq> CHR '';'')"] show ?thesis
    unfolding t [OF assms(2)] t [OF assms(3)] by simp
qed

lemma clearance_cookie_not_cleared:
  assumes "setCookie ''challenge-clearance'' tok m h s = clearCookie n s'"
    and "CHR '';'' \<notin> set tok" "n \<in> {''challenge'', ''challenge-sig'', ''challenge-nonce''}"
  shows False
proof -
  have n: "CHR '';'' \<notin> set ''challenge-clearance''" "CHR '';'' \<notin> set n" using assms(3) by auto
  from arg_cong [OF assms(1), of "takeWhile (\<lambda>c. c \<noteq> CHR '';'')"] show False
    unfolding takeWhile_setCookie [OF n(1) assms(2)] takeWhile_clearCookie [OF n(2)] using assms(3) by auto
qed

lemma granted_forms:
  assumes "x \<in> set (granted_headers gw p q r env env')"
  shows "(\<exists>now salt age secure. x = (''Set-Cookie'', setCookie ''challenge-clearance''
        (minted_token (hmac_secret (p_mac q)) now salt (IP (request_client p r))) age True secure))
    \<or> (\<exists>n secure. x = (''Set-Cookie'', clearCookie n secure) \<and> n \<in> {''challenge'', ''challenge-sig'', ''challenge-nonce''})"
proof (cases "renewable_clearance p r")
  case True
  then show ?thesis
    using assms by (cases "mint_rand env' 16") (auto simp: granted_headers_def split: if_splits)
next
  case False
  then have "\<exists>salt. x \<in> set (issued_headers
      (minted_token (hmac_secret (p_mac q)) (mint_clock env) salt (IP (request_client p r))) (requestIsHTTPS r))"
    using assms unfolding granted_headers_def
    by (cases "protected_request gw r p \<and> \<not> valid_clearance p r"; cases "mint_rand env 16";
        cases "cookie_solution p r \<or> token_solution p r") (simp_all, blast+)
  then obtain salt where "x = (''Set-Cookie'', setCookie ''challenge-clearance''
        (minted_token (hmac_secret (p_mac q)) (mint_clock env) salt (IP (request_client p r))) 1800 True (requestIsHTTPS r))
      \<or> (\<exists>n. x = (''Set-Cookie'', clearCookie n (requestIsHTTPS r)) \<and> n \<in> {''challenge'', ''challenge-sig'', ''challenge-nonce''})"
    by (auto simp: issued_headers_def)
  then show ?thesis
  proof
    assume "x = (''Set-Cookie'', setCookie ''challenge-clearance''
        (minted_token (hmac_secret (p_mac q)) (mint_clock env) salt (IP (request_client p r))) 1800 True (requestIsHTTPS r))"
    then show ?thesis by (intro disjI1 exI)
  next
    assume "\<exists>n. x = (''Set-Cookie'', clearCookie n (requestIsHTTPS r)) \<and> n \<in> {''challenge'', ''challenge-sig'', ''challenge-nonce''}"
    then show ?thesis by (intro disjI2) (elim exE, intro exI)
  qed
qed

lemma granted_token:
  assumes "(''Set-Cookie'', setCookie ''challenge-clearance'' tok age True secure) \<in> set (granted_headers gw p q r env env')"
    and "CHR '';'' \<notin> set tok"
  shows "\<exists>now salt. tok = minted_token (hmac_secret (p_mac q)) now salt (IP (request_client p r))"
  using granted_forms [OF assms(1)]
proof (elim disjE exE conjE)
  fix now salt age' secure'
  assume "(''Set-Cookie'', setCookie ''challenge-clearance'' tok age True secure) = (''Set-Cookie'', setCookie ''challenge-clearance''
      (minted_token (hmac_secret (p_mac q)) now salt (IP (request_client p r))) age' True secure')"
  from clearance_cookie_inj [OF conjunct2 [OF this [unfolded prod.inject]] assms(2) minted_token_chars]
  show ?thesis by blast
next
  fix n secure'
  assume "(''Set-Cookie'', setCookie ''challenge-clearance'' tok age True secure) = (''Set-Cookie'', clearCookie n secure')"
    and n: "n \<in> {''challenge'', ''challenge-sig'', ''challenge-nonce''}"
  from clearance_cookie_not_cleared [OF conjunct2 [OF this(1) [unfolded prod.inject]] assms(2) n] show ?thesis ..
qed

lemma granted_nonempty:
  assumes "granted_headers gw p q r env env' \<noteq> []"
  shows "protected_request gw r p" "\<not> valid_clearance p r"
  using assms by (auto simp only: granted_headers_def split: if_splits)

lemma signed_clearance:
  assumes "event_ok gw es (AddedHeaders key p hs)" and "signs k (AddedHeaders key p hs) m"
    and "p_headerName p \<noteq> ''Set-Cookie''"
  shows "\<exists>p0 r now salt. Handled key p0 r Continue \<in> set es \<and> config_of p0 = config_of p
    \<and> protected_request gw r p \<and> \<not> valid_clearance p r
    \<and> (renewable_clearance p r \<or> cookie_solution p r \<or> token_solution p r)
    \<and> m = encodeClearanceBody (now + ClearanceLifetime) salt (IP (request_client p r))"
proof -
  obtain now salt ip age secure where m: "m = encodeClearanceBody (now + ClearanceLifetime) salt ip"
    and h: "(''Set-Cookie'', setCookie ''challenge-clearance'' (minted_token k now salt ip) age True secure) \<in> set hs"
    using assms(2) by (auto simp: signs_def)
  have c: "(''Set-Cookie'', v) \<notin> set (configured_headers p)" for v
    using assms(3) by (simp add: configured_headers_def)
  obtain p0 r env env' where r: "Handled key p0 r Continue \<in> set es" "config_of p0 = config_of p"
    "renewable_clearance p r \<or> cookie_solution p r \<or> token_solution p r"
    and g: "hs = granted_headers gw p p r env env' @ configured_headers p"
    using assms(1) h c by (auto simp: event_ok_def)
  have t: "(''Set-Cookie'', setCookie ''challenge-clearance'' (minted_token k now salt ip) age True secure)
      \<in> set (granted_headers gw p p r env env')"
    using h c unfolding g by simp
  then have "granted_headers gw p p r env env' \<noteq> []" by (metis in_set_conv_nth less_nat_zero_code list.size(3))
  note n = granted_nonempty [OF this]
  from granted_token [OF t minted_token_chars] obtain now' salt'
    where "minted_token k now salt ip = minted_token (hmac_secret (p_mac p)) now' salt' (IP (request_client p r))" by blast
  from minted_token_inj(1) [OF this] show ?thesis using r m n by blast
qed

section \<open>What an accepted proof presents\<close>

lemma accepted_clearance:
  assumes "parsed_clearance p r = Inr x" and "IP (request_client p r) \<noteq> []"
  shows "\<exists>m t. presents r m t \<and> b64_decode t = Some (hmac_sha256 (hmac_secret (p_mac p)) (bytes_of m))
    \<and> decodeClearanceBody m = Inr (x, IP (request_client p r))"
proof -
  obtain m t ok where c: "Cut (ck_clearance (request_cookies r)) CHR ''.'' = (m, t, ok)" by (metis prod_cases3)
  show ?thesis
    using assms c unfolding parsed_clearance_def parseClearanceMAC_eq presents_def resolveClientContext_def
    by (intro exI [of _ m] exI [of _ t]) (auto split: if_splits sum.splits)
qed

text \<open>The clock read with which a solution is accepted.\<close>

definition solution_clock :: "pluginContext \<Rightarrow> request \<Rightarrow> clock_read" where
  "solution_clock p r = (if cookie_solution p r then CookieClock else TokenClock)"

text \<open>The solution a request submits, in its cookies or in its token: the nonce is the text of the nonce
  cookie read as a decimal number, or the member of the token.\<close>

definition submits :: "request \<Rightarrow> clock_read \<Rightarrow> Solution \<Rightarrow> bool" where
  "submits r clk sol \<longleftrightarrow>
     (if clk = CookieClock
      then Challenge sol = ck_challenge (request_cookies r) \<and> Signature sol = ck_signature (request_cookies r)
        \<and> ParseUint (ck_nonce (request_cookies r)) 64 = Some (Nonce sol)
      else Solution_Unmarshal (header_or_empty r ''challenge-token'') = Some sol)"

lemma submits_presents: "submits r clk sol \<Longrightarrow> presents r (Challenge sol) (Signature sol)"
  by (auto simp: submits_def presents_def split: if_splits)

lemma accepted_solution:
  assumes "cookie_solution p r \<or> token_solution p r"
  shows "\<exists>sol raw pl. submits r (solution_clock p r) sol \<and> b64_decode (Challenge sol) = Some raw
    \<and> b64_decode (Signature sol) = Some (hmac_sha256 (hmac_secret (p_mac p)) (bytes_of (Challenge sol)))
    \<and> ChallengePayload_Unmarshal (string_of raw) = Some pl \<and> hasLeadingZeroBits (pow_hash raw (Nonce sol)) (Difficulty pl)
    \<and> matchChallengeContext (Context pl) (CtxConnID pl) (request_client p r) = None
    \<and> req_clock r (solution_clock p r) \<le>s Expiry pl"
proof -
  have "\<exists>raw pl. b64_decode (Challenge sol) = Some raw
      \<and> b64_decode (Signature sol) = Some (hmac_sha256 (hmac_secret (p_mac p)) (bytes_of (Challenge sol)))
      \<and> ChallengePayload_Unmarshal (string_of raw) = Some pl \<and> hasLeadingZeroBits (pow_hash raw (Nonce sol)) (Difficulty pl)
      \<and> matchChallengeContext (Context pl) (CtxConnID pl) (request_client p r) = None \<and> req_clock r clk \<le>s Expiry pl"
    if "solves p r clk sol" for clk sol
    using that by (auto simp: solves_def verifySolutionMAC_eq word_sless_alt word_sle_eq split: if_splits option.splits)
  moreover have "\<exists>sol. submits r (solution_clock p r) sol \<and> solves p r (solution_clock p r) sol"
  proof (cases "cookie_solution p r")
    case True
    then obtain nonce where n: "ParseUint (ck_nonce (request_cookies r)) 64 = Some nonce" "solves p r CookieClock
        \<lparr>Challenge = ck_challenge (request_cookies r), Signature = ck_signature (request_cookies r), Nonce = nonce\<rparr>"
      by (auto simp: cookie_solution_def Let_def split: option.splits)
    show ?thesis by (intro exI conjI, rule submits_def [THEN iffD2]) (use n True in \<open>auto simp: solution_clock_def\<close>)
  next
    case False
    then show ?thesis
      using assms by (auto simp: token_solution_def submits_def solution_clock_def Let_def split: option.splits)
  qed
  ultimately show ?thesis by blast
qed

lemma respond_challenge:
  assumes "snd (snd (OnHttpRequestHeaders gw sh r p ctx)) = Respond lr"
  shows "\<exists>salt d. lr_headers lr = challenge_headers
      (issued_challenge (hmac_secret (p_mac p)) (req_clock r IssueClock) salt d (request_client p r)) (requestIsHTTPS r)
    \<and> (diff_ok p \<longrightarrow> p_minDifficulty p \<le> d \<and> d \<le> p_maxDifficulty p)"
proof -
  obtain q where q: "same_but_mac p q" and h: "OnHttpRequestHeaders gw sh r p ctx = by_proofs gw sh r p q ctx"
    using OnHttpRequestHeaders_by_proofs by blast
  note h = h [unfolded by_proofs_def]
  have "snd (snd (gate_and_issue gw sh r (request_client p r) q (ctx\<lparr>h_client := request_client p r\<rparr>))) = Respond lr"
    using assms unfolding h by (simp split: if_split_asm)
  then obtain x where x: "snd (snd (issue_challenge gw sh r (request_client p r) q x)) = Respond lr"
    by (auto simp: gate_and_issue_def split: option.splits prod.splits ipintelDecision.splits)
  obtain p' ctx' where i: "issue_challenge gw sh r (request_client p r) q x = (p', ctx', Respond lr)"
    using x by (cases "issue_challenge gw sh r (request_client p r) q x") auto
  obtain salt where "lr_headers lr = challenge_headers (issued_challenge (hmac_secret (p_mac q)) (req_clock r IssueClock) salt
      (challenge_difficulty sh r q (h_ipintelDifficulty x)) (request_client p r)) (requestIsHTTPS r)"
    using issue_challenge_spec [where gw = gw and shared = sh and req = r and client = "request_client p r" and p = q and ctx = x] i
    by (auto split: option.splits)
  then show ?thesis
    using same_but_mac_fields(8) [OF q] challenge_difficulty_same [OF q] challenge_difficulty_ok [of p sh r]
    by (intro exI conjI) auto
qed

section \<open>Agreement\<close>

text \<open>In the run, a request from \<open>ip\<close> was answered with a challenge, and a later request from \<open>ip\<close> to a
  protected resource, without a clearance that is valid or renewable, submitted that challenge with a
  nonce that solves it, at most sixty seconds after it was issued, and was admitted.\<close>

definition solved_own_challenge :: "gateway \<Rightarrow> bytes \<Rightarrow> string \<Rightarrow> event list \<Rightarrow> bool" where
  "solved_own_challenge gw k ip es \<longleftrightarrow>
     (\<exists>es1 key p r es2 clk sol key0 p0 r0 lr salt d.
        es = es1 @ Handled key p r Continue # es2 \<and> hmac_secret (p_mac p) = k \<and> IP (request_client p r) = ip
        \<and> protected_request gw r p \<and> \<not> valid_clearance p r \<and> \<not> renewable_clearance p r
        \<and> submits r clk sol
        \<and> Handled key0 p0 r0 (Respond lr) \<in> set es1 \<and> hmac_secret (p_mac p0) = k \<and> IP (request_client p0 r0) = ip
        \<and> lr_headers lr = challenge_headers (issued_challenge k (req_clock r0 IssueClock) salt d (request_client p0 r0)) (requestIsHTTPS r0)
        \<and> (diff_ok p0 \<longrightarrow> p_minDifficulty p0 \<le> d \<and> d \<le> p_maxDifficulty p0)
        \<and> Challenge sol = Challenge (issued_challenge k (req_clock r0 IssueClock) salt d (request_client p0 r0))
        \<and> hasLeadingZeroBits (pow_hash (issued_bytes (req_clock r0 IssueClock) salt d (request_client p0 r0)) (Nonce sol))
            (if d < 1 then DefaultDifficulty else d)
        \<and> req_clock r clk \<le>s req_clock r0 IssueClock + 60)"

lemma solved_own_challenge_mono: "solved_own_challenge gw k ip es \<Longrightarrow> solved_own_challenge gw k ip (es @ es')"
  unfolding solved_own_challenge_def by (metis append.assoc append_Cons)

lemma plain_environmentD:
  assumes "plain_environment k es"
  shows "Handled key p r out \<in> set es \<Longrightarrow> json_plain (ConnID (request_client p r))"
    and "AddedHeaders key p hs \<in> set es \<Longrightarrow> p_headerName p \<noteq> ''Set-Cookie''"
    and "AddedHeaders key p hs \<in> set es \<Longrightarrow> signs k (AddedHeaders key p hs) m
      \<Longrightarrow> decodeClearanceBody m = Inr (x, ip) \<Longrightarrow> unat x < 2 ^ 55"
  using assms unfolding plain_environment_def by blast+

lemma client_canonical: "canonical_ip (IP (request_client p r))"
  by (simp add: resolveClientContext_def canonical_resolveClientIP)

lemma unforgeableD:
  assumes "unforgeable k es" "es = es1 @ Handled key p r out # es2" "presents r m t"
    and "b64_decode t = Some (hmac_sha256 k (bytes_of m))"
  shows "\<exists>e\<in>set es1. signs k e m"
  using assms unfolding unforgeable_def by blast

lemma signed_challenge:
  assumes "event_ok gw es (Handled key p r (Respond lr))" and "signs k (Handled key p r (Respond lr)) m"
  shows "hmac_secret (p_mac p) = k \<and> (\<exists>salt d. m = b64_encode (issued_bytes (req_clock r IssueClock) salt d (request_client p r))
    \<and> lr_headers lr = challenge_headers (issued_challenge k (req_clock r IssueClock) salt d (request_client p r)) (requestIsHTTPS r)
    \<and> (diff_ok p \<longrightarrow> p_minDifficulty p \<le> d \<and> d \<le> p_maxDifficulty p))"
proof -
  have k: "hmac_secret (p_mac p) = k" using assms(2) by (simp add: signs_def)
  obtain ch secure where m: "m = Challenge ch" and ch: "lr_headers lr = challenge_headers ch secure"
    using assms(2) by (auto simp: signs_def)
  obtain sh ctx where "snd (snd (OnHttpRequestHeaders gw sh r p ctx)) = Respond lr"
    using assms(1) by (auto simp: event_ok_def)
  from respond_challenge [OF this] obtain salt d
    where h: "lr_headers lr = challenge_headers (issued_challenge k (req_clock r IssueClock) salt d (request_client p r)) (requestIsHTTPS r)"
      and d: "diff_ok p \<longrightarrow> p_minDifficulty p \<le> d \<and> d \<le> p_maxDifficulty p" unfolding k by blast
  have "ch = issued_challenge k (req_clock r IssueClock) salt d (request_client p r)" using challenge_headers_inj ch h by metis
  then show ?thesis using k m h d by (auto simp: issued_challenge_def Let_def)
qed

text \<open>A solution that is accepted from a known address solves a challenge the run issued to that address at
  most sixty seconds ago.\<close>

lemma solution_issued:
  assumes run: "run gj gw es w" and unf: "unforgeable k es" and env: "plain_environment k es"
    and es: "es = es1 @ Handled key p r out # es2" and k: "hmac_secret (p_mac p) = k"
    and sol: "cookie_solution p r \<or> token_solution p r" and ip: "IP (request_client p r) \<noteq> []"
  shows "\<exists>sol key0 p0 r0 lr salt d. submits r (solution_clock p r) sol \<and> Handled key0 p0 r0 (Respond lr) \<in> set es1 \<and> hmac_secret (p_mac p0) = k
    \<and> IP (request_client p0 r0) = IP (request_client p r)
    \<and> lr_headers lr = challenge_headers (issued_challenge k (req_clock r0 IssueClock) salt d (request_client p0 r0)) (requestIsHTTPS r0)
    \<and> (diff_ok p0 \<longrightarrow> p_minDifficulty p0 \<le> d \<and> d \<le> p_maxDifficulty p0)
    \<and> Challenge sol = Challenge (issued_challenge k (req_clock r0 IssueClock) salt d (request_client p0 r0))
    \<and> hasLeadingZeroBits (pow_hash (issued_bytes (req_clock r0 IssueClock) salt d (request_client p0 r0)) (Nonce sol))
        (if d < 1 then DefaultDifficulty else d)
    \<and> req_clock r (solution_clock p r) \<le>s req_clock r0 IssueClock + 60"
proof -
  obtain sol raw pl where sub: "submits r (solution_clock p r) sol" and m: "presents r (Challenge sol) (Signature sol)"
    "b64_decode (Challenge sol) = Some raw" "b64_decode (Signature sol) = Some (hmac_sha256 k (bytes_of (Challenge sol)))"
    "ChallengePayload_Unmarshal (string_of raw) = Some pl" "hasLeadingZeroBits (pow_hash raw (Nonce sol)) (Difficulty pl)"
    "matchChallengeContext (Context pl) (CtxConnID pl) (request_client p r) = None"
    "req_clock r (solution_clock p r) \<le>s Expiry pl"
    using accepted_solution [OF sol] submits_presents unfolding k by blast
  let ?m = "Challenge sol"
  obtain e where e: "e \<in> set es1" "signs k e ?m" using unforgeableD [OF unf es m(1,3)] by blast
  obtain a b where ab: "es1 = a @ e # b" using split_list [OF e(1)] by blast
  then have ok: "event_ok gw a e" and mem: "e \<in> set es" using run_event_ok [OF run, of a e] es by auto
  show ?thesis
  proof (cases e)
    case (Handled key0 p0 r0 out0)
    then obtain lr where out: "out0 = Respond lr" using e(2) by (auto simp: signs_def split: outcome.splits)
    let ?now = "req_clock r0 IssueClock"
    obtain salt d where c: "hmac_secret (p_mac p0) = k" "?m = b64_encode (issued_bytes ?now salt d (request_client p0 r0))"
      "lr_headers lr = challenge_headers (issued_challenge k ?now salt d (request_client p0 r0)) (requestIsHTTPS r0)"
      "diff_ok p0 \<longrightarrow> p_minDifficulty p0 \<le> d \<and> d \<le> p_maxDifficulty p0"
      using signed_challenge [of gw a key0 p0 r0 lr k ?m] ok e(2) Handled out by blast
    have raw: "raw = issued_bytes ?now salt d (request_client p0 r0)" using m(2) c(2) by simp
    have "plain_payload (issued_payload ?now salt d (request_client p0 r0))"
      using plain_environmentD(1) [OF env, of key0 p0 r0 out0] mem Handled canonical_plain [OF client_canonical]
      by (simp add: plain_payload_def issued_payload_def)
    from payload_roundtrip [OF this] have pl: "pl = issued_payload ?now salt d (request_client p0 r0)"
      using m(4) by (simp add: raw issued_bytes_def)
    have "IP (request_client p0 r0) = IP (request_client p r)"
      using m(6) ip by (auto simp: pl issued_payload_def matchChallengeContext_def split: if_splits)
    moreover have "hasLeadingZeroBits (pow_hash (issued_bytes ?now salt d (request_client p0 r0)) (Nonce sol))
        (if d < 1 then DefaultDifficulty else d)"
      using m(5) unfolding raw pl by (simp add: issued_payload_def)
    moreover have same: "Challenge sol = Challenge (issued_challenge k ?now salt d (request_client p0 r0))"
      using c(2) by (simp add: issued_challenge_def Let_def)
    moreover have "req_clock r (solution_clock p r) \<le>s ?now + 60"
      using m(7) unfolding pl by (simp add: issued_payload_def ChallengeLifetime_def)
    ultimately show ?thesis using sub e(1) c(1,3,4) same unfolding Handled out by blast
  next
    case (AddedHeaders key0 p0 hs)
    obtain x salt i where b: "?m = encodeClearanceBody x salt i" using e(2) AddedHeaders by (auto simp: signs_def)
    have "unat x < 2 ^ 55"
      using plain_environmentD(3) [OF env, of key0 p0 hs ?m x i] mem e(2) AddedHeaders b decode_encode_clearance by metis
    from clearance_not_challenge [OF this] m(2,4) b show ?thesis by simp
  qed (use e(2) in \<open>simp_all add: signs_def\<close>)
qed

lemma solution_agreement:
  assumes "run gj gw es w" and "unforgeable k es" and "plain_environment k es"
    and "es = es1 @ Handled key p r Continue # es2" and "hmac_secret (p_mac p) = k"
    and "cookie_solution p r \<or> token_solution p r" and "IP (request_client p r) \<noteq> []"
    and "protected_request gw r p" "\<not> valid_clearance p r" "\<not> renewable_clearance p r"
  shows "solved_own_challenge gw k (IP (request_client p r)) (es1 @ [Handled key p r Continue])"
  using solution_issued [OF assms(1-7)] assms(5,8-10) unfolding solved_own_challenge_def by blast

text \<open>A clearance that is accepted from a known address was added by the run for that address, on a stream
  whose request was admitted with a proof.\<close>

lemma clearance_granted:
  assumes run: "run gj gw es w" and unf: "unforgeable k es" and env: "plain_environment k es"
    and es: "es = es1 @ Handled key p r out # es2" and k: "hmac_secret (p_mac p) = k"
    and cl: "parsed_clearance p r = Inr x" and ip: "IP (request_client p r) \<noteq> []"
  shows "\<exists>a b key0 p0 hs m. es1 = a @ AddedHeaders key0 p0 hs # b \<and> event_ok gw a (AddedHeaders key0 p0 hs)
    \<and> signs k (AddedHeaders key0 p0 hs) m \<and> decodeClearanceBody m = Inr (x, IP (request_client p r))"
proof -
  let ?ip = "IP (request_client p r)"
  from accepted_clearance [OF cl ip] obtain m t where m: "presents r m t"
    "b64_decode t = Some (hmac_sha256 k (bytes_of m))" "decodeClearanceBody m = Inr (x, ?ip)"
    unfolding k by blast
  obtain e where e: "e \<in> set es1" "signs k e m" using unforgeableD [OF unf es m(1,2)] by blast
  obtain a b where ab: "es1 = a @ e # b" using split_list [OF e(1)] by blast
  then have ok: "event_ok gw a e" using run_event_ok [OF run, of a e] es by auto
  show ?thesis
  proof (cases e)
    case (Handled key0 p0 r0 out0)
    then obtain lr where "out0 = Respond lr" using e(2) by (auto simp: signs_def split: outcome.splits)
    then obtain now salt d where "m = b64_encode (issued_bytes now salt d (request_client p0 r0))"
      using signed_challenge [of gw a key0 p0 r0 lr k m] ok e(2) Handled by blast
    then have "?ip = [] \<or> last ?ip = CHR ''}''" using challenge_not_clearance m(3) unfolding issued_bytes_def by blast
    then show ?thesis using canonical_not_brace [OF client_canonical] ip by blast
  next
    case (AddedHeaders key0 p0 hs)
    then show ?thesis using ab ok e(2) m(3) by blast
  qed (use e(2) in \<open>simp_all add: signs_def\<close>)
qed

text \<open>The chain of renewals leads back to a solution: induction on the length of the run before the request.\<close>

lemma clearance_agreement:
  assumes run: "run gj gw es w" and unf: "unforgeable k es" and env: "plain_environment k es"
  shows "es = es1 @ Handled key p r out # es2 \<Longrightarrow> hmac_secret (p_mac p) = k
    \<Longrightarrow> valid_clearance p r \<or> renewable_clearance p r \<Longrightarrow> IP (request_client p r) \<noteq> []
    \<Longrightarrow> solved_own_challenge gw k (IP (request_client p r)) es1"
proof (induction "length es1" arbitrary: es1 key p r out es2 rule: less_induct)
  case less
  let ?ip = "IP (request_client p r)"
  obtain x where "parsed_clearance p r = Inr x"
    using less.prems(3) by (auto simp: valid_clearance_def renewable_clearance_def split: sum.splits)
  from clearance_granted [OF run unf env less.prems(1,2) this less.prems(4)] obtain a b key2 p2 hs m
    where ab: "es1 = a @ AddedHeaders key2 p2 hs # b" and ok: "event_ok gw a (AddedHeaders key2 p2 hs)"
      and sg: "signs k (AddedHeaders key2 p2 hs) m" and m: "decodeClearanceBody m = Inr (x, ?ip)" by blast
  have mem: "AddedHeaders key2 p2 hs \<in> set es" using ab less.prems(1) by simp
  obtain p0 r0 now salt where h: "Handled key2 p0 r0 Continue \<in> set a" "config_of p0 = config_of p2"
    "protected_request gw r0 p2" "\<not> valid_clearance p2 r0" "renewable_clearance p2 r0 \<or> cookie_solution p2 r0 \<or> token_solution p2 r0"
    and mb: "m = encodeClearanceBody (now + ClearanceLifetime) salt (IP (request_client p2 r0))"
    using signed_clearance [OF ok sg plain_environmentD(2) [OF env mem]] by blast
  note f = request_proofs_config [OF h(2)]
  have ip: "IP (request_client p0 r0) = ?ip"
    using m unfolding mb decode_encode_clearance f(6) by simp
  have k0: "hmac_secret (p_mac p0) = k"
    using config_of_fields(12) [OF h(2)] sg by (simp add: signs_def)
  obtain a1 a2 where a: "a = a1 @ Handled key2 p0 r0 Continue # a2" using split_list [OF h(1)] by blast
  then have es0: "es = a1 @ Handled key2 p0 r0 Continue # (a2 @ AddedHeaders key2 p2 hs # b @ Handled key p r out # es2)"
    using ab less.prems(1) by simp
  have "solved_own_challenge gw k ?ip (a1 @ [Handled key2 p0 r0 Continue]) \<or> solved_own_challenge gw k ?ip a1"
    using h(3-5) solution_agreement [OF run unf env es0 k0] less.hyps [OF _ es0 k0] less.prems(4) ip f(1-5) ab a by auto
  then show ?case
    using solved_own_challenge_mono [of gw k ?ip "a1 @ [Handled key2 p0 r0 Continue]" "a2 @ AddedHeaders key2 p2 hs # b"]
      solved_own_challenge_mono [of gw k ?ip a1 "Handled key2 p0 r0 Continue # a2 @ AddedHeaders key2 p2 hs # b"] ab a by auto
qed

section \<open>Properties\<close>

text \<open>C38: A challenge doubles as a clearance for a client whose address is unknown. The cookie made of an
  issued challenge, a dot and its signature, which every refused client is given, is a clearance
  token that never expires: it verifies at any time before 2 to the 62 seconds. A client with a known
  address cannot use it.\<close>

theorem challenge_doubles_as_clearance:
  "\<exists>ch x. snd (generateChallengeMAC now (\<lambda>_. Some salt) \<lparr>hmac_secret = k, hmac_written = w\<rparr> [] d client) = Inr ch
     \<and> 2 ^ 62 \<le> sint x
     \<and> (\<forall>t w' host. snd (verifyClearanceMAC t \<lparr>hmac_secret = k, hmac_written = w'\<rparr> []
            (Challenge ch @ CHR ''.'' # Signature ch) (normalizeIP host)) =
          (if normalizeIP host \<noteq> [] then Some ErrContextMismatch
           else if x <s t then Some ErrExpired else None))"
proof -
  let ?pl = "issued_payload now salt d client" and ?ch = "issued_challenge k now salt d client"
  obtain x where x: "2 ^ 62 \<le> sint x" and b: "decodeClearanceBody (b64_encode (bytes_of (ChallengePayload_Marshal ?pl)))
      = Inr (x, drop clearanceFixedPrefix (ChallengePayload_Marshal ?pl))"
    using challenge_as_clearance by blast
  let ?tip = "drop clearanceFixedPrefix (ChallengePayload_Marshal ?pl)"
  have cut: "Cut (Challenge ?ch @ CHR ''.'' # Signature ?ch) CHR ''.'' = (Challenge ?ch, Signature ?ch, True)"
    using b64.enc_avoids [of "CHR ''.''"] by (simp add: Cut_append issued_challenge_def Let_def)
  have body: "Challenge ?ch = b64_encode (bytes_of (ChallengePayload_Marshal ?pl))"
    "Signature ?ch = b64_encode (hmac_sha256 k (bytes_of (Challenge ?ch)))" "Challenge ?ch \<noteq> []"
    using b by (auto simp: issued_challenge_def issued_bytes_def Let_def)
  have "snd (parseClearanceMAC \<lparr>hmac_secret = k, hmac_written = w'\<rparr> [] (Challenge ?ch @ CHR ''.'' # Signature ?ch) ip)
      = (if ip \<noteq> [] \<and> (?tip = [] \<or> ?tip \<noteq> ip) then Inl ErrContextMismatch else Inr x)" for w' ip
    using body b unfolding parseClearanceMAC_eq cut by simp
  moreover have "normalizeIP host \<noteq> [] \<Longrightarrow> ?tip = [] \<or> ?tip \<noteq> normalizeIP host" for host
    using challenge_not_clearance [OF b] canonical_not_brace canonical_normalizeIP by metis
  ultimately show ?thesis
    using x generateChallengeMAC_issued [of now salt "\<lparr>hmac_secret = k, hmac_written = w\<rparr>" d client]
    by (intro exI [of _ ?ch] exI [of _ x]) (auto simp: verifyClearanceMAC_eq)
qed

text \<open>C6: Who gets through has paid. Take any run, over any number of VMs, in which no client presents a tag
  under the secret that the run has not signed before, with decimal connection identifiers, no
  configured \<open>Set-Cookie\<close> header, and clocks within a billion years. Whenever a protected request
  of a client with a known address continues, then either, by this very request or an earlier one,
  that address has paid (\<open>solved_own_challenge\<close>): the run gave it a challenge at a difficulty between
  the bounds, and within sixty seconds a protected request from it, without a clearance of use,
  submitted in its cookies or its token that challenge and a nonce whose hash with the challenge has
  the leading zero bits, and continued; however many renewals of its clearance ago. Or the ipintel
  gate passes the address; or the random source failed on this request.\<close>

theorem admitted_client_solved_a_challenge:
  assumes "run gj gw es w" and "unforgeable k es" and "plain_environment k es"
    and "es = es1 @ Handled key p r Continue # es2" and "hmac_secret (p_mac p) = k"
    and "protected_request gw r p" and "IP (request_client p r) \<noteq> []"
  shows "solved_own_challenge gw k (IP (request_client p r)) (es1 @ [Handled key p r Continue])
    \<or> (\<exists>d. ipintel_gate gw p (request_client p r) = Some (ipPass, d))
    \<or> req_rand r 32 = None"
proof -
  obtain sh ctx where "snd (snd (OnHttpRequestHeaders gw sh r p ctx)) = Continue"
    using run_event_ok [OF assms(1,4)] by (auto simp: event_ok_def)
  then have "valid_clearance p r \<or> renewable_clearance p r \<or> cookie_solution p r \<or> token_solution p r
      \<or> (\<exists>d. ipintel_gate gw p (request_client p r) = Some (ipPass, d)) \<or> req_rand r 32 = None"
    unfolding continue_iff using assms(6) by (auto split: option.splits)
  moreover have "solved_own_challenge gw k (IP (request_client p r)) (es1 @ [Handled key p r Continue])"
    if "valid_clearance p r \<or> renewable_clearance p r"
    using solved_own_challenge_mono clearance_agreement [OF assms(1-5) that assms(7)] .
  ultimately show ?thesis using solution_agreement [OF assms(1-5) _ assms(7,6)] by argo
qed

text \<open>What the two requests of the sample run present.\<close>

lemma sample_presents:
  "presents (sample_request []) m t \<Longrightarrow> t = []"
  "presents sample_answer m t \<Longrightarrow> t = [] \<or> m = Challenge sample_challenge"
proof -
  have j: "Solution_Unmarshal [] = None"
    by (simp add: Solution_Unmarshal_def json_Unmarshal_def json_parse_def json_fuel_def)
  show "presents (sample_request []) m t \<Longrightarrow> t = []"
    by (auto simp: presents_def request_cookies_def sample_request_fields parseChallengeCookies_def no_cookies_def Cut_def j)
  have "request_cookies sample_answer = \<lparr>ck_clearance = [], ck_challenge = Challenge sample_challenge,
      ck_signature = Signature sample_challenge, ck_nonce = FormatUint 1\<rparr>"
    using parse_solved_cookies [of "[]" sample_challenge] sample_challenge_def
    by (simp add: request_cookies_def sample_answer_def sample_request_fields)
  then show "presents sample_answer m t \<Longrightarrow> t = [] \<or> m = Challenge sample_challenge"
    by (auto simp: presents_def Cut_def j sample_answer_def sample_request_fields)
qed

lemma sample_assumptions:
  assumes "lr_headers lr = challenge_headers sample_challenge (requestIsHTTPS (sample_request []))"
    and "config_of p = config_of secret_plugin"
    and "es = [Started 0, Opened (0, 7), Handled (0, 7) secret_plugin (sample_request []) (Respond lr), Opened (0, 8)]
      @ [Handled (0, 8) p sample_answer Continue]"
  shows "unforgeable secret_key es" and "plain_environment secret_key es"
proof -
  have "signs secret_key (Handled (0, 7) secret_plugin (sample_request []) (Respond lr)) (Challenge sample_challenge)"
    using assms(1) by (auto simp: signs_def)
  moreover have "False" if "presents (sample_request []) m t" "b64_decode t = Some (hmac_sha256 secret_key (bytes_of m))" for m t
    using sample_presents(1) [OF that(1)] that(2) hmac_nonempty [of secret_key "bytes_of m"] by (auto dest: sym)
  moreover have "m = Challenge sample_challenge" if "presents sample_answer m t"
    "b64_decode t = Some (hmac_sha256 secret_key (bytes_of m))" for m t
    using sample_presents(2) [OF that(1)] that(2) hmac_nonempty [of secret_key "bytes_of m"] by (auto dest: sym)
  ultimately show "unforgeable secret_key es"
    unfolding assms(3) by (auto simp: unforgeable_def append_eq_Cons_conv Cons_eq_append_conv)
  have "request_client p sample_answer = sample_client"
    using config_of_fields(7) [OF assms(2)] by (simp add: secret_plugin_fields sample_answer_def sample_request_client)
  then show "plain_environment secret_key es"
    unfolding assms(3) by (simp add: plain_environment_def secret_plugin_fields sample_request_client sample_client_def)
qed

theorem admitted_client_solved_a_challenge_witness:
  "\<exists>es w. run secret_gjson example_gateway es w \<and> unforgeable secret_key es \<and> plain_environment secret_key es
     \<and> solved_own_challenge example_gateway secret_key ''::'' es"
proof -
  obtain p lr w where w: "run secret_gjson example_gateway ([Started 0, Opened (0, 7),
        Handled (0, 7) secret_plugin (sample_request []) (Respond lr), Opened (0, 8)]
         @ [Handled (0, 8) p sample_answer Continue]) w" (is "run _ _ (?es1 @ _) w")
    and lr: "lr_headers lr = challenge_headers sample_challenge (requestIsHTTPS (sample_request []))"
    and p: "config_of p = config_of secret_plugin" using sample_run by blast
  note a = sample_assumptions [OF lr p refl]
  have c: "request_client p sample_answer = sample_client"
    using config_of_fields(7) [OF p] by (simp add: secret_plugin_fields sample_answer_def sample_request_client)
  have k: "hmac_secret (p_mac p) = secret_key" by (rule config_of_fields(12) [OF p])
  have prot: "protected_request example_gateway sample_answer p"
    using request_proofs_config(1) [OF p] by (simp add: protected_request_def secret_plugin_fields)
  have "\<not> p_ipintelEnabled p"
    using arg_cong [OF p, of p_ipintelEnabled] by (simp add: config_of_def secret_plugin_fields)
  then have "ipintel_gate example_gateway p x = Some (ipChallenge, 0)" for x by (simp add: ipintel_gate_def)
  then have "solved_own_challenge example_gateway secret_key ''::'' (?es1 @ [Handled (0, 8) p sample_answer Continue])"
    using admitted_client_solved_a_challenge [OF w a refl k prot] c
    by (simp add: sample_client_def sample_answer_def sample_request_fields)
  then show ?thesis using w a by blast
qed

end
