(* ===== verification/Gate_Spec.thy ===== *)
theory Gate_Spec
  imports Go_Encoding
begin

text \<open>
  What the program promises, without any of its messages: a gate that remembers which addresses it has
  given challenges and clearances, and when. Nothing here is translated from the code;
  \<open>Gate_Refinement\<close> shows that the plugin implements it.

  Times are seconds, as in the code. A stream is named by a value of the type \<open>'k\<close>.
\<close>

section \<open>The gate\<close>

text \<open>The actions that matter for one secret and the clients with a known address:

  \<^item> \<open>Challenged ip t\<close>: a request from \<open>ip\<close> is refused with a challenge, at \<open>t\<close>;
  \<^item> \<open>Solved key ip now\<close>: a request on the stream \<open>key\<close> is admitted for a solution;
  \<^item> \<open>Entered ip now\<close>: a request is admitted for a clearance that has not expired;
  \<^item> \<open>Renewed key ip now window\<close>: a request is admitted for one that expired within the window;
  \<^item> \<open>Granted key ip now\<close>: a response on the stream \<open>key\<close> gives \<open>ip\<close> a clearance;
  \<^item> \<open>Unobserved\<close>: anything else.\<close>

datatype 'k action =
    Challenged string int64
  | Solved 'k string int64
  | Entered string int64
  | Renewed 'k string int64 int64
  | Granted 'k string int64
  | Unobserved

record 'k gate =
  g_issued :: "(string \<times> int64) set"
  g_earned :: "('k \<times> string) set"
  g_cleared :: "(string \<times> int64) set"

definition gate_start :: "'k gate" where
  "gate_start = \<lparr>g_issued = {}, g_earned = {}, g_cleared = {}\<rparr>"

fun gate_next :: "'k action \<Rightarrow> 'k gate \<Rightarrow> 'k gate option" where
  "gate_next (Challenged ip t) s = Some (s\<lparr>g_issued := insert (ip, t) (g_issued s)\<rparr>)"
| "gate_next (Solved key ip now) s =
     (if \<exists>(i, t)\<in>g_issued s. i = ip \<and> now \<le>s t + 60
      then Some (s\<lparr>g_earned := insert (key, ip) (g_earned s)\<rparr>) else None)"
| "gate_next (Entered ip now) s =
     (if \<exists>(i, x)\<in>g_cleared s. i = ip \<and> now \<le>s x then Some s else None)"
| "gate_next (Renewed key ip now window) s =
     (if \<exists>(i, x)\<in>g_cleared s. i = ip \<and> x <s now \<and> 0 <s window \<and> now - x \<le>s window
      then Some (s\<lparr>g_earned := insert (key, ip) (g_earned s)\<rparr>) else None)"
| "gate_next (Granted key ip now) s =
     (if (key, ip) \<in> g_earned s then Some (s\<lparr>g_cleared := insert (ip, now + 1800) (g_cleared s)\<rparr>) else None)"
| "gate_next Unobserved s = Some s"

text \<open>What the gate has allowed: it is in no state after an action that it does not allow.\<close>

fun gate_exec :: "'k action list \<Rightarrow> 'k gate \<Rightarrow> 'k gate option" where
  "gate_exec [] s = Some s"
| "gate_exec (a # as) s = (case gate_next a s of None \<Rightarrow> None | Some s' \<Rightarrow> gate_exec as s')"

lemma gate_exec_append:
  "gate_exec (as @ bs) s = (case gate_exec as s of None \<Rightarrow> None | Some s' \<Rightarrow> gate_exec bs s')"
  by (induction as arbitrary: s) (auto split: option.split)

section \<open>What the gate guarantees\<close>

text \<open>The state after a sequence of actions is what they put into it.\<close>

fun issued_by :: "'k action \<Rightarrow> (string \<times> int64) set" where
  "issued_by (Challenged ip t) = {(ip, t)}"
| "issued_by _ = {}"

fun earned_by :: "'k action \<Rightarrow> ('k \<times> string) set" where
  "earned_by (Solved key ip now) = {(key, ip)}"
| "earned_by (Renewed key ip now window) = {(key, ip)}"
| "earned_by _ = {}"

fun cleared_by :: "'k action \<Rightarrow> (string \<times> int64) set" where
  "cleared_by (Granted key ip now) = {(ip, now + 1800)}"
| "cleared_by _ = {}"

lemma gate_next_state:
  assumes "gate_next a s = Some s'"
  shows "g_issued s' = issued_by a \<union> g_issued s" "g_earned s' = earned_by a \<union> g_earned s"
    "g_cleared s' = cleared_by a \<union> g_cleared s"
  using assms by (cases a; auto split: if_splits)+

lemma gate_exec_snoc:
  assumes "gate_exec (as @ [a]) s = Some s''"
  obtains s' where "gate_exec as s = Some s'" "gate_next a s' = Some s''"
  using assms by (auto simp: gate_exec_append split: option.splits)

lemma gate_exec_state:
  "gate_exec as gate_start = Some s \<Longrightarrow>
     g_issued s = \<Union> (issued_by ` set as) \<and> g_earned s = \<Union> (earned_by ` set as) \<and> g_cleared s = \<Union> (cleared_by ` set as)"
proof (induction as arbitrary: s rule: rev_induct)
  case Nil
  then show ?case by (auto simp: gate_start_def)
next
  case (snoc a as)
  then show ?case by (elim gate_exec_snoc) (simp add: gate_next_state)
qed

text \<open>No address gets in without having been given a challenge: every clearance has been earned by its
  address, and what is earned goes back to a challenge.\<close>

lemma gate_next_guard:
  assumes "gate_next a s = Some s'"
  shows "(ip, x) \<in> cleared_by a \<Longrightarrow> \<exists>key. (key, ip) \<in> g_earned s"
    and "(key, ip) \<in> earned_by a \<Longrightarrow> (\<exists>t. (ip, t) \<in> g_issued s) \<or> (\<exists>x. (ip, x) \<in> g_cleared s)"
  using assms by (cases a; fastforce split: if_split_asm)+

lemma gate_challenged:
  assumes "gate_exec as gate_start = Some s"
  shows "(ip, x) \<in> g_cleared s \<Longrightarrow> \<exists>key. (key, ip) \<in> g_earned s"
    and "(key, ip) \<in> g_earned s \<Longrightarrow> \<exists>t. (ip, t) \<in> g_issued s"
proof -
  have "(\<forall>ip x. (ip, x) \<in> g_cleared s \<longrightarrow> (\<exists>key. (key, ip) \<in> g_earned s))
    \<and> (\<forall>key ip. (key, ip) \<in> g_earned s \<longrightarrow> (\<exists>t. (ip, t) \<in> g_issued s))" (is "?inv s")
    using assms
  proof (induction as arbitrary: s rule: rev_induct)
    case Nil
    then show ?case by (auto simp: gate_start_def)
  next
    case (snoc a as)
    then obtain s' where IH: "?inv s'" and n: "gate_next a s' = Some s"
      by (elim gate_exec_snoc) blast
    show ?case
      unfolding gate_next_state [OF n] using IH gate_next_guard [OF n] by blast
  qed
  then show "(ip, x) \<in> g_cleared s \<Longrightarrow> \<exists>key. (key, ip) \<in> g_earned s"
    "(key, ip) \<in> g_earned s \<Longrightarrow> \<exists>t. (ip, t) \<in> g_issued s" by blast+
qed

text \<open>So an address that gets in was given a challenge before.\<close>

fun admitted :: "'k action \<Rightarrow> string option" where
  "admitted (Solved key ip now) = Some ip"
| "admitted (Entered ip now) = Some ip"
| "admitted (Renewed key ip now window) = Some ip"
| "admitted _ = None"

lemma gate_admits_challenged:
  assumes "gate_exec (as @ a # bs) gate_start = Some s" and "admitted a = Some ip"
  shows "\<exists>t. Challenged ip t \<in> set as"
proof -
  obtain s' where s': "gate_exec as gate_start = Some s'" and n: "gate_next a s' \<noteq> None"
    using assms(1) by (auto simp: gate_exec_append split: option.splits)
  have "(\<exists>t. (ip, t) \<in> g_issued s') \<or> (\<exists>x. (ip, x) \<in> g_cleared s')"
    using n assms(2) by (cases a) (fastforce split: if_split_asm)+
  then obtain t where "(ip, t) \<in> g_issued s'" using gate_challenged [OF s'] by blast
  then obtain b where b: "b \<in> set as" "(ip, t) \<in> issued_by b" using gate_exec_state [OF s'] by auto
  from b(2) have "b = Challenged ip t" by (cases b rule: action.exhaust) auto
  then show ?thesis using b(1) by blast
qed

section \<open>Implementing the gate\<close>

text \<open>The interface of a system that implements the gate: its traces, and which action an event is. The step
  to prove is that a further event is some action, which the gate allows after the earlier ones. What
  follows holds for every such system: its traces are the gate's, event by event, and so the
  guarantee of the gate is one of the system.\<close>

locale gate_simulation =
  fixes traces :: "'e list \<Rightarrow> bool"
    and event_is :: "'e \<Rightarrow> 'k action \<Rightarrow> bool"
  assumes prefix: "traces (es @ [e]) \<Longrightarrow> traces es"
    and sim: "traces (es @ [e]) \<Longrightarrow> list_all2 event_is es as \<Longrightarrow> gate_exec as gate_start = Some s
      \<Longrightarrow> \<exists>a. event_is e a \<and> gate_next a s \<noteq> None"
begin

lemma refines: "traces es \<Longrightarrow> \<exists>as s. list_all2 event_is es as \<and> gate_exec as gate_start = Some s"
proof (induction es rule: rev_induct)
  case Nil
  show ?case by (intro exI [of _ "[]"]) simp
next
  case (snoc e es)
  then obtain as s where as: "list_all2 event_is es as" "gate_exec as gate_start = Some s" using prefix by blast
  then obtain a s' where a: "event_is e a" "gate_next a s = Some s'" using sim snoc.prems by blast
  then have "gate_exec (as @ [a]) gate_start = Some s'" by (simp add: gate_exec_append as(2))
  moreover have "list_all2 event_is (es @ [e]) (as @ [a])" using as(1) a(1) by (simp add: list_all2_appendI)
  ultimately show ?case by blast
qed

lemma admits_challenged:
  assumes "traces (es1 @ e # es2)" and "\<And>a. event_is e a \<Longrightarrow> admitted a = Some ip"
  shows "\<exists>e'\<in>set es1. \<exists>t. event_is e' (Challenged ip t)"
proof -
  obtain as s where as: "list_all2 event_is (es1 @ e # es2) as" "gate_exec as gate_start = Some s"
    using refines [OF assms(1)] by blast
  from as(1) obtain as1 a as2 where split: "as = as1 @ a # as2" "list_all2 event_is es1 as1" "event_is e a"
    by (auto simp: list_all2_append1 list_all2_Cons1)
  obtain t where "Challenged ip t \<in> set as1"
    using gate_admits_challenged [OF as(2) [unfolded split(1)] assms(2) [OF split(3)]] by blast
  then obtain i where "i < length as1" "as1 ! i = Challenged ip t" by (auto simp: in_set_conv_nth)
  then have "event_is (es1 ! i) (Challenged ip t)" "es1 ! i \<in> set es1"
    using list_all2_nthD2 [OF split(2), of i] list_all2_lengthD [OF split(2)] by simp_all
  then show ?thesis by blast
qed

end

end
