(* ===== verification/Gate_Refinement.thy ===== *)
theory Gate_Refinement
  imports Agreement Gate_Spec
begin

text \<open>
  The runs of the gateway refine the abstract gate: each event of a run is an action of the gate, and the
  gate allows them in this order. The steps are matched event by event; what the run has signed is
  what the gate remembers.
\<close>

section \<open>Events as actions\<close>

text \<open>The clearance cookies among headers.\<close>

definition adds_clearance :: "bytes \<Rightarrow> (string \<times> string) list \<Rightarrow> string \<Rightarrow> int64 \<Rightarrow> bool" where
  "adds_clearance k hs ip now \<longleftrightarrow>
     (\<exists>salt age secure.
        (''Set-Cookie'', setCookie ''challenge-clearance'' (minted_token k now salt ip) age True secure) \<in> set hs)"

text \<open>The action of the gate for the secret \<open>k\<close> that an event is. A refusal carries a challenge with a
  difficulty between the bounds; without a proof only an address that the ipintel gate passes is
  admitted, or a request for which the random source failed.\<close>

definition is_action :: "gateway \<Rightarrow> bytes \<Rightarrow> event \<Rightarrow> stream_key action \<Rightarrow> bool" where
  "is_action gw k e a \<longleftrightarrow>
     (case e of
        Handled key p r out \<Rightarrow>
          (let ip = IP (request_client p r) in
           if hmac_secret (p_mac p) \<noteq> k \<or> ip = [] \<or> \<not> protected_request gw r p then a = Unobserved
           else case out of
             Respond lr \<Rightarrow> a = Challenged ip (req_clock r IssueClock)
               \<and> (\<exists>salt d. lr_headers lr = challenge_headers
                     (issued_challenge k (req_clock r IssueClock) salt d (request_client p r)) (requestIsHTTPS r)
                   \<and> (diff_ok p \<longrightarrow> p_minDifficulty p \<le> d \<and> d \<le> p_maxDifficulty p))
           | Continue \<Rightarrow>
               if valid_clearance p r then a = Entered ip (req_clock r ClearanceClock)
               else if renewable_clearance p r then
                 a = Renewed key ip (req_clock r ClearanceClock) (p_slidingRenewalTTL p)
               else if cookie_solution p r \<or> token_solution p r then
                 a = Solved key ip (req_clock r (solution_clock p r))
               else a = Unobserved \<and> ((\<exists>d. ipintel_gate gw p (request_client p r) = Some (ipPass, d)) \<or> req_rand r 32 = None)
           | Trap \<Rightarrow> a = Unobserved)
      | AddedHeaders key p hs \<Rightarrow>
          if hmac_secret (p_mac p) = k \<and> (\<exists>ip now. ip \<noteq> [] \<and> adds_clearance k hs ip now)
          then \<exists>ip now. ip \<noteq> [] \<and> adds_clearance k hs ip now \<and> a = Granted key ip now
          else a = Unobserved
      | _ \<Rightarrow> a = Unobserved)"

section \<open>One clearance at a time\<close>

lemma minted_token_time: "minted_token k now salt ip = minted_token k' now' salt' ip' \<Longrightarrow> now = now'"
  using minted_token_inj(1) [of k now salt ip k' now' salt' ip']
    decode_encode_clearance [of "now + ClearanceLifetime" salt ip]
    decode_encode_clearance [of "now' + ClearanceLifetime" salt' ip'] by auto

text \<open>The clearance cookies that a response adds all carry one token.\<close>

lemma granted_one_token:
  assumes "(''Set-Cookie'', setCookie ''challenge-clearance'' tok age True secure) \<in> set (granted_headers gw p q r env env')"
    and "(''Set-Cookie'', setCookie ''challenge-clearance'' tok' age' True secure') \<in> set (granted_headers gw p q r env env')"
    and "CHR '';'' \<notin> set tok" "CHR '';'' \<notin> set tok'"
  shows "tok = tok'"
proof -
  have "\<exists>t. CHR '';'' \<notin> set t \<and> (\<forall>x\<in>set (granted_headers gw p q r env env').
      (\<exists>age secure. x = (''Set-Cookie'', setCookie ''challenge-clearance'' t age True secure))
      \<or> (\<exists>n secure. x = (''Set-Cookie'', clearCookie n secure) \<and> n \<in> {''challenge'', ''challenge-sig'', ''challenge-nonce''}))"
    (is "\<exists>t. _ \<and> ?only t")
  proof (cases "renewable_clearance p r")
    case True
    let ?t = "minted_token (hmac_secret (p_mac q)) (mint_clock env') (the (mint_rand env' 16)) (IP (request_client p r))"
    have "?only ?t" using True by (cases "mint_rand env' 16") (auto simp: granted_headers_def)
    then show ?thesis using minted_token_chars by blast
  next
    case False
    let ?t = "minted_token (hmac_secret (p_mac q)) (mint_clock env) (the (mint_rand env 16)) (IP (request_client p r))"
    have "?only ?t"
    proof
      fix x assume x: "x \<in> set (granted_headers gw p q r env env')"
      have "granted_headers gw p q r env env' = [] \<or> granted_headers gw p q r env env' = issued_headers ?t (requestIsHTTPS r)"
        unfolding granted_headers_def using False by (cases "mint_rand env 16") simp_all
      with x have "x \<in> set (issued_headers ?t (requestIsHTTPS r))" by auto
      then have "x = (''Set-Cookie'', setCookie ''challenge-clearance'' ?t 1800 True (requestIsHTTPS r))
        \<or> (\<exists>n. x = (''Set-Cookie'', clearCookie n (requestIsHTTPS r)) \<and> n \<in> {''challenge'', ''challenge-sig'', ''challenge-nonce''})"
        by (auto simp: issued_headers_def)
      then show "(\<exists>age secure. x = (''Set-Cookie'', setCookie ''challenge-clearance'' ?t age True secure))
        \<or> (\<exists>n secure. x = (''Set-Cookie'', clearCookie n secure) \<and> n \<in> {''challenge'', ''challenge-sig'', ''challenge-nonce''})"
        by blast
    qed
    then show ?thesis using minted_token_chars by blast
  qed
  then obtain t where t: "CHR '';'' \<notin> set t" and only: "?only t" by blast
  have "u = t" if h: "(''Set-Cookie'', setCookie ''challenge-clearance'' u ag True se) \<in> set (granted_headers gw p q r env env')"
    and u: "CHR '';'' \<notin> set u" for u ag se
    using bspec [OF only h]
  proof (elim disjE exE conjE)
    fix age secure
    assume "(''Set-Cookie'', setCookie ''challenge-clearance'' u ag True se) = (''Set-Cookie'', setCookie ''challenge-clearance'' t age True secure)"
    from clearance_cookie_inj [OF conjunct2 [OF this [unfolded prod.inject]] u t] show ?thesis .
  next
    fix n secure
    assume "(''Set-Cookie'', setCookie ''challenge-clearance'' u ag True se) = (''Set-Cookie'', clearCookie n secure)"
      and n: "n \<in> {''challenge'', ''challenge-sig'', ''challenge-nonce''}"
    from clearance_cookie_not_cleared [OF conjunct2 [OF this(1) [unfolded prod.inject]] u n] show ?thesis ..
  qed
  then show ?thesis using assms by metis
qed

lemma adds_one_clearance:
  assumes "event_ok gw es (AddedHeaders key p hs)" and "p_headerName p \<noteq> ''Set-Cookie''"
    and "adds_clearance k hs ip now" "adds_clearance k hs ip' now'"
  shows "ip = ip' \<and> now = now'"
proof -
  have c: "(''Set-Cookie'', v) \<notin> set (configured_headers p)" for v
    using assms(2) by (simp add: configured_headers_def)
  obtain salt age secure salt' age' secure'
    where h: "(''Set-Cookie'', setCookie ''challenge-clearance'' (minted_token k now salt ip) age True secure) \<in> set hs"
      "(''Set-Cookie'', setCookie ''challenge-clearance'' (minted_token k now' salt' ip') age' True secure') \<in> set hs"
    using assms(3,4) by (auto simp: adds_clearance_def)
  then obtain r env env' where "hs = granted_headers gw p p r env env' @ configured_headers p"
    using assms(1) c by (auto simp: event_ok_def)
  then have "minted_token k now salt ip = minted_token k now' salt' ip'"
    using granted_one_token [OF _ _ minted_token_chars minted_token_chars] h c by simp
  then show ?thesis using minted_token_inj(2) minted_token_time by blast
qed

text \<open>What a response adds a clearance for.\<close>

lemma adds_clearance_earned:
  assumes "event_ok gw es (AddedHeaders key p hs)" and "p_headerName p \<noteq> ''Set-Cookie''"
    and "adds_clearance k hs ip now"
  shows "\<exists>p0 r. Handled key p0 r Continue \<in> set es \<and> config_of p0 = config_of p \<and> IP (request_client p r) = ip
    \<and> protected_request gw r p \<and> \<not> valid_clearance p r
    \<and> (renewable_clearance p r \<or> cookie_solution p r \<or> token_solution p r)"
proof -
  have c: "(''Set-Cookie'', v) \<notin> set (configured_headers p)" for v
    using assms(2) by (simp add: configured_headers_def)
  obtain salt age secure
    where h: "(''Set-Cookie'', setCookie ''challenge-clearance'' (minted_token k now salt ip) age True secure) \<in> set hs"
    using assms(3) by (auto simp: adds_clearance_def)
  then obtain p0 r env env' where r: "Handled key p0 r Continue \<in> set es" "config_of p0 = config_of p"
    "renewable_clearance p r \<or> cookie_solution p r \<or> token_solution p r"
    and g: "hs = granted_headers gw p p r env env' @ configured_headers p"
    using assms(1) c by (auto simp: event_ok_def)
  have m: "(''Set-Cookie'', setCookie ''challenge-clearance'' (minted_token k now salt ip) age True secure)
      \<in> set (granted_headers gw p p r env env')"
    using h c unfolding g by simp
  then have "protected_request gw r p \<and> \<not> valid_clearance p r" by (auto simp: granted_headers_def split: if_splits)
  moreover have "ip = IP (request_client p r)"
    using granted_token [OF m minted_token_chars] minted_token_inj(2) by metis
  ultimately show ?thesis using r by blast
qed

section \<open>The simulation\<close>

lemma unforgeable_prefix: "unforgeable k (es @ es') \<Longrightarrow> unforgeable k es"
  unfolding unforgeable_def by (metis append.assoc append_Cons)

lemma plain_environment_prefix: "plain_environment k (es @ es') \<Longrightarrow> plain_environment k es"
  unfolding plain_environment_def by auto

text \<open>Every event is some action.\<close>

lemma event_is_action:
  assumes "event_ok gw es e"
  shows "\<exists>a. is_action gw k e a"
proof (cases e)
  case (Handled key p r out)
  obtain sh ctx where o: "snd (snd (OnHttpRequestHeaders gw sh r p ctx)) = out"
    using assms by (auto simp: event_ok_def Handled)
  let ?ip = "IP (request_client p r)"
  show ?thesis
  proof (cases "hmac_secret (p_mac p) \<noteq> k \<or> ?ip = [] \<or> \<not> protected_request gw r p")
    case True
    then show ?thesis by (auto simp: is_action_def Handled Let_def)
  next
    case seen: False
    show ?thesis
    proof (cases out)
      case (Respond lr)
      then show ?thesis
        using respond_challenge [OF o [unfolded Respond]] seen by (simp add: is_action_def Handled Let_def)
    next
      case Continue
      from o [unfolded Continue continue_iff] seen
      have "valid_clearance p r \<or> renewable_clearance p r \<or> cookie_solution p r \<or> token_solution p r
          \<or> (\<exists>d. ipintel_gate gw p (request_client p r) = Some (ipPass, d)) \<or> req_rand r 32 = None"
        by (auto split: option.splits)
      then show ?thesis using seen unfolding is_action_def Handled Continue by (simp add: Let_def) blast
    qed (use seen in \<open>simp add: is_action_def Handled Let_def\<close>)
  qed
next
  case (AddedHeaders key p hs)
  show ?thesis
    unfolding is_action_def AddedHeaders event.case by (cases "hmac_secret (p_mac p) = k \<and> (\<exists>ip now. ip \<noteq> [] \<and> adds_clearance k hs ip now)") auto
qed (simp_all add: is_action_def)

text \<open>What the gate remembers of the events of a run.\<close>

lemma action_of_event:
  assumes "list_all2 (is_action gw k) es as" and "e \<in> set es"
  shows "\<exists>a\<in>set as. is_action gw k e a"
  using assms by (induction rule: list_all2_induct) auto

lemma remembers_challenge:
  assumes "list_all2 (is_action gw k) es as" and "gate_exec as gate_start = Some s"
    and "Handled key p r (Respond lr) \<in> set es" and "hmac_secret (p_mac p) = k" "IP (request_client p r) \<noteq> []"
    and "protected_request gw r p"
  shows "(IP (request_client p r), req_clock r IssueClock) \<in> g_issued s"
proof -
  obtain a where "a \<in> set as" "is_action gw k (Handled key p r (Respond lr)) a"
    using action_of_event [OF assms(1,3)] by blast
  moreover from this(2) have "a = Challenged (IP (request_client p r)) (req_clock r IssueClock)"
    using assms(4-6) by (simp add: is_action_def Let_def)
  ultimately show ?thesis using gate_exec_state [OF assms(2)] by force
qed

lemma remembers_proof:
  assumes "list_all2 (is_action gw k) es as" and "gate_exec as gate_start = Some s"
    and "Handled key p r Continue \<in> set es" and "hmac_secret (p_mac p) = k" "IP (request_client p r) \<noteq> []"
    and "protected_request gw r p" "\<not> valid_clearance p r" "renewable_clearance p r \<or> cookie_solution p r \<or> token_solution p r"
  shows "(key, IP (request_client p r)) \<in> g_earned s"
proof -
  obtain a where a: "a \<in> set as" "is_action gw k (Handled key p r Continue) a"
    using action_of_event [OF assms(1,3)] by blast
  then have "(key, IP (request_client p r)) \<in> earned_by a"
    using assms(4-8) by (auto simp: is_action_def Let_def split: if_split_asm)
  then show ?thesis using gate_exec_state [OF assms(2)] a(1) by blast
qed

lemma remembers_clearance:
  assumes "list_all2 (is_action gw k) es as" and "gate_exec as gate_start = Some s"
    and "es = b @ AddedHeaders key p hs # c" and "hmac_secret (p_mac p) = k" "ip \<noteq> []"
    and "adds_clearance k hs ip now" and "event_ok gw b (AddedHeaders key p hs)" "p_headerName p \<noteq> ''Set-Cookie''"
  shows "(ip, now + 1800) \<in> g_cleared s"
proof -
  have "AddedHeaders key p hs \<in> set es" using assms(3) by simp
  then obtain a where a: "a \<in> set as" "is_action gw k (AddedHeaders key p hs) a"
    using action_of_event [OF assms(1)] by blast
  have "\<exists>ip now. ip \<noteq> [] \<and> adds_clearance k hs ip now" using assms(5,6) by blast
  then obtain ip' now' where "adds_clearance k hs ip' now'" "a = Granted key ip' now'"
    using a(2) assms(4) by (auto simp: is_action_def)
  then have "a = Granted key ip now" using adds_one_clearance [OF assms(7,8,6)] by blast
  then show ?thesis using gate_exec_state [OF assms(2)] a(1) by force
qed

lemma respond_protected:
  assumes "event_ok gw es (Handled key p r (Respond lr))"
  shows "protected_request gw r p"
proof (rule ccontr)
  assume n: "\<not> protected_request gw r p"
  obtain sh ctx where "snd (snd (OnHttpRequestHeaders gw sh r p ctx)) = Respond lr"
    using assms by (auto simp: event_ok_def)
  moreover have "snd (snd (OnHttpRequestHeaders gw sh r p ctx)) = Continue" using n by (simp add: continue_iff)
  ultimately show False by simp
qed

text \<open>A clearance a request presents is one the gate remembers.\<close>

lemma presented_clearance:
  assumes run: "run gj gw (es @ [Handled key p r out]) w" and unf: "unforgeable k (es @ [Handled key p r out])"
    and env: "plain_environment k (es @ [Handled key p r out])"
    and as: "list_all2 (is_action gw k) es as" "gate_exec as gate_start = Some s"
    and k: "hmac_secret (p_mac p) = k" and ip: "IP (request_client p r) \<noteq> []" and x: "parsed_clearance p r = Inr x"
  shows "(IP (request_client p r), x) \<in> g_cleared s"
proof -
  obtain a b key0 p0 hs m where ab: "es = a @ AddedHeaders key0 p0 hs # b" and ok: "event_ok gw a (AddedHeaders key0 p0 hs)"
    and sg: "signs k (AddedHeaders key0 p0 hs) m" and m: "decodeClearanceBody m = Inr (x, IP (request_client p r))"
    using clearance_granted [OF run unf env refl k x ip] by blast
  obtain now salt ip0 age secure where mb: "m = encodeClearanceBody (now + ClearanceLifetime) salt ip0"
    and h: "(''Set-Cookie'', setCookie ''challenge-clearance'' (minted_token k now salt ip0) age True secure) \<in> set hs"
    and k0: "hmac_secret (p_mac p0) = k"
    using sg by (auto simp: signs_def)
  have x: "x = now + 1800" "ip0 = IP (request_client p r)"
    using m unfolding mb decode_encode_clearance by (simp_all add: ClearanceLifetime_def)
  have "p_headerName p0 \<noteq> ''Set-Cookie''" using plain_environmentD(2) [OF env, of key0 p0 hs] ab by simp
  then show ?thesis
    using remembers_clearance [OF as ab k0 ip _ ok] h unfolding x by (auto simp: adds_clearance_def)
qed

text \<open>The gate allows the next action.\<close>

lemma gate_allows:
  assumes run: "run gj gw (es @ [e]) w" and unf: "unforgeable k (es @ [e])" and env: "plain_environment k (es @ [e])"
    and as: "list_all2 (is_action gw k) es as" "gate_exec as gate_start = Some s" and a: "is_action gw k e a"
  shows "gate_next a s \<noteq> None"
proof -
  have ok: "event_ok gw es e" using run_event_ok [OF run, of es e "[]"] by simp
  show ?thesis
  proof (cases e)
    case (Handled key p r out)
    let ?ip = "IP (request_client p r)"
    note run' = run [unfolded Handled] and unf' = unf [unfolded Handled] and env' = env [unfolded Handled]
    show ?thesis
    proof (cases "hmac_secret (p_mac p) = k \<and> ?ip \<noteq> [] \<and> protected_request gw r p \<and> out = Continue")
      case False
      then show ?thesis using a by (auto simp: is_action_def Handled Let_def split: if_splits outcome.splits)
    next
      case seen: True
      then have k: "hmac_secret (p_mac p) = k" and ip: "?ip \<noteq> []" by blast+
      have cleared: "(?ip, x) \<in> g_cleared s" if "parsed_clearance p r = Inr x" for x
        using presented_clearance [OF run' unf' env' as k ip that] .
      consider "valid_clearance p r" | "\<not> valid_clearance p r" "renewable_clearance p r"
        | "\<not> valid_clearance p r" "\<not> renewable_clearance p r" "cookie_solution p r \<or> token_solution p r"
        | "a = Unobserved"
        using a seen unfolding is_action_def Handled by (auto simp: Let_def split: if_splits)
      then show ?thesis
      proof cases
        case 1
        then obtain x where x: "parsed_clearance p r = Inr x" "req_clock r ClearanceClock \<le>s x"
          by (auto simp: valid_clearance_def split: sum.splits)
        have "a = Entered ?ip (req_clock r ClearanceClock)"
          using a seen 1 unfolding is_action_def Handled by (simp add: Let_def)
        then show ?thesis using cleared [OF x(1)] x(2) by auto
      next
        case 2
        then obtain x where x: "parsed_clearance p r = Inr x"
          "shouldRenewClearance x (req_clock r ClearanceClock) (p_slidingRenewalTTL p)"
          by (auto simp: renewable_clearance_def split: sum.splits)
        have "a = Renewed key ?ip (req_clock r ClearanceClock) (p_slidingRenewalTTL p)"
          using a seen 2 unfolding is_action_def Handled by (simp add: Let_def)
        moreover have "x <s req_clock r ClearanceClock \<and> 0 <s p_slidingRenewalTTL p
            \<and> req_clock r ClearanceClock - x \<le>s p_slidingRenewalTTL p"
          using x(2) by (auto simp: shouldRenewClearance_def word_sle_eq word_sless_alt split: if_splits)
        ultimately show ?thesis using cleared [OF x(1)] by auto
      next
        case 3
        obtain key0 p0 r0 lr where h: "Handled key0 p0 r0 (Respond lr) \<in> set es" "hmac_secret (p_mac p0) = k"
          "IP (request_client p0 r0) = ?ip" "req_clock r (solution_clock p r) \<le>s req_clock r0 IssueClock + 60"
          using solution_issued [OF run' unf' env' refl k 3(3) ip] by blast
        obtain b c where "es = b @ Handled key0 p0 r0 (Respond lr) # c" using split_list [OF h(1)] by blast
        then have "protected_request gw r0 p0"
          using run_event_ok [OF run, of b "Handled key0 p0 r0 (Respond lr)"] respond_protected by fastforce
        then have "(?ip, req_clock r0 IssueClock) \<in> g_issued s"
          using remembers_challenge [OF as h(1,2)] h(3) ip by simp
        moreover have "a = Solved key ?ip (req_clock r (solution_clock p r))"
          using a seen 3 unfolding is_action_def Handled by (simp add: Let_def)
        ultimately show ?thesis using h(4) by auto
      qed simp
    qed
  next
    case (AddedHeaders key p hs)
    show ?thesis
    proof (cases "hmac_secret (p_mac p) = k \<and> (\<exists>ip now. ip \<noteq> [] \<and> adds_clearance k hs ip now)")
      case False
      then show ?thesis using a by (auto simp: is_action_def AddedHeaders)
    next
      case True
      then obtain ip now where g: "ip \<noteq> []" "adds_clearance k hs ip now" "a = Granted key ip now"
        using a by (auto simp: is_action_def AddedHeaders)
      have "p_headerName p \<noteq> ''Set-Cookie''"
        using plain_environmentD(2) [OF env, of key p hs] by (simp add: AddedHeaders)
      from adds_clearance_earned [OF ok [unfolded AddedHeaders] this g(2)] obtain p0 r
        where h: "Handled key p0 r Continue \<in> set es" "config_of p0 = config_of p" "IP (request_client p r) = ip"
          "protected_request gw r p" "\<not> valid_clearance p r"
          "renewable_clearance p r \<or> cookie_solution p r \<or> token_solution p r" by blast
      note f = request_proofs_config [OF h(2)] config_of_fields(12) [OF h(2)]
      have "(key, IP (request_client p0 r)) \<in> g_earned s"
        using remembers_proof [OF as h(1)] h(3-6) g(1) True unfolding f by blast
      then show ?thesis using g(3) h(3) unfolding f by simp
    qed
  qed (use a in \<open>simp_all add: is_action_def\<close>)
qed

text \<open>The runs in which no client presents a tag that has not been made, as a system with traces.\<close>

lemma run_prefix_closed: "run gj gw (es @ [e]) w \<Longrightarrow> \<exists>w. run gj gw es w"
  by (erule run.cases) auto

interpretation vm_gate: gate_simulation "\<lambda>es. (\<exists>w. run gj gw es w) \<and> unforgeable k es \<and> plain_environment k es" "is_action gw k"
  for gj :: "'r gjson" and gw k
proof
  fix es e assume t: "(\<exists>w. run gj gw (es @ [e]) w) \<and> unforgeable k (es @ [e]) \<and> plain_environment k (es @ [e])"
  then obtain w where w: "run gj gw (es @ [e]) w" by blast
  show "(\<exists>w. run gj gw es w) \<and> unforgeable k es \<and> plain_environment k es"
    using run_prefix_closed [OF w] t unforgeable_prefix plain_environment_prefix by blast
  fix as s assume as: "list_all2 (is_action gw k) es as" "gate_exec as gate_start = Some s"
  have "event_ok gw es e" using run_event_ok [OF w, of es e "[]"] by simp
  then obtain a where a: "is_action gw k e a" using event_is_action by blast
  then show "\<exists>a. is_action gw k e a \<and> gate_next a s \<noteq> None" using gate_allows [OF w _ _ as a] t by blast
qed

section \<open>Properties\<close>

text \<open>C7: The gateway implements the gate. Take any run, over any number of VMs, in which no client presents
  a tag under the secret that the run has not signed before, with decimal connection identifiers, no
  configured \<open>Set-Cookie\<close> header, and clocks within a billion years. Then the events of the run are, one
  by one, actions of the abstract gate that it allows in this order: an address is admitted only
  for a challenge it was given at most sixty seconds ago, or with a clearance it was given that has
  not expired, or expired within the window of renewal; and it is given a clearance, for thirty
  minutes, only after such an admission for a solution or a renewal on the same stream.\<close>

theorem run_refines_gate:
  assumes "run gj gw es w" and "unforgeable k es" and "plain_environment k es"
  shows "\<exists>as s. list_all2 (is_action gw k) es as \<and> gate_exec as gate_start = Some s"
  by (rule vm_gate.refines) (use assms in blast)

theorem run_refines_gate_witness:
  "\<exists>es w as s. run secret_gjson example_gateway es w \<and> list_all2 (is_action example_gateway secret_key) es as
     \<and> gate_exec as gate_start = Some s \<and> (''::'', 0) \<in> g_issued s \<and> ((0, 8), ''::'') \<in> g_earned s"
proof -
  obtain p lr w where w: "run secret_gjson example_gateway ([Started 0, Opened (0, 7),
        Handled (0, 7) secret_plugin (sample_request []) (Respond lr), Opened (0, 8)]
         @ [Handled (0, 8) p sample_answer Continue]) w" (is "run _ _ ?es w")
    and lr: "lr_headers lr = challenge_headers sample_challenge (requestIsHTTPS (sample_request []))"
    and p: "config_of p = config_of secret_plugin" using sample_run by blast
  obtain as s where as: "list_all2 (is_action example_gateway secret_key) ?es as" "gate_exec as gate_start = Some s"
    using run_refines_gate [OF w sample_assumptions [OF lr p refl]] by blast
  have c: "request_client secret_plugin (sample_request x) = sample_client" for x
    by (simp add: secret_plugin_fields sample_request_client)
  have k: "hmac_secret (p_mac p) = secret_key" by (rule config_of_fields(12) [OF p])
  have c': "request_client p sample_answer = sample_client"
    using request_proofs_config(6) [OF p, of sample_answer] c by (simp add: sample_answer_def)
  have prot: "protected_request example_gateway r secret_plugin" "protected_request example_gateway r p" for r
    using request_proofs_config(1) [OF p] by (simp_all add: protected_request_def secret_plugin_fields)
  have "(''::'', 0) \<in> g_issued s"
    using remembers_challenge [OF as, of "(0, 7)" secret_plugin "sample_request []" lr] prot c
    by (simp add: sample_client_def sample_request_fields)
  moreover have "valid_clearance p sample_answer = False"
  proof -
    have "header_or_empty sample_answer ''cookie'' = render_cookies ([] @ solved_cookies sample_challenge 1)"
      by (simp add: sample_answer_def sample_request_fields)
    from solved_request(2) [OF this _ _ _ k] show ?thesis
      unfolding c' by (simp add: sample_challenge_def sample_client_def)
  qed
  then have "((0, 8), ''::'') \<in> g_earned s"
    using remembers_proof [OF as, of "(0, 8)" p sample_answer] prot c' k sample_answer_solves [OF p]
    by (simp add: sample_client_def)
  ultimately show ?thesis using w as by blast
qed

end
