(* ===== verification/Ipintel_Gate.thy ===== *)
theory Ipintel_Gate
  imports Admission
begin

text \<open>
  The IP-intelligence database in the decision on a request: from the records of the database, over the
  lookup and the score, to what the request callback does.
\<close>

section \<open>Where a request traps\<close>

text \<open>A scan goes on behind a block that the index lets it skip or that it can read.\<close>

definition scans_past :: "(bytes \<Rightarrow> bytes option) \<Rightarrow> DB \<Rightarrow> byte \<Rightarrow> bytes \<Rightarrow> runtimeBlock \<Rightarrow> bool" where
  "scans_past zstd db family key b =
     (if block_may_contain family key b then (case readBlock zstd db b of Inl e \<Rightarrow> False | Inr rs \<Rightarrow> True) else True)"

lemma scan_blocks_fails:
  "scan_blocks zstd db family key bs st = Inl e \<longleftrightarrow>
     (\<exists>bs1 b bs2. bs = bs1 @ b # bs2 \<and> list_all (scans_past zstd db family key) bs1
        \<and> block_may_contain family key b \<and> readBlock zstd db b = Inl e)"
proof (induction bs arbitrary: st)
  case (Cons b bs)
  have split: "(\<exists>bs1 c bs2. b # bs = bs1 @ c # bs2 \<and> list_all (scans_past zstd db family key) bs1
        \<and> block_may_contain family key c \<and> readBlock zstd db c = Inl e)
    \<longleftrightarrow> block_may_contain family key b \<and> readBlock zstd db b = Inl e
      \<or> scans_past zstd db family key b \<and> (\<exists>bs1 c bs2. bs = bs1 @ c # bs2 \<and> list_all (scans_past zstd db family key) bs1
        \<and> block_may_contain family key c \<and> readBlock zstd db c = Inl e)"
    by (auto simp: Cons_eq_append_conv) (metis append_Cons append_Nil list.pred_inject)+
  show ?case
  proof (cases "block_may_contain family key b")
    case True
    then show ?thesis unfolding split by (cases "readBlock zstd db b") (simp_all add: Cons.IH scans_past_def [of zstd db family key b])
  next
    case False
    then show ?thesis unfolding split by (simp add: Cons.IH scans_past_def [of zstd db family key b])
  qed
qed simp

lemma trap_iff:
  "snd (snd (OnHttpRequestHeaders gw shared req p ctx)) = Trap \<longleftrightarrow>
     protected_request gw req p \<and> \<not> (valid_clearance p req \<or> renewable_clearance p req)
     \<and> \<not> (cookie_solution p req \<or> token_solution p req) \<and> ipintel_gate gw p (request_client p req) = None"
proof -
  obtain q where q: "same_but_mac p q" and h: "OnHttpRequestHeaders gw shared req p ctx = by_proofs gw shared req p q ctx"
    using OnHttpRequestHeaders_by_proofs by blast
  have "snd (snd (issue_challenge gw shared req c q x)) \<noteq> Trap" for c x
    using issue_challenge_spec [where gw = gw and shared = shared and req = req and client = c and p = q and ctx = x]
    by (auto split: option.splits prod.splits)
  then show ?thesis
    unfolding h by_proofs_def gate_and_issue_def ipintel_gate_same [OF q]
    by (auto split: option.split ipintelDecision.split)
qed

section \<open>Properties\<close>

text \<open>C17: When a request takes its VM down: exactly if it needs a proof and carries none, the ipintel gate is
  enabled with a database, its client's address is known, and the scan for the address reaches a
  block, behind blocks it skips or can read, whose end wraps around. No other error of the database
  and no input of a client can do it.\<close>

theorem request_traps_iff:
  "snd (snd (OnHttpRequestHeaders gw shared req p ctx)) = Trap \<longleftrightarrow>
     protected_request gw req p \<and> \<not> (valid_clearance p req \<or> renewable_clearance p req)
     \<and> \<not> (cookie_solution p req \<or> token_solution p req) \<and> p_ipintelEnabled p
     \<and> (\<exists>db a bs1 b bs2. p_ipintel p = Some db \<and> ParseAddr (IP (request_client p req)) = Some a
          \<and> db_blocks db = bs1 @ b # bs2
          \<and> list_all (scans_past (sys_zstd (gw_sys gw)) db (fst (addrBytes a)) (snd (addrBytes a))) bs1
          \<and> block_may_contain (fst (addrBytes a)) (snd (addrBytes a)) b
          \<and> readBlock (sys_zstd (gw_sys gw)) db b = Inl PanicSliceBounds)"
proof -
  let ?z = "sys_zstd (gw_sys gw)" and ?ip = "IP (request_client p req)"
  have l: "Lookup ?z sh db ip = Inl PanicSliceBounds \<longleftrightarrow>
      (\<exists>a. ParseAddr ip = Some a
        \<and> scan_blocks ?z db (fst (addrBytes a)) (snd (addrBytes a)) (db_blocks db) lookup_start = Inl PanicSliceBounds)"
    for sh db ip
    by (auto simp: Lookup_def Let_def split: option.split sum.split prod.split)
  have n: "ipintelMatch (gw_sys gw) ipintel ip = None \<longleftrightarrow>
      (\<exists>db. ipintel = Some db \<and> Lookup ?z (sys_shuffle (gw_sys gw)) db ip = Inl PanicSliceBounds)" for ipintel ip
    by (auto simp: ipintelMatch_def split: option.split sum.split db_err.split)
  have m: "ipintelMatch (gw_sys gw) ipintel ip = None \<longleftrightarrow> (\<exists>db a. ipintel = Some db \<and> ParseAddr ip = Some a
      \<and> scan_blocks ?z db (fst (addrBytes a)) (snd (addrBytes a)) (db_blocks db) lookup_start = Inl PanicSliceBounds)"
    for ipintel ip
    unfolding n l by (simp only: ex_simps)
  have "ipintel_gate gw p client = None \<longleftrightarrow> p_ipintelEnabled p \<and> ipintelMatch (gw_sys gw) (p_ipintel p) (IP client) = None" for client
    by (simp add: ipintel_gate_def)
  then have g: "ipintel_gate gw p (request_client p req) = None \<longleftrightarrow> p_ipintelEnabled p
      \<and> (\<exists>db a. p_ipintel p = Some db \<and> ParseAddr ?ip = Some a \<and> (\<exists>bs1 b bs2. db_blocks db = bs1 @ b # bs2
          \<and> list_all (scans_past ?z db (fst (addrBytes a)) (snd (addrBytes a))) bs1
          \<and> block_may_contain (fst (addrBytes a)) (snd (addrBytes a)) b \<and> readBlock ?z db b = Inl PanicSliceBounds))"
    unfolding m scan_blocks_fails .
  show ?thesis unfolding trap_iff g ex_simps conj_assoc by (rule refl)
qed


text \<open>C34: An address in the database only under listed categories is challenged. Let the records of the
  gate's database that contain the client's address, with one that counts, all be of categories in
  the configured list, which also has \<open>hosting\<close> (the category of listed ASNs). Then the gate never
  lets a request of this client pass: a protected request continues exactly with a proof (or where
  the random source fails).\<close>

theorem listed_address_is_challenged:
  assumes "p_ipintel p = Some db" and "AllRecords (sys_zstd (gw_sys gw)) db = Inr rs"
    and "index_covers (sys_zstd (gw_sys gw)) db" and "ParseAddr (IP (request_client p req)) = Some a"
    and "list_all (\<lambda>s. no_bar (sm_Name s)) (man_Sources (db_manifest db))" and "list_all (\<lambda>r. no_bar (rec_Category r)) rs"
    and "\<And>xs. mset (sys_shuffle (gw_sys gw) xs) = mset xs"
    and "r \<in> set rs" "in_range (fst (addrBytes a)) (snd (addrBytes a)) r"
    and "weight_of (rec_Category r) \<noteq> 0" "rec_Confidence r \<noteq> 0"
    and "insert ''hosting'' (rec_Category ` {r \<in> set rs. in_range (fst (addrBytes a)) (snd (addrBytes a)) r}) \<subseteq> p_ipintelCats p"
    and "protected_request gw req p"
  shows "snd (snd (OnHttpRequestHeaders gw shared req p ctx)) = Continue \<longleftrightarrow>
     valid_clearance p req \<or> renewable_clearance p req \<or> cookie_solution p req \<or> token_solution p req
     \<or> req_rand req 32 = None"
proof -
  obtain res where "Lookup (sys_zstd (gw_sys gw)) (sys_shuffle (gw_sys gw)) db (IP (request_client p req)) = Inr res"
    and v: "res_Verdict res \<in> p_ipintelCats p"
    using lookup_verdict [OF assms(2-6,8,9,7,10,11)] assms(12) by blast
  then have m: "ipintelMatch (gw_sys gw) (p_ipintel p) (IP (request_client p req)) = Some (res_Verdict res)"
    by (simp add: assms(1) ipintelMatch_def)
  have "fst (decideIPIntel mode (p_ipintelCats p) target (res_Verdict res)) \<noteq> ipPass" for mode target
    using v by (simp add: decideIPIntel_def)
  then obtain decision d where "ipintel_gate gw p (request_client p req) = Some (decision, d)" "decision \<noteq> ipPass"
    by (metis (no_types, lifting) m fst_conv ipintelDecision.distinct(1) ipintel_gate_def option.map(2) surj_pair)
  then show ?thesis unfolding continue_iff using assms(13) by simp
qed

definition listed_plugin :: pluginContext where
  "listed_plugin = guarded_plugin\<lparr>p_ipintel := Some example_db, p_ipintelMode := ''challenge'',
     p_ipintelCats := {''vpn'', ''hosting''}, p_ipintelEnabled := True\<rparr>"

definition listed_gateway :: gateway where
  "listed_gateway = example_gateway\<lparr>gw_sys := (gw_sys example_gateway)\<lparr>sys_zstd := example_zstd\<rparr>\<rparr>"

definition listed_request :: request where
  "listed_request = example_request\<lparr>req_property :=
     (\<lambda>path. if path = [''source'', ''address''] then Some (bytes_of ''10.0.0.1:5000'') else None)\<rparr>"

theorem listed_address_is_challenged_witness:
  "snd (snd (OnHttpRequestHeaders listed_gateway (\<lambda>_. None) listed_request listed_plugin (NewHttpContext listed_plugin 1)))
     \<noteq> Continue"
proof -
  have "normalizeIP ''10.0.0.1:5000'' = ''10.0.0.1''" by code_simp
  then have ip: "IP (request_client listed_plugin listed_request) = ''10.0.0.1''"
    by (simp add: listed_request_def example_request_def resolveClientContext_def resolveClientIP_def peerIP_def)
  have h: "header_or_empty listed_request n = []" for n
    by (simp add: listed_request_def example_request_def header_or_empty_def)
  then have c: "request_cookies listed_request = no_cookies" by (simp add: request_cookies_def parseChallengeCookies_def)
  have "parsed_clearance listed_plugin listed_request = Inl ErrInvalidToken"
    by (simp add: parsed_clearance_def c no_cookies_def parse_empty_clearance)
  then have none: "\<not> valid_clearance listed_plugin listed_request" "\<not> renewable_clearance listed_plugin listed_request"
    "\<not> cookie_solution listed_plugin listed_request" "\<not> token_solution listed_plugin listed_request"
    by (simp_all add: valid_clearance_def renewable_clearance_def cookie_solution_def token_solution_def c h no_cookies_def)
  have z: "AllRecords (sys_zstd (gw_sys listed_gateway)) example_db = Inr [example_record]"
    "index_covers (sys_zstd (gw_sys listed_gateway)) example_db"
    using example_facts by (simp_all add: listed_gateway_def)
  have addr: "ParseAddr (IP (request_client listed_plugin listed_request)) = Some (Addr4 [10, 0, 0, 1])"
    unfolding ip by (rule example_addr)
  have db: "p_ipintel listed_plugin = Some example_db" by (simp add: listed_plugin_def)
  have r: "in_range (fst (addrBytes (Addr4 [10, 0, 0, 1]))) (snd (addrBytes (Addr4 [10, 0, 0, 1]))) example_record"
    by code_simp
  have bars: "list_all (\<lambda>s. no_bar (sm_Name s)) (man_Sources (db_manifest example_db))"
    "list_all (\<lambda>r. no_bar (rec_Category r)) [example_record]"
    by (simp_all add: example_db_def zero_Manifest_def example_record_def no_bar_def)
  have perm: "mset (sys_shuffle (gw_sys listed_gateway) xs) = mset xs" for xs
    by (simp add: listed_gateway_def example_gateway_def)
  have w: "weight_of (rec_Category example_record) \<noteq> 0" "rec_Confidence example_record \<noteq> 0"
    by (simp_all add: example_record_def weight_of_def categoryWeights_def)
  have cats: "insert ''hosting'' (rec_Category ` {r \<in> set [example_record].
      in_range (fst (addrBytes (Addr4 [10, 0, 0, 1]))) (snd (addrBytes (Addr4 [10, 0, 0, 1]))) r}) \<subseteq> p_ipintelCats listed_plugin"
    by (auto simp: listed_plugin_def example_record_def)
  have prot: "protected_request listed_gateway listed_request listed_plugin"
    by (simp add: protected_request_def listed_plugin_def guarded_plugin_def)
  have "example_record \<in> set [example_record]" by simp
  from listed_address_is_challenged [OF db z addr bars perm this r w cats prot, of "\<lambda>_. None" "NewHttpContext listed_plugin 1"]
  show ?thesis using none by (simp add: listed_request_def example_request_def)
qed

end
