(* ===== verification/Traffic.thy ===== *)
theory Traffic
  imports Sample_Run Ipintel_Gate
begin

text \<open>
  The dynamic difficulty over a run: the counter of a VM is the number of its refusals since its last
  tick or start, a tick turns that number into a difficulty, and the refusals up to the next tick
  carry it.
\<close>

section \<open>Refusals in a run\<close>

definition refusal_of :: "nat \<Rightarrow> event \<Rightarrow> bool" where
  "refusal_of i e \<longleftrightarrow> (case e of Handled key p r (Respond lr) \<Rightarrow> fst key = i | _ \<Rightarrow> False)"

definition resets :: "nat \<Rightarrow> event \<Rightarrow> bool" where
  "resets i e \<longleftrightarrow> e = Ticked i \<or> e = Started i"

text \<open>The refusals of a VM since its last tick or start.\<close>

definition recent_refusals :: "nat \<Rightarrow> event list \<Rightarrow> nat" where
  "recent_refusals i es = length (filter (refusal_of i) (takeWhile (\<lambda>e. \<not> resets i e) (rev es)))"

lemma recent_refusals_snoc:
  "recent_refusals i (es @ [e]) = (if resets i e then 0 else recent_refusals i es + (if refusal_of i e then 1 else 0))"
  by (simp add: recent_refusals_def)

text \<open>The difficulty a tick sets after that many refusals.\<close>

definition ticked_difficulty :: "pluginContext \<Rightarrow> nat \<Rightarrow> uint64" where
  "ticked_difficulty p n =
     clampDifficulty (p_baseDifficulty p + pressure_step (of_nat n)) (p_minDifficulty p) (p_maxDifficulty p)"

section \<open>What callbacks do to the counter\<close>

lemma getEffectiveDifficulty_current:
  "getEffectiveDifficulty shared h p = (q, d, src) \<Longrightarrow> p_currentDiff p \<noteq> 0 \<Longrightarrow> p_currentDiff q = p_currentDiff p"
  by (auto simp: getEffectiveDifficulty_def Let_def word_greater_zero_iff split: if_splits option.splits)

lemma issue_challenge_current:
  assumes "issue_challenge gw shared req client p ctx = (q, ctx', out)" and "p_currentDiff p \<noteq> 0"
  shows "p_currentDiff q = p_currentDiff p"
proof -
  let ?h = "header_or_empty req ''x-challenge-difficulty''"
  obtain p1 d src where g: "getEffectiveDifficulty shared ?h p = (p1, d, src)" by (metis prod_cases3)
  let ?d = "if h_ipintelDifficulty ctx > 0 then clampDifficulty (h_ipintelDifficulty ctx) d (p_maxDifficulty p1) else d"
  obtain m r where r: "generateChallengeMAC (req_clock req IssueClock) (req_rand req) (p_mac p1) [] ?d client = (m, r)"
    by (metis surj_pair)
  have "q = p1\<lparr>p_mac := m\<rparr> \<or> q = recordChallengeIssued (p1\<lparr>p_mac := m\<rparr>)"
    using assms(1) g r by (cases "h_ipintelDifficulty ctx > 0") (auto simp: issue_challenge_def Let_def split: sum.splits)
  then show ?thesis using getEffectiveDifficulty_current [OF g assms(2)] by (auto simp: recordChallengeIssued_def)
qed

definition is_refusal :: "outcome \<Rightarrow> bool" where
  "is_refusal out \<longleftrightarrow> (case out of Respond lr \<Rightarrow> True | _ \<Rightarrow> False)"

lemma same_but_mac_counters:
  "same_but_mac p q \<Longrightarrow> p_challengeCounter q = p_challengeCounter p \<and> p_currentDiff q = p_currentDiff p"
  unfolding same_but_mac_def by (metis pluginContext.select_convs pluginContext.surjective pluginContext.update_convs)

lemma request_counters:
  assumes "OnHttpRequestHeaders gw shared req p ctx = (p', ctx', out)"
  shows "p_challengeCounter p' = p_challengeCounter p + (if is_refusal out then 1 else 0)"
    and "p_currentDiff p \<noteq> 0 \<Longrightarrow> p_currentDiff p' = p_currentDiff p"
proof -
  obtain q where q: "same_but_mac p q" and h: "OnHttpRequestHeaders gw shared req p ctx = by_proofs gw shared req p q ctx"
    using OnHttpRequestHeaders_by_proofs by blast
  note h = h [unfolded by_proofs_def]
  note c = same_but_mac_counters [OF q]
  have i: "p_challengeCounter p' = p_challengeCounter p + (if is_refusal out then 1 else 0)
      \<and> (p_currentDiff p \<noteq> 0 \<longrightarrow> p_currentDiff p' = p_currentDiff p)"
    if "issue_challenge gw shared req cl q x = (p', ctx', out)" for cl x
    using issue_challenge_spec [where gw = gw and shared = shared and req = req and client = cl and p = q and ctx = x]
      issue_challenge_current [OF that] that c by (auto simp: is_refusal_def split: option.splits)
  have "p_challengeCounter p' = p_challengeCounter p + (if is_refusal out then 1 else 0)
      \<and> (p_currentDiff p \<noteq> 0 \<longrightarrow> p_currentDiff p' = p_currentDiff p)"
    using assms i c unfolding h gate_and_issue_def
    by (auto simp: is_refusal_def split: if_splits option.splits ipintelDecision.splits)
  then show "p_challengeCounter p' = p_challengeCounter p + (if is_refusal out then 1 else 0)"
    "p_currentDiff p \<noteq> 0 \<Longrightarrow> p_currentDiff p' = p_currentDiff p" by blast+
qed

lemma mint_counters:
  "mint_issued env p ctx = (q, hs) \<Longrightarrow> p_challengeCounter q = p_challengeCounter p \<and> p_currentDiff q = p_currentDiff p"
  "mint_renewed env p ctx = (q, hs) \<Longrightarrow> p_challengeCounter q = p_challengeCounter p \<and> p_currentDiff q = p_currentDiff p"
  by (auto simp: mint_issued_def mint_renewed_def Let_def split: if_splits sum.splits prod.splits)

lemma response_counters:
  "OnHttpResponseHeaders env env' p ctx = (q, hs)
    \<Longrightarrow> p_challengeCounter q = p_challengeCounter p \<and> p_currentDiff q = p_currentDiff p"
  by (auto simp: OnHttpResponseHeaders_def Let_def split: prod.splits dest!: mint_counters)

lemma start_counter:
  "OnPluginStart gj gw config NewPluginContext = (p, OnPluginStartStatusOK) \<Longrightarrow> p_challengeCounter p = 0"
  by (auto simp: OnPluginStart_def configure_def NewPluginContext_def Let_def split: if_splits option.splits prod.splits)

section \<open>What a step does to a VM\<close>

lemma vm_step:
  assumes "wstep gj gw w e w'" and "w_vms w' i = Some p'"
  shows "e = Started i \<and> p_challengeCounter p' = 0
    \<or> (\<exists>p. w_vms w i = Some p \<and> keeps p p' \<and>
        (e = Ticked i \<and> p_challengeCounter p' = 0
           \<and> p_currentDiff p' = clampDifficulty (p_baseDifficulty p + pressure_step (p_challengeCounter p))
               (p_minDifficulty p) (p_maxDifficulty p)
         \<or> \<not> resets i e \<and> p_challengeCounter p' = p_challengeCounter p + (if refusal_of i e then 1 else 0)
           \<and> (p_currentDiff p \<noteq> 0 \<longrightarrow> p_currentDiff p' = p_currentDiff p)))"
    (is "_ \<or> ?same e")
proof -
  have idle: "?same e" if "w_vms w i = Some p'" "\<not> resets i e" "\<not> refusal_of i e" for e
    using that by (intro exI [of _ p']) simp
  from assms(1) show ?thesis
  proof (cases rule: wstep.cases)
    case (start j config p)
    then show ?thesis
      using assms(2) start_counter idle by (cases "i = j") (auto simp: resets_def refusal_of_def)
  next
    case (tick j p set_ok p2 shared')
    show ?thesis
    proof (cases "i = j")
      case True
      then show ?thesis
        using tick assms(2) keeps_OnTick [OF tick(4)] by (auto simp: OnTick_def Let_def)
    qed (use tick assms(2) idle in \<open>auto simp: resets_def refusal_of_def\<close>)
  next
    case (req j p c ctx r p2 ctx' out)
    have r: "refusal_of j e \<longleftrightarrow> is_refusal out" by (simp add: req(1) refusal_of_def is_refusal_def split: outcome.split)
    show ?thesis
    proof (cases "i = j")
      case True
      then show ?thesis
        using req assms(2) r request_counters [OF req(5)] keeps_OnHttpRequestHeaders [OF req(5)] by (auto simp: resets_def)
    qed (use req assms(2) idle in \<open>auto simp: resets_def refusal_of_def split: outcome.splits\<close>)
  next
    case (trap j p c ctx r p2 ctx')
    then show ?thesis using assms(2) idle by (auto simp: crash_def resets_def refusal_of_def split: if_splits)
  next
    case (resp j p c stage ctx env env' p2 hs)
    show ?thesis
    proof (cases "i = j")
      case True
      then show ?thesis
        using resp assms(2) response_counters [OF resp(6)] keeps_OnHttpResponseHeaders [OF resp(6)]
        by (auto simp: resets_def refusal_of_def)
    qed (use resp assms(2) idle in \<open>auto simp: resets_def refusal_of_def\<close>)
  next
    case (fin j p c st p2 ctx')
    then show ?thesis
      using assms(2) idle by (cases "i = j") (auto simp: resets_def refusal_of_def OnHttpStreamDone_def)
  qed (use assms(2) idle in \<open>auto simp: resets_def refusal_of_def\<close>)
qed

section \<open>The counter and the difficulty in a run\<close>

definition since_tick :: "nat \<Rightarrow> event list \<Rightarrow> event list \<Rightarrow> bool" where
  "since_tick i es1 es \<longleftrightarrow> (\<exists>es2. es = es1 @ Ticked i # es2 \<and> list_all (\<lambda>e. \<not> resets i e) es2)"

lemma since_tick_snoc:
  "since_tick i es1 (es @ [e]) \<longleftrightarrow> (if resets i e then e = Ticked i \<and> es1 = es else since_tick i es1 es)"
proof -
  have "since_tick i es1 (es @ [e]) \<longleftrightarrow> e = Ticked i \<and> es1 = es \<or> \<not> resets i e \<and> since_tick i es1 es"
    unfolding since_tick_def
  proof (intro iffI; elim exE conjE disjE)
    fix es2 assume "es @ [e] = es1 @ Ticked i # es2" "list_all (\<lambda>e. \<not> resets i e) es2"
    then show "e = Ticked i \<and> es1 = es \<or> \<not> resets i e \<and> (\<exists>es2. es = es1 @ Ticked i # es2 \<and> list_all (\<lambda>e. \<not> resets i e) es2)"
      by (cases es2 rule: rev_cases) auto
  qed auto
  then show ?thesis by (auto simp: resets_def)
qed

lemma traffic_in_run:
  assumes "run gj gw es w"
  shows "w_vms w i = Some p \<Longrightarrow> p_challengeCounter p = of_nat (recent_refusals i es)"
    and "w_vms w i = Some p \<Longrightarrow> p_minDifficulty p \<le> p_maxDifficulty p \<Longrightarrow> since_tick i es1 es
      \<Longrightarrow> p_currentDiff p = ticked_difficulty p (recent_refusals i es1)"
proof -
  have "(w_vms w i = Some p \<longrightarrow> p_challengeCounter p = of_nat (recent_refusals i es))
    \<and> (w_vms w i = Some p \<longrightarrow> p_minDifficulty p \<le> p_maxDifficulty p \<longrightarrow> since_tick i es1 es
      \<longrightarrow> p_currentDiff p = ticked_difficulty p (recent_refusals i es1))"
    using assms
  proof (induction arbitrary: p rule: run.induct)
    case (initial shared)
    show ?case by (simp add: initial_world_def)
  next
    case (step es w e w')
    show ?case
    proof (cases "w_vms w' i = Some p")
      case vm: True
      from vm_step [OF step.hyps(2) vm] show ?thesis
      proof (elim disjE exE conjE)
        assume "e = Started i" "p_challengeCounter p = 0"
        then show ?thesis by (simp add: recent_refusals_snoc since_tick_snoc resets_def)
      next
        fix p0 assume p0: "w_vms w i = Some p0" "keeps p0 p" and e: "e = Ticked i" "p_challengeCounter p = 0"
          and d: "p_currentDiff p = clampDifficulty (p_baseDifficulty p0 + pressure_step (p_challengeCounter p0))
            (p_minDifficulty p0) (p_maxDifficulty p0)"
        have "config_of p = config_of p0" using p0(2) by (simp add: keeps_def)
        from config_of_fields [OF this] show ?thesis
          using step.IH p0(1) e d by (simp add: recent_refusals_snoc since_tick_snoc resets_def ticked_difficulty_def)
      next
        fix p0 assume p0: "w_vms w i = Some p0" "keeps p0 p" and e: "\<not> resets i e"
          and c: "p_challengeCounter p = p_challengeCounter p0 + (if refusal_of i e then 1 else 0)"
          and d: "p_currentDiff p0 \<noteq> 0 \<longrightarrow> p_currentDiff p = p_currentDiff p0"
        have "config_of p = config_of p0" using p0(2) by (simp add: keeps_def)
        note f = config_of_fields [OF this]
        have "p_currentDiff p = ticked_difficulty p (recent_refusals i es1)"
          if mm: "p_minDifficulty p \<le> p_maxDifficulty p" and s: "since_tick i es1 es"
        proof -
          have t: "p_currentDiff p0 = ticked_difficulty p (recent_refusals i es1)"
            using step.IH [of p0] p0(1) mm s f by (simp add: ticked_difficulty_def)
          have "1 \<le> p_minDifficulty p0"
            using run_ok [OF step.hyps(1)] p0(1) by (auto simp: world_ok_def plugin_ok_def)
          then have "1 \<le> ticked_difficulty p (recent_refusals i es1)"
            using clampDifficulty_bounds [OF mm] f unfolding ticked_difficulty_def by (metis order.trans)
          then have "p_currentDiff p0 \<noteq> 0" using t by auto
          then show ?thesis using d t by simp
        qed
        then show ?thesis
          using step.IH [of p0] p0(1) e c by (simp add: recent_refusals_snoc since_tick_snoc)
      qed
    qed simp
  qed
  then show "w_vms w i = Some p \<Longrightarrow> p_challengeCounter p = of_nat (recent_refusals i es)"
    "w_vms w i = Some p \<Longrightarrow> p_minDifficulty p \<le> p_maxDifficulty p \<Longrightarrow> since_tick i es1 es
      \<Longrightarrow> p_currentDiff p = ticked_difficulty p (recent_refusals i es1)" by blast+
qed

section \<open>The difficulty of a refusal\<close>

lemma run_prefix:
  assumes "run gj gw es w" and "es = es1 @ e # es2"
  shows "\<exists>w1 w2. run gj gw es1 w1 \<and> wstep gj gw w1 e w2"
  using assms
proof (induction arbitrary: es2 rule: run.induct)
  case (step es w e' w')
  then show ?case by (cases es2 rule: rev_cases) auto
qed simp

text \<open>Without a valid override header and without elevation, a refusal carries the cached difficulty.\<close>

lemma refusal_difficulty:
  assumes "OnHttpRequestHeaders gw shared req p (NewHttpContext p c) = (p', ctx', Respond lr)"
    and "parse_difficulty (header_or_empty req ''x-challenge-difficulty'') = None"
    and "fst (the (ipintel_gate gw p (request_client p req))) \<noteq> ipElevated" and "p_currentDiff p \<noteq> 0"
    and "p_minDifficulty p \<le> p_currentDiff p" "p_currentDiff p \<le> p_maxDifficulty p"
  shows "\<exists>salt. lr_headers lr = challenge_headers (issued_challenge (hmac_secret (p_mac p)) (req_clock req IssueClock) salt
    (p_currentDiff p) (request_client p req)) (requestIsHTTPS req)"
proof -
  let ?x = "(NewHttpContext p c)\<lparr>h_client := request_client p req\<rparr>"
  obtain q where q: "same_but_mac p q" and h: "OnHttpRequestHeaders gw shared req p (NewHttpContext p c) = by_proofs gw shared req p q (NewHttpContext p c)"
    using OnHttpRequestHeaders_by_proofs by blast
  note h = h [unfolded by_proofs_def]
  have "gate_and_issue gw shared req (request_client p req) q ?x = (p', ctx', Respond lr)"
    using assms(1) unfolding h by (simp split: if_split_asm)
  then have i: "issue_challenge gw shared req (request_client p req) q ?x = (p', ctx', Respond lr)"
    using assms(3) by (auto simp: gate_and_issue_def ipintel_gate_same [OF q] split: option.splits ipintelDecision.splits)
  have "challenge_difficulty shared req q (h_ipintelDifficulty ?x) = p_currentDiff p"
    using assms(2,4-6) unfolding challenge_difficulty_same [OF q]
    by (simp add: challenge_difficulty_def getEffectiveDifficulty_def NewHttpContext_def Let_def clampDifficulty_id
        word_greater_zero_iff)
  then show ?thesis
    using issue_challenge_spec [where gw = gw and shared = shared and req = req and client = "request_client p req"
        and p = q and ctx = ?x] i same_but_mac_fields(8) [OF q]
    by (auto split: option.splits)
qed

section \<open>Properties\<close>

text \<open>C16: The difficulty follows the traffic. In every run, over any number of VMs, take a tick of a VM and a
  later refusal by it, with no other tick or start of it between. If the request has no valid
  override header and the ipintel gate does not elevate its address, its challenge has the base
  difficulty raised by the step for the number of refusals of that VM between the tick and the one
  (or the start) before, within the configured bounds.\<close>

theorem run_difficulty_follows_traffic:
  assumes "run gj gw es w" and "es = es1 @ Ticked i # es2 @ Handled (i, c) p r (Respond lr) # es3"
    and "list_all (\<lambda>e. \<not> resets i e) es2"
    and "p_minDifficulty p \<le> p_maxDifficulty p"
    and "parse_difficulty (header_or_empty r ''x-challenge-difficulty'') = None"
    and "fst (the (ipintel_gate gw p (request_client p r))) \<noteq> ipElevated"
  shows "\<exists>salt. lr_headers lr = challenge_headers (issued_challenge (hmac_secret (p_mac p)) (req_clock r IssueClock) salt
     (clampDifficulty (p_baseDifficulty p + pressure_step (of_nat (recent_refusals i es1)))
        (p_minDifficulty p) (p_maxDifficulty p)) (request_client p r)) (requestIsHTTPS r)"
proof -
  have "es = (es1 @ Ticked i # es2) @ Handled (i, c) p r (Respond lr) # es3" using assms(2) by simp
  from run_prefix [OF assms(1) this] obtain w1 w2 where w1: "run gj gw (es1 @ Ticked i # es2) w1"
    and st: "wstep gj gw w1 (Handled (i, c) p r (Respond lr)) w2" by blast
  from st obtain p' ctx ctx' where vm: "w_vms w1 i = Some p"
    and s: "w_streams w1 (i, c) = Some \<lparr>st_stage = AwaitRequest, st_ctx = ctx\<rparr>"
    and h: "OnHttpRequestHeaders gw (w_shared w1) r p ctx = (p', ctx', Respond lr)"
    by (elim handledE) auto
  have ctx: "ctx = NewHttpContext p c"
    using world_ok_streamD [OF run_ok [OF w1] vm s] by (simp add: stream_ok_def)
  have "since_tick i es1 (es1 @ Ticked i # es2)" using assms(3) by (auto simp: since_tick_def)
  from traffic_in_run(2) [OF w1 vm assms(4) this]
  have d: "p_currentDiff p = ticked_difficulty p (recent_refusals i es1)" .
  then have b: "p_minDifficulty p \<le> p_currentDiff p" "p_currentDiff p \<le> p_maxDifficulty p"
    using clampDifficulty_bounds [OF assms(4)] by (simp_all add: ticked_difficulty_def)
  have one: "1 \<le> p_minDifficulty p" using run_ok [OF w1] vm by (auto simp: world_ok_def plugin_ok_def)
  from order.trans [OF one b(1)] have "p_currentDiff p \<noteq> 0" by auto
  from refusal_difficulty [OF h [unfolded ctx] assms(5,6) this b] show ?thesis
    unfolding d ticked_difficulty_def .
qed

text \<open>A run in which a VM ticks before it refuses its first request.\<close>

lemma sample_ticked_run:
  "\<exists>p lr w. run secret_gjson example_gateway
       ([Started 0, Opened (0, 7)] @ Ticked 0 # [] @ Handled (0, 7) p (sample_request []) (Respond lr) # []) w
     \<and> config_of p = config_of secret_plugin \<and> \<not> p_ipintelEnabled p"
proof -
  let ?r = "sample_request []" and ?g = example_gateway
  obtain p shared' where t: "OnTick False secret_plugin (w_shared secret_world) = (p, shared')" by (metis surj_pair)
  then have p: "p = secret_plugin\<lparr>p_challengeCounter := 0, p_currentDiff := p_currentDiff p\<rparr>"
    by (auto simp: OnTick_def Let_def)
  have cfg: "config_of p = config_of secret_plugin" by (subst p) (simp add: config_of_def)
  have no: "\<not> p_ipintelEnabled p" by (subst p) (simp add: secret_plugin_fields)
  let ?w = "(set_vm 0 p secret_world)\<lparr>w_shared := shared'\<rparr>"
  have r1: "run secret_gjson ?g [Started 0, Opened (0, 7), Ticked 0] ?w"
    using run.step [OF secret_world(3) wstep.tick [OF secret_world(1) t]] by simp
  have s: "w_vms ?w 0 = Some p" "w_streams ?w (0, 7) = Some \<lparr>st_stage = AwaitRequest, st_ctx = NewHttpContext p 7\<rparr>"
    using secret_world(2) NewHttpContext_config [OF cfg] by simp_all
  obtain p2 x out where h: "OnHttpRequestHeaders ?g (w_shared ?w) ?r p (NewHttpContext p 7) = (p2, x, out)"
    by (metis prod_cases3)
  obtain q0 y0 lr0 where "OnHttpRequestHeaders ?g (\<lambda>_. None) ?r secret_plugin (NewHttpContext secret_plugin 7) = (q0, y0, Respond lr0)"
    using sample_refused by blast
  then have "snd (snd (OnHttpRequestHeaders ?g (\<lambda>_. None) ?r secret_plugin (NewHttpContext secret_plugin 7))) \<noteq> Continue"
    by simp
  then have "snd (snd (OnHttpRequestHeaders ?g (w_shared ?w) ?r p (NewHttpContext p 7))) \<noteq> Continue"
    using no unfolding continue_iff request_proofs_config [OF cfg]
    by (auto simp: ipintel_gate_def secret_plugin_fields split: if_splits)
  then have "out \<noteq> Continue" "out \<noteq> Trap" using h trap_iff [of ?g "w_shared ?w" ?r p "NewHttpContext p 7"] no by (simp_all add: ipintel_gate_def)
  then obtain lr where "out = Respond lr" by (cases out) auto
  with wstep.req [OF s h] obtain w where "wstep secret_gjson ?g ?w (Handled (0, 7) p ?r (Respond lr)) w" by blast
  from run.step [OF r1 this] cfg no show ?thesis by auto
qed

theorem run_difficulty_follows_traffic_witness:
  "\<exists>p r lr w salt. run secret_gjson example_gateway [Started 0, Opened (0, 7), Ticked 0, Handled (0, 7) p r (Respond lr)] w
     \<and> lr_headers lr = challenge_headers (issued_challenge (hmac_secret (p_mac p)) (req_clock r IssueClock) salt 1
         (request_client p r)) (requestIsHTTPS r)"
proof -
  obtain p lr w where r: "run secret_gjson example_gateway
       ([Started 0, Opened (0, 7)] @ Ticked 0 # [] @ Handled (0, 7) p (sample_request []) (Respond lr) # []) w"
    and cfg: "config_of p = config_of secret_plugin" and no: "\<not> p_ipintelEnabled p"
    using sample_ticked_run by blast
  note f = config_of_fields [OF cfg] secret_plugin_fields
  have mm: "p_minDifficulty p \<le> p_maxDifficulty p" by (simp add: f)
  have "parse_difficulty (header_or_empty (sample_request []) ''x-challenge-difficulty'') = None"
    by (simp add: sample_request_fields parse_difficulty_def)
  moreover have "clampDifficulty (p_baseDifficulty p + pressure_step (of_nat (recent_refusals 0 [Started 0, Opened (0, 7)])))
      (p_minDifficulty p) (p_maxDifficulty p) = 1"
    by (simp add: f recent_refusals_def resets_def refusal_of_def pressure_step_def clampDifficulty_def)
  moreover have "fst (the (ipintel_gate example_gateway p (request_client p (sample_request [])))) \<noteq> ipElevated"
    using no by (simp add: ipintel_gate_def)
  ultimately show ?thesis
    using run_difficulty_follows_traffic [OF r refl _ mm] r by auto
qed

end
