(* ===== verification/Handler_Safety.thy ===== *)
theory Handler_Safety
  imports Returned
begin

text \<open>
  Two facts about the handlers of \<^verbatim>\<open>src/main.go\<close> that hold for every input: what a request with a valid
  clearance is judged by (the hot path), and what can reach the headers of a response.
\<close>

section \<open>The hot path\<close>

text \<open>What the handler looks at until it has verified a clearance: the authority and the path for the
  protection rules, the cookies, the sources of the client's address, and one reading of the clock.\<close>

definition hot_headers :: "string set" where
  "hot_headers = {'':authority'', '':path'', ''cookie'', ''x-forwarded-for'', ''x-real-ip''}"

definition same_hot_path :: "request \<Rightarrow> request \<Rightarrow> bool" where
  "same_hot_path req req' \<longleftrightarrow>
     (\<forall>n\<in>hot_headers. req_header req' n = req_header req n)
     \<and> req_property req' [''source'', ''address''] = req_property req [''source'', ''address'']
     \<and> req_clock req' ClearanceClock = req_clock req ClearanceClock"

lemma same_hot_path_simps:
  assumes "same_hot_path req req'"
  shows "header_or_empty req' '':authority'' = header_or_empty req '':authority''"
    "header_or_empty req' '':path'' = header_or_empty req '':path''"
    "header_or_empty req' ''cookie'' = header_or_empty req ''cookie''"
    "resolveClientIP s req' = resolveClientIP s req"
    "req_clock req' ClearanceClock = req_clock req ClearanceClock"
  using assms
  by (simp_all add: same_hot_path_def hot_headers_def header_or_empty_def resolveClientIP_def peerIP_def forwardedIP_def realIP_def)

lemma same_hot_path_clearance:
  assumes "same_hot_path req req'"
  shows "request_cookies req' = request_cookies req" "valid_clearance p req' = valid_clearance p req"
  unfolding request_cookies_def valid_clearance_def parsed_clearance_def same_hot_path_simps [OF assms] by (rule refl)+

lemma protected_same_hot_path:
  assumes "same_hot_path req req'" "gw_lower gw' = gw_lower gw"
  shows "protected_request gw' req' p = protected_request gw req p"
  using same_hot_path_simps [OF assms(1)] assms(2) by (simp add: protected_request_def)

text \<open>The state a valid clearance leaves.\<close>

lemma valid_clearance_result:
  assumes "protected_request gw req p" and "valid_clearance p req"
  shows "OnHttpRequestHeaders gw shared req p ctx =
     (p\<lparr>p_mac := fst (parseClearanceMAC (p_mac p) [] (ck_clearance (request_cookies req)) (resolveClientIP (p_clientIPSource p) req))\<rparr>,
      ctx\<lparr>h_client := \<lparr>IP = resolveClientIP (p_clientIPSource p) req, ConnID = []\<rparr>\<rparr>, Continue)"
proof -
  have "ck_clearance (request_cookies req) \<noteq> []"
    using assms(2) parse_empty_clearance by (auto simp: valid_clearance_def parsed_clearance_def)
  then show ?thesis
    using assms by (auto simp: OnHttpRequestHeaders_def request_cookies_def [symmetric] try_clearance_def Let_def
        valid_clearance_def parsed_clearance_def split: prod.splits sum.splits)
qed

section \<open>Headers\<close>

definition printable :: "char \<Rightarrow> bool" where
  "printable c \<longleftrightarrow> c = CHR '' '' \<or> visible c"

definition cookie_attributes :: "string set" where
  "cookie_attributes = {'' Path=/'', '' SameSite=Lax'', '' HttpOnly'', '' Secure''} \<union> range (\<lambda>n. '' Max-Age='' @ Itoa n)"

definition cookie_names :: "string set" where
  "cookie_names = {''challenge'', ''challenge-sig'', ''challenge-nonce'', ''challenge-clearance''}"

text \<open>A value of \<open>Set-Cookie\<close> that a browser reads as one of the plugin's cookies, with its attributes only.\<close>

definition own_cookie :: "string \<Rightarrow> bool" where
  "own_cookie v \<longleftrightarrow> (\<exists>name val attrs. Split v CHR '';'' = (name @ ''='' @ val) # attrs \<and> name \<in> cookie_names
     \<and> list_all visible val \<and> set attrs \<subseteq> cookie_attributes)"

definition safe_header :: "string \<times> string \<Rightarrow> bool" where
  "safe_header h \<longleftrightarrow> list_all printable (fst h) \<and> list_all printable (snd h)
     \<and> (fst h = ''Set-Cookie'' \<longrightarrow> own_cookie (snd h))"

lemma visible_printable: "list_all visible s \<Longrightarrow> list_all printable s"
  by (auto simp: list_all_iff printable_def)

lemma Itoa_printable: "list_all printable (Itoa i)"
proof -
  have "list_all visible (digits_of n)" for n
    using digits_of_digits [of n] digit_visible by (auto simp: list_all_iff)
  then have "list_all printable (digits_of n)" for n by (rule visible_printable)
  then show ?thesis by (simp add: Itoa_def printable_def visible_def char_code_def)
qed

lemma name_chars:
  assumes "name \<in> cookie_names"
  shows "CHR '';'' \<notin> set name" "list_all printable name"
  using assms by (auto simp: cookie_names_def printable_def visible_def char_code_def)

lemma safe_setCookie:
  assumes "name \<in> cookie_names" and "list_all visible v" and "CHR '';'' \<notin> set v"
  shows "safe_header (''Set-Cookie'', setCookie name v age httpOnly secure)"
proof -
  have "own_cookie (setCookie name v age httpOnly secure)"
    unfolding own_cookie_def Split_setCookie [OF name_chars(1) [OF assms(1)] assms(3)]
    using assms by (intro exI [of _ name] exI [of _ v]) (auto simp: cookie_attributes_def)
  moreover have "list_all printable (setCookie name v age httpOnly secure)"
    using name_chars(2) [OF assms(1)] visible_printable [OF assms(2)] Itoa_printable [of age]
    by (simp add: setCookie_def Let_def) (simp add: printable_def visible_def char_code_def)
  ultimately show ?thesis by (simp add: safe_header_def printable_def visible_def char_code_def)
qed

lemma safe_clearCookie:
  assumes "name \<in> cookie_names"
  shows "safe_header (''Set-Cookie'', clearCookie name secure)"
proof -
  have "'' Max-Age='' @ Itoa 0 \<in> cookie_attributes" unfolding cookie_attributes_def by blast
  then have "'' Max-Age=0'' \<in> cookie_attributes" by (simp add: Itoa_0)
  moreover have "{'' Path=/'', '' SameSite=Lax'', '' HttpOnly'', '' Secure''} \<subseteq> cookie_attributes"
    unfolding cookie_attributes_def by blast
  ultimately have "set (['' Path=/'', '' Max-Age=0'', '' SameSite=Lax'']
      @ (if secure then ['' Secure''] else []) @ (if name = ''challenge-clearance'' then ['' HttpOnly''] else [])) \<subseteq> cookie_attributes"
    by auto
  moreover have "Split (clearCookie name secure) CHR '';'' = (name @ ''='' @ []) # ['' Path=/'', '' Max-Age=0'', '' SameSite=Lax'']
      @ (if secure then ['' Secure''] else []) @ (if name = ''challenge-clearance'' then ['' HttpOnly''] else [])"
    using Split_clearCookie [OF name_chars(1) [OF assms(1)]] by simp
  ultimately have "own_cookie (clearCookie name secure)"
    unfolding own_cookie_def using assms by (metis list.pred_inject(1))
  moreover have "list_all printable (clearCookie name secure)"
    using name_chars(2) [OF assms(1)] by (simp add: clearCookie_def Let_def) (simp add: printable_def visible_def char_code_def)
  ultimately show ?thesis by (simp add: safe_header_def printable_def visible_def char_code_def)
qed

lemma b64_cookie_chars: "list_all visible (b64_encode bs)" "CHR '';'' \<notin> set (b64_encode bs)"
  using b64.enc_visible b64.enc_avoids [of "CHR '';''"] by auto

lemma minted_cookie_chars: "list_all visible (minted_token k now salt ip)" "CHR '';'' \<notin> set (minted_token k now salt ip)"
  using minted_plain_cookie [of k now salt ip] encodeClearanceBody_chars [of "now + ClearanceLifetime" salt ip] b64_cookie_chars
  by (auto simp: minted_token_def Let_def visible_def char_code_def)

lemma safe_challenge_headers: "list_all safe_header (challenge_headers (issued_challenge k now salt d client) secure)"
proof -
  have n: "''challenge'' \<in> cookie_names" "''challenge-sig'' \<in> cookie_names" "''challenge-nonce'' \<in> cookie_names"
    "''challenge-clearance'' \<in> cookie_names" by (simp_all add: cookie_names_def)
  have "safe_header (''content-type'', ''text/html; charset=utf-8'')" "list_all printable ''challenge-sig''"
    by (simp_all add: safe_header_def printable_def visible_def char_code_def)
  then show ?thesis
    using safe_setCookie [OF n(1)] safe_setCookie [OF n(2)] safe_clearCookie n(3,4) b64_cookie_chars
    by (simp add: challenge_headers_def issued_challenge_def Let_def) (simp add: safe_header_def visible_printable)
qed

lemma safe_issued_headers: "list_all safe_header (issued_headers (minted_token k now salt ip) secure)"
  using safe_setCookie [OF _ minted_cookie_chars] safe_clearCookie by (simp add: issued_headers_def cookie_names_def)

section \<open>Properties\<close>

text \<open>C8: The hot path. Whether a request with a valid clearance continues, and what it leaves, depends on
  its authority, path, cookies and source of address alone: any other request that agrees on
  these, with any connection identifier, scheme, token, override of the difficulty, randomness and
  other times, under any page, database surroundings and shared data, has exactly the same
  result. The request continues, and of the state only the digester and the client's address change.\<close>

theorem hot_path_reads_only:
  assumes "valid_clearance p req" and "same_hot_path req req'" and "gw_lower gw' = gw_lower gw"
  shows "OnHttpRequestHeaders gw' shared' req' p ctx = OnHttpRequestHeaders gw shared req p ctx
    \<and> (case OnHttpRequestHeaders gw shared req p ctx of (p', ctx', out) \<Rightarrow> out = Continue \<and> same_but_mac p p'
         \<and> ctx' = (if protected_request gw req p
                   then ctx\<lparr>h_client := \<lparr>IP = resolveClientIP (p_clientIPSource p) req, ConnID = []\<rparr>\<rparr> else ctx))"
proof (cases "protected_request gw req p")
  case True
  note same = protected_same_hot_path [OF assms(2,3)] same_hot_path_clearance [OF assms(2)] same_hot_path_simps [OF assms(2)]
  have "OnHttpRequestHeaders gw' shared' req' p ctx = OnHttpRequestHeaders gw shared req p ctx"
    using valid_clearance_result [OF True assms(1)] valid_clearance_result [of gw' req' p shared' ctx] True assms(1)
    by (simp add: same)
  moreover have "same_but_mac p (p\<lparr>p_mac := fst (parseClearanceMAC (p_mac p) [] tok ip)\<rparr>)" for tok ip
    by (rule same_but_mac_update) simp
  ultimately show ?thesis using valid_clearance_result [OF True assms(1)] True by simp
next
  case False
  then show ?thesis using protected_same_hot_path [OF assms(2,3)] by (simp add: OnHttpRequestHeaders_def)
qed

theorem hot_path_reads_only_witness:
  "\<exists>req req'. valid_clearance guarded_plugin req \<and> req_header req' ''x-challenge-difficulty'' \<noteq> req_header req ''x-challenge-difficulty''
     \<and> OnHttpRequestHeaders example_gateway (\<lambda>_. Some []) req' guarded_plugin (NewHttpContext guarded_plugin 2)
       = OnHttpRequestHeaders example_gateway (\<lambda>_. None) req guarded_plugin (NewHttpContext guarded_plugin 2)"
proof -
  let ?ck = "render_cookies ([] @ clearance_cookie (minted_token [] 1000 [] []))"
  let ?req = "example_request\<lparr>req_header := (\<lambda>n. if n = ''cookie'' then Some ?ck else None)\<rparr>"
  let ?req' = "?req\<lparr>req_header := (req_header ?req)(''x-challenge-difficulty'' := Some ''30''), req_rand := (\<lambda>_. None)\<rparr>"
  have "header_or_empty ?req ''cookie'' = ?ck" by (simp add: header_or_empty_def)
  moreover have "hmac_secret (p_mac guarded_plugin) = []"
    by (simp add: guarded_plugin_def example_plugin_def NewPluginContext_def hmac_New_def)
  moreover have "resolveClientIP (p_clientIPSource guarded_plugin) ?req = []"
    by (simp add: resolveClientIP_def peerIP_def forwardedIP_def realIP_def example_request_def)
  ultimately have "valid_clearance guarded_plugin ?req"
    using clearance_request [of ?req "[]" "[]" 1000 "[]" "[]" guarded_plugin]
    by (simp add: valid_clearance_def ClearanceLifetime_def example_request_def word_sle_eq)
  moreover have "same_hot_path ?req ?req'" by (simp add: same_hot_path_def hot_headers_def)
  ultimately show ?thesis
    using hot_path_reads_only [of guarded_plugin ?req ?req' example_gateway example_gateway "\<lambda>_. Some []"
        "NewHttpContext guarded_plugin 2" "\<lambda>_. None"]
    by (intro exI [of _ ?req] exI [of _ ?req']) simp
qed

text \<open>C9: Nothing a client sends can inject a header or an attribute. In every response, whatever the request,
  the state, the address and the connection identifier are, each header the plugin adds is printable
  ASCII (so without line breaks), and each \<open>Set-Cookie\<close> reads, split at its semicolons as a browser
  does, as one of the plugin's four cookies with the plugin's attributes and a visible value. The
  configured header, which comes last, is the only one with a text of its own.\<close>

theorem responses_are_safe:
  "(case snd (snd (OnHttpRequestHeaders gw shared req p ctx)) of
      Respond lr \<Rightarrow> list_all safe_header (lr_headers lr)
    | _ \<Rightarrow> True)
   \<and> (\<exists>own. list_all safe_header own \<and> snd (OnHttpResponseHeaders env env' q ctx2) =
        own @ (if h_headerName ctx2 \<noteq> [] then [(h_headerName ctx2, h_headerValue ctx2)] else []))"
proof (rule conjI)
  obtain r where h: "OnHttpRequestHeaders gw shared req p ctx = by_proofs gw shared req p r ctx"
    using OnHttpRequestHeaders_by_proofs by blast
  have "case snd (snd (issue_challenge gw shared req c r x)) of Respond lr \<Rightarrow> list_all safe_header (lr_headers lr) | _ \<Rightarrow> True" for c x
    using issue_challenge_spec [where gw = gw and shared = shared and req = req and client = c and p = r and ctx = x]
      safe_challenge_headers by (auto split: prod.splits option.splits)
  then show "case snd (snd (OnHttpRequestHeaders gw shared req p ctx)) of
      Respond lr \<Rightarrow> list_all safe_header (lr_headers lr) | _ \<Rightarrow> True"
    unfolding h by_proofs_def gate_and_issue_def by (simp split: option.split ipintelDecision.split prod.split)
next
  have "safe_header (''Set-Cookie'', setCookie ''challenge-clearance'' (minted_token k now salt ip) age True secure)"
    for k now salt ip age secure
    by (rule safe_setCookie [OF _ minted_cookie_chars]) (simp add: cookie_names_def)
  then show "\<exists>own. list_all safe_header own \<and> snd (OnHttpResponseHeaders env env' q ctx2) =
        own @ (if h_headerName ctx2 \<noteq> [] then [(h_headerName ctx2, h_headerValue ctx2)] else [])"
    unfolding OnHttpResponseHeaders_eq append_assoc [symmetric]
    by (intro exI conjI) (rule refl | use safe_issued_headers in \<open>auto split: option.split\<close>)+
qed

end
