(* ===== verification/Ipintel_File.thy ===== *)
theory Ipintel_File
  imports Ipintel_Lookup
begin

text \<open>
  A whole database file: what the reader makes of a file that is laid out as \<^verbatim>\<open>src/ipintelbin/db.go\<close>
  expects it, from the header to the answer of a lookup. The writer is not part of the repository, so
  the layout is stated here: the manifest and the index are texts that the reader decodes, and the
  entries of the index describe the blocks that follow.
\<close>

section \<open>The layout\<close>

text \<open>The packed bytes of a block, for a compression that the decoder undoes.\<close>

definition packed :: "(bytes \<Rightarrow> bytes) \<Rightarrow> Record list \<Rightarrow> bytes" where
  "packed compress rs = compress (encode_records rs)"

definition database_file :: "(bytes \<Rightarrow> bytes) \<Rightarrow> bytes \<Rightarrow> bytes \<Rightarrow> Record list list \<Rightarrow> bytes" where
  "database_file compress mb ib blocks =
     bytes_of FormatMagic @ le_bytes 4 1 @ le_bytes 4 (length mb) @ le_bytes 4 (length ib)
     @ le_bytes 8 (headerSize + length mb + length ib) @ mb @ ib @ concat (map (packed compress) blocks)"

text \<open>An entry of the index for a block that starts \<open>off\<close> bytes into the data.\<close>

definition describes :: "(bytes \<Rightarrow> bytes) \<Rightarrow> nat \<Rightarrow> BlockHeader \<Rightarrow> Record list \<Rightarrow> bool" where
  "describes compress off h rs \<longleftrightarrow>
     bh_Offset h = of_nat off \<and> bh_Compressed h = of_nat (length (packed compress rs))
     \<and> bh_Uncompressed h = of_nat (length (encode_records rs))
     \<and> (case (ParseAddr (bh_FirstStart h), ParseAddr (bh_MaxEnd h)) of
          (Some first, Some maxEnd) \<Rightarrow> fst (addrBytes first) = bh_Family h \<and>
            list_all (\<lambda>r. rec_Family r = bh_Family h \<and> snd (addrBytes first) \<le> rec_Start r
              \<and> rec_End r \<le> snd (addrBytes maxEnd)) rs
        | _ \<Rightarrow> False)"

fun laid_out :: "(bytes \<Rightarrow> bytes) \<Rightarrow> nat \<Rightarrow> BlockHeader list \<Rightarrow> Record list list \<Rightarrow> bool" where
  "laid_out compress off [] [] = True"
| "laid_out compress off (h # hs) (rs # blocks) =
     (describes compress off h rs \<and> laid_out compress (off + length (packed compress rs)) hs blocks)"
| "laid_out compress off _ _ = False"

text \<open>The limits of the reader.\<close>

definition block_fits :: "(bytes \<Rightarrow> bytes) \<Rightarrow> Record list \<Rightarrow> bool" where
  "block_fits compress rs \<longleftrightarrow> list_all record_fits rs \<and> length rs \<le> 1000000
     \<and> packed compress rs \<noteq> [] \<and> length (packed compress rs) \<le> 64 * 1024 * 1024
     \<and> length (encode_records rs) \<le> 256 * 1024 * 1024"

definition file_fits :: "(bytes \<Rightarrow> bytes) \<Rightarrow> bytes \<Rightarrow> bytes \<Rightarrow> Record list list \<Rightarrow> bool" where
  "file_fits compress mb ib blocks \<longleftrightarrow> length mb \<le> 64 * 1024 * 1024 \<and> length ib \<le> 64 * 1024 * 1024
     \<and> list_all (block_fits compress) blocks \<and> length (database_file compress mb ib blocks) < 2 ^ 63"

section \<open>Opening the file\<close>

lemma unat_of_nat_small: "n < 2 ^ 32 \<Longrightarrow> unat (of_nat n :: 32 word) = n"
  by (simp add: unat_of_nat take_bit_nat_eq_self_iff)

lemma Uint32_LE_small: "n < 2 ^ 32 \<Longrightarrow> Uint32_LE (le_bytes 4 n @ r) = of_nat n"
  using Uint32_LE_le_bytes [of "of_nat n" r] by (simp add: unat_of_nat_small)

lemma Uint64_LE_small:
  assumes "n < 2 ^ 64"
  shows "Uint64_LE (le_bytes 8 n) = of_nat n"
  using assms by (simp add: Uint64_LE_def le_val_le_bytes)

lemma sint_of_nat64: "n < 2 ^ 63 \<Longrightarrow> sint (of_nat n :: int64) = int n"
  by (subst sint64_of_int [of "int n", symmetric]) simp_all

lemma open_block_describes:
  assumes "describes compress off h rs"
  shows "\<exists>b. open_block h = Inr b \<and> rb_header b = h \<and> block_covers b rs"
  using assms by (auto simp: describes_def open_block_def block_covers_def split: option.splits)

text \<open>The blocks in memory, with the places of their bytes.\<close>

lemma open_blocks_laid_out:
  "laid_out compress off hs blocks \<Longrightarrow>
     \<exists>bs. open_blocks hs acc = Inr (acc @ bs) \<and> map rb_header bs = hs \<and> list_all2 block_covers bs blocks"
proof (induction compress off hs blocks arbitrary: acc rule: laid_out.induct)
  case (2 compress off h hs rs blocks)
  then obtain b where b: "open_block h = Inr b" "rb_header b = h" "block_covers b rs"
    using open_block_describes by (meson laid_out.simps(2))
  obtain bs where "open_blocks hs (acc @ [b]) = Inr ((acc @ [b]) @ bs)" "map rb_header bs = hs" "list_all2 block_covers bs blocks"
    using 2 by (metis laid_out.simps(2))
  then show ?case using b by (intro exI [of _ "b # bs"]) simp
qed simp_all

lemma readBlock_packed:
  assumes "describes compress off (rb_header b) rs" and "block_fits compress rs" and "zstd (packed compress rs) = Some (encode_records rs)"
    and "db_data db = pre @ packed compress rs @ post" and "db_dataOffset db = of_nat base"
    and "length pre = base + off" and "length (db_data db) < 2 ^ 63"
  shows "readBlock zstd db b = Inr rs"
proof -
  let ?h = "rb_header b" and ?c = "length (packed compress rs)" and ?u = "length (encode_records rs)"
  have h: "bh_Offset ?h = of_nat off" "bh_Compressed ?h = of_nat ?c" "bh_Uncompressed ?h = of_nat ?u"
    using assms(1) by (simp_all add: describes_def)
  have u: "0 < ?u" by (simp add: encode_records_def)
  have c: "0 < ?c" "?c \<le> 64 * 1024 * 1024" "?u \<le> 256 * 1024 * 1024"
    using assms(2) by (auto simp: block_fits_def)
  have len: "base + off + ?c < 2 ^ 63" using assms(4,6,7) by simp
  have "db_dataOffset db + bh_Offset ?h = of_nat (length pre)" by (simp add: assms(5,6) h(1))
  moreover have "of_nat (length pre) + bh_Compressed ?h = of_nat (length pre + ?c)" by (simp add: h(2))
  ultimately obtain st en where st: "db_dataOffset db + bh_Offset ?h = st" "sint st = int (length pre)"
    and en: "st + bh_Compressed ?h = en" "sint en = int (length pre) + int ?c"
    using len assms(6) sint_of_nat64 [of "length pre"] sint_of_nat64 [of "length pre + ?c"] by simp
  have s: "sint (bh_Compressed ?h) = int ?c" "sint (bh_Uncompressed ?h) = int ?u"
    using c unfolding h(2,3) by (auto intro!: sint_of_nat64)
  have ok: "\<not> (bh_Compressed ?h \<le>s 0 \<or> 64 * 1024 * 1024 <s bh_Compressed ?h \<or> bh_Uncompressed ?h \<le>s 0
      \<or> 256 * 1024 * 1024 <s bh_Uncompressed ?h)"
    using c u by (simp add: word_sle_eq word_sless_alt s)
  have dec: "decodeRecords (encode_records rs) = Some rs"
    using decode_encode_records [of rs "[]"] assms(2) by (simp add: block_fits_def)
  have "take (nat (sint en - sint st)) (drop (nat (sint st)) (db_data db)) = packed compress rs"
    by (simp add: st(2) en(2) assms(4))
  moreover have "\<not> (st <s 0 \<or> int (length (db_data db)) < sint en)" "\<not> sint en < sint st"
    by (simp_all add: word_sless_alt st(2) en(2) assms(4))
  moreover have "db_data db \<noteq> []" using c(1) assms(4) by auto
  ultimately show ?thesis
    using ok assms(3) dec unfolding readBlock_def Let_def st(1) en(1) s(2) by simp
qed

text \<open>All the blocks of a file are read back.\<close>

lemma read_all_laid_out:
  assumes "db_data db = pre @ concat (map (packed compress) blocks) @ post" and "db_dataOffset db = of_nat base"
    and "length pre = base + off" and "length (db_data db) < 2 ^ 63" and "list_all (block_fits compress) blocks"
    and "laid_out compress off (map rb_header bs) blocks" and "\<And>x. zstd (compress x) = Some x"
  shows "read_all zstd db bs [] = Inr (concat blocks) \<and> list_all2 (\<lambda>b rs. readBlock zstd db b = Inr rs) bs blocks"
  using assms(1,3,5,6)
proof (induction bs arbitrary: pre off blocks)
  case Nil
  then show ?case by (cases blocks) simp_all
next
  case (Cons b bs)
  then obtain rs rest where bl: "blocks = rs # rest" by (cases blocks) auto
  have "readBlock zstd db b = Inr rs"
  proof (rule readBlock_packed [where post = "concat (map (packed compress) rest) @ post"])
    show "zstd (packed compress rs) = Some (encode_records rs)" by (simp add: packed_def assms(7))
  qed (use Cons.prems assms(2,4) in \<open>simp_all add: bl\<close>)
  moreover have "read_all zstd db bs [] = Inr (concat rest) \<and> list_all2 (\<lambda>b rs. readBlock zstd db b = Inr rs) bs rest"
    by (rule Cons.IH [of "pre @ packed compress rs" _ "off + length (packed compress rs)"])
      (use Cons.prems in \<open>simp_all add: bl\<close>)
  ultimately show ?case using read_all_acc [of zstd db bs rs] by (simp add: bl)
qed

lemma open_database_file:
  assumes "file_fits compress mb ib blocks" and "Manifest_Unmarshal time_ok mb = Some m" and "man_FormatVersion m = 1"
    and "index_Unmarshal ib = Some hs" and "laid_out compress 0 hs blocks"
  shows "\<exists>bs. OpenBytes time_ok True (database_file compress mb ib blocks) = Inr \<lparr>db_data = database_file compress mb ib blocks,
       db_manifest = m, db_blocks = bs, db_dataOffset = of_nat (headerSize + length mb + length ib)\<rparr>
     \<and> map rb_header bs = hs \<and> list_all2 block_covers bs blocks"
proof -
  let ?data = "concat (map (packed compress) blocks)" and ?base = "headerSize + length mb + length ib"
  let ?hdr = "bytes_of FormatMagic @ le_bytes 4 1 @ le_bytes 4 (length mb) @ le_bytes 4 (length ib) @ le_bytes 8 ?base"
  have m8: "length (bytes_of FormatMagic) = 8" by (simp add: FormatMagic_def)
  have l: "length mb \<le> 67108864" "length ib \<le> 67108864" using assms(1) by (simp_all add: file_fits_def)
  have base: "?base < 2 ^ 63" using l by (simp add: headerSize_def)
  have hdr: "take 8 ?hdr = bytes_of FormatMagic" "Uint32_LE (drop 8 ?hdr) = 1"
    "Uint32_LE (drop 12 ?hdr) = of_nat (length mb)" "Uint32_LE (drop 16 ?hdr) = of_nat (length ib)"
    "Uint64_LE (drop 20 ?hdr) = of_nat ?base"
  proof -
    have d: "drop 8 ?hdr = le_bytes 4 1 @ le_bytes 4 (length mb) @ le_bytes 4 (length ib) @ le_bytes 8 ?base"
      "drop 12 ?hdr = le_bytes 4 (length mb) @ le_bytes 4 (length ib) @ le_bytes 8 ?base"
      "drop 16 ?hdr = le_bytes 4 (length ib) @ le_bytes 8 ?base" "drop 20 ?hdr = le_bytes 8 ?base"
      using m8 by simp_all
    show "take 8 ?hdr = bytes_of FormatMagic" using m8 by simp
    show "Uint32_LE (drop 8 ?hdr) = 1" unfolding d using Uint32_LE_small [of 1] by simp
    show "Uint32_LE (drop 12 ?hdr) = of_nat (length mb)" "Uint32_LE (drop 16 ?hdr) = of_nat (length ib)"
      unfolding d using l by (simp_all add: Uint32_LE_small)
    show "Uint64_LE (drop 20 ?hdr) = of_nat ?base" unfolding d using base by (intro Uint64_LE_small) simp
  qed
  have u: "unat (of_nat (length mb) :: 32 word) = length mb" "unat (of_nat (length ib) :: 32 word) = length ib"
    using l by (simp_all add: unat_of_nat_small)
  have off: "\<not> (of_nat ?base :: int64) <s of_nat headerSize + ucast (of_nat (length mb) :: 32 word) + ucast (of_nat (length ib) :: 32 word)"
  proof -
    have "(ucast (of_nat (length mb) :: 32 word) :: int64) = of_nat (length mb)"
      "(ucast (of_nat (length ib) :: 32 word) :: int64) = of_nat (length ib)"
      using u by (simp_all add: unsigned_ucast_eq word_unat_eq_iff unat_of_nat take_bit_nat_eq_self_iff)
    then show ?thesis by (simp add: word_sless_alt)
  qed
  have fl: "database_file compress mb ib blocks = ?hdr @ mb @ ib @ ?data" by (simp add: database_file_def)
  have rh: "ReadFull headerSize (?hdr @ mb @ ib @ ?data) = Some (?hdr, mb @ ib @ ?data)"
    using m8 by (intro ReadFull_append) (simp add: headerSize_def)
  obtain bs where "open_blocks hs [] = Inr bs" "map rb_header bs = hs" "list_all2 block_covers bs blocks"
    using open_blocks_laid_out [OF assms(5), of "[]"] by auto
  then show ?thesis
    unfolding OpenBytes_def openBytes_def openReader_def fl rh option.case prod.case hdr Let_def u
    using l off assms(2-4) by (simp add: FormatVersion_def)
qed

section \<open>Properties\<close>

text \<open>C28: A database that is written is found. Take a file with the header, a manifest and an index that
  decode, and the packed blocks of records that the entries of the index describe, each with bounds
  that cover its records and all within the limits of the reader. Then it opens, its records are
  those of the blocks in their order, and a lookup of any address answers for exactly the records
  of the blocks that contain the address.\<close>

theorem written_database_is_found:
  assumes "file_fits compress mb ib blocks" and "Manifest_Unmarshal time_ok mb = Some m" and "man_FormatVersion m = 1"
    and "index_Unmarshal ib = Some hs" and "laid_out compress 0 hs blocks" and "\<And>x. zstd (compress x) = Some x"
    and "list_all (\<lambda>s. no_bar (sm_Name s)) (man_Sources m)" and "list_all (\<lambda>r. no_bar (rec_Category r)) (concat blocks)"
    and "ParseAddr ip = Some a"
  shows "\<exists>db res. OpenBytes time_ok True (database_file compress mb ib blocks) = Inr db \<and> db_manifest db = m
     \<and> AllRecords zstd db = Inr (concat blocks)
     \<and> Lookup zstd shuffle db ip = Inr res
     \<and> answer_of shuffle db a (filter (in_range (fst (addrBytes a)) (snd (addrBytes a))) (concat blocks)) res"
proof -
  let ?file = "database_file compress mb ib blocks"
  obtain bs where o: "OpenBytes time_ok True ?file = Inr \<lparr>db_data = ?file, db_manifest = m, db_blocks = bs,
      db_dataOffset = of_nat (headerSize + length mb + length ib)\<rparr>" (is "_ = Inr ?db")
    and bs: "map rb_header bs = hs" "list_all2 block_covers bs blocks"
    using open_database_file [OF assms(1-5)] by blast
  let ?pre = "bytes_of FormatMagic @ le_bytes 4 1 @ le_bytes 4 (length mb) @ le_bytes 4 (length ib)
      @ le_bytes 8 (headerSize + length mb + length ib) @ mb @ ib"
  have "read_all zstd ?db bs [] = Inr (concat blocks) \<and> list_all2 (\<lambda>b rs. readBlock zstd ?db b = Inr rs) bs blocks"
    by (rule read_all_laid_out [where pre = ?pre and post = "[]" and off = 0])
      (use assms(1,5,6) bs(1) in \<open>simp_all add: database_file_def file_fits_def headerSize_def FormatMagic_def\<close>)
  then have all: "AllRecords zstd ?db = Inr (concat blocks)" and rd: "list_all2 (\<lambda>b rs. readBlock zstd ?db b = Inr rs) bs blocks"
    by (simp_all add: AllRecords_def)
  have "list_all2 (\<lambda>b rs. readBlock zstd ?db b = Inr rs \<and> block_covers b rs) bs blocks"
    using rd bs(2) by (simp add: list_all2_conv_all_nth)
  then have "index_covers zstd ?db" by (auto simp: index_covers_def list_all_length list_all2_conv_all_nth)
  from lookup_answers [OF all this assms(9) _ assms(8), of shuffle] assms(7) o all
  show ?thesis by (intro exI [of _ ?db]) auto
qed

text \<open>A file with one block of one record, stored as it is.\<close>

definition example_manifest :: bytes where
  "example_manifest = bytes_of (json_object [(''format_version'', ''1'')])"

definition example_header :: BlockHeader where
  "example_header = \<lparr>bh_Family = 4, bh_FirstStart = ''10.0.0.0'', bh_MaxEnd = ''11.0.0.0'', bh_Count = 1, bh_Offset = 0,
     bh_Compressed = 63, bh_Uncompressed = 63\<rparr>"

definition example_index :: bytes where
  "example_index = bytes_of (CHR ''['' # json_object [(''family'', ''4''), (''first_start'', json_quote ''10.0.0.0''),
     (''max_end'', json_quote ''11.0.0.0''), (''count'', ''1''), (''offset'', ''0''), (''compressed_size'', ''63''),
     (''uncompressed_size'', ''63'')] @ '']'')"

lemma example_manifest_decodes:
  "Manifest_Unmarshal (\<lambda>_. True) example_manifest = Some (zero_Manifest\<lparr>man_FormatVersion := 1\<rparr>)"
proof -
  have i: "Itoa 1 = ''1''" by code_simp
  have "json_parse (json_object [(''format_version'', ''1'')]) = Some (JObj (zip (map fst [(''format_version'', ''1'')]) [JNum ''1'']))"
    using json_text_Itoa [of 1] by (intro json_parse_object) (simp_all add: i json_plain_char_def char_code_def)
  moreover have "ParseInt ''1'' = Some 1" using ParseInt_Itoa [of 1] by (simp add: i)
  ultimately show ?thesis
    by (simp add: Manifest_Unmarshal_def json_Unmarshal_def example_manifest_def Manifest_fields_def field_of_def
        set_int64_def zero_Manifest_def)
qed

lemma json_parse_singleton:
  assumes "list_all (\<lambda>((k, t), v). json_plain k \<and> json_text t v) (zip ms vs)"
    and "length vs = length ms" and "ms \<noteq> []"
  shows "json_parse (CHR ''['' # json_object ms @ '']'') = Some (JArr [JObj (zip (map fst ms) vs)])"
proof -
  obtain t where t: "json_fields ms = CHR 0x22 # t" using json_fields_start [OF assms(3)] ..
  have ml: "length ms < length (json_fields ms)" by (rule length_json_fields)
  have m: "json_members (Suc f) d (json_fields ms @ '']'') = Some (zip (map fst ms) vs, '']'')"
    if "length (json_fields ms) \<le> f" for f d
    using assms ml that by (intro json_members_fields) simp_all
  have "json_value (Suc (Suc f)) (Suc d) (json_object ms @ '']'') = Some (JObj (zip (map fst ms) vs), '']'')"
    if "length (json_fields ms) \<le> f" for f d
    using m [OF that, of d] by (simp add: json_object_def t json_ws_def char_code_def del: json_members.simps)
  then have "json_elements (Suc (Suc (Suc f))) (Suc d) (json_object ms @ '']'') = Some ([JObj (zip (map fst ms) vs)], [])"
    if "length (json_fields ms) \<le> f" for f d
    using that by (simp add: json_ws_def char_code_def del: json_value.simps)
  from this [of "2 * length (json_fields ms) + 4" 9998]
  have e: "json_elements (2 * length (json_fields ms) + 7) 9999 (json_object ms @ '']'') = Some ([JObj (zip (map fst ms) vs)], [])"
    by (simp add: numeral_eq_Suc del: json_elements.simps)
  have f: "json_fuel (CHR ''['' # json_object ms @ '']'') = Suc (2 * length (json_fields ms) + 7)"
    by (simp add: json_fuel_def json_object_def)
  have "json_value (Suc (2 * length (json_fields ms) + 7)) 10000 (CHR ''['' # json_object ms @ '']'')
      = Some (JArr [JObj (zip (map fst ms) vs)], [])"
    using e by (subst json_value.simps(2)) (simp add: json_object_def json_ws_def char_code_def del: json_elements.simps)
  then show ?thesis unfolding json_parse_def f by simp
qed

lemma example_index_decodes: "index_Unmarshal example_index = Some [example_header]"
proof -
  have i: "Itoa 0 = ''0''" "Itoa 1 = ''1''" "Itoa 63 = ''63''" "FormatUint 4 = ''4''" by code_simp+
  have n: "ParseInt ''0'' = Some 0" "ParseInt ''1'' = Some 1" "ParseInt ''63'' = Some 63"
    using ParseInt_Itoa [of 0] ParseInt_Itoa [of 1] ParseInt_Itoa [of 63] by (simp_all only: i)
  have u: "ParseUint ''4'' 8 = Some 4" by code_simp
  have p: "json_plain ''10.0.0.0''" "json_plain ''11.0.0.0''" by (simp_all add: json_plain_char_def char_code_def)
  let ?ms = "[(''family'', ''4''), (''first_start'', json_quote ''10.0.0.0''), (''max_end'', json_quote ''11.0.0.0''),
    (''count'', ''1''), (''offset'', ''0''), (''compressed_size'', ''63''), (''uncompressed_size'', ''63'')]"
  let ?vs = "[JNum ''4'', JStr ''10.0.0.0'', JStr ''11.0.0.0'', JNum ''1'', JNum ''0'', JNum ''63'', JNum ''63'']"
  have "json_parse (CHR ''['' # json_object ?ms @ '']'') = Some (JArr [JObj (zip (map fst ?ms) ?vs)])"
    using json_text_Itoa [of 0] json_text_Itoa [of 1] json_text_Itoa [of 63] json_text_FormatUint [of 4]
      json_text_quote [OF p(1)] json_text_quote [OF p(2)]
    by (intro json_parse_singleton) (simp_all add: i json_plain_char_def char_code_def)
  then show ?thesis
    by (simp add: index_Unmarshal_def example_index_def struct_of_json_def BlockHeader_fields_def field_of_def
        set_uint_def set_string_def set_int64_def zero_BlockHeader_def example_header_def n u)
qed

theorem written_database_is_found_witness:
  "\<exists>db res. OpenBytes (\<lambda>_. True) True (database_file (\<lambda>x. x) example_manifest example_index [[example_record]]) = Inr db
     \<and> Lookup Some rev db ''10.0.0.1'' = Inr res \<and> evidence_of db example_record \<in> set (res_Evidence res)"
proof -
  have a: "ParseAddr ''10.0.0.0'' = Some (Addr4 [10, 0, 0, 0])" "ParseAddr ''11.0.0.0'' = Some (Addr4 [11, 0, 0, 0])"
    by code_simp+
  have c: "fst (addrBytes (Addr4 [10, 0, 0, 0])) = 4" "rec_Family example_record = 4"
    "snd (addrBytes (Addr4 [10, 0, 0, 0])) \<le> rec_Start example_record"
    "rec_End example_record \<le> snd (addrBytes (Addr4 [11, 0, 0, 0]))" by code_simp+
  have "describes (\<lambda>x. x) 0 example_header [example_record]"
    unfolding describes_def packed_def example_length by (simp add: example_header_def a c)
  then have l: "laid_out (\<lambda>x. x) 0 [example_header] [[example_record]]" by simp
  have "length (packed (\<lambda>x. x) [example_record]) = 63" by (simp add: packed_def example_length)
  then have b: "block_fits (\<lambda>x. x) [example_record]"
    by (auto simp: block_fits_def packed_def record_fits_def string_fits_def example_record_def)
  have len: "length example_manifest < 1000" "length example_index < 1000"
    by (simp_all add: example_manifest_def example_index_def json_object_def json_quote_plain json_plain_char_def char_code_def)
  have f: "file_fits (\<lambda>x. x) example_manifest example_index [[example_record]]"
    using len b by (simp add: file_fits_def database_file_def headerSize_def FormatMagic_def packed_def example_length)
  have r: "in_range (fst (addrBytes (Addr4 [10, 0, 0, 1]))) (snd (addrBytes (Addr4 [10, 0, 0, 1]))) example_record"
    by code_simp
  have bars: "list_all (\<lambda>s. no_bar (sm_Name s)) (man_Sources (zero_Manifest\<lparr>man_FormatVersion := 1\<rparr>))"
    "list_all (\<lambda>r. no_bar (rec_Category r)) (concat [[example_record]])"
    by (simp_all add: zero_Manifest_def example_record_def no_bar_def)
  from written_database_is_found [OF f example_manifest_decodes _ example_index_decodes l _ bars example_addr,
      where zstd = Some and shuffle = rev]
  obtain db res where o: "OpenBytes (\<lambda>_. True) True (database_file (\<lambda>x. x) example_manifest example_index [[example_record]]) = Inr db"
    and "Lookup Some rev db ''10.0.0.1'' = Inr res" and ans: "answer_of rev db (Addr4 [10, 0, 0, 1]) [example_record] res"
    using r by auto
  then show ?thesis using answer_evidence(1) [OF ans] by auto
qed

end
