(* ===== verification/Ipintel_Prefix.thy ===== *)
theory Ipintel_Prefix
  imports Ipintel_Format
begin

text \<open>
  The range of addresses of a prefix, \<open>prefixRange\<close> in \<^verbatim>\<open>src/ipintelbin/types.go\<close>, over the part of
  \<^verbatim>\<open>net/netip\<close> it calls. A prefix is an address with a number of bits; \<open>None\<close> is the invalid one.
\<close>

section \<open>Definitions\<close>

type_synonym prefix = "(addr \<times> nat) option"

text \<open>The first \<open>n\<close> bits of a byte string.\<close>

definition mask_bytes :: "nat \<Rightarrow> bytes \<Rightarrow> bytes" where
  "mask_bytes n bs = map (\<lambda>i. let s = 8 - min 8 (n - 8 * i) in push_bit s (drop_bit s (bs ! i))) [0..<length bs]"

definition mask_addr :: "nat \<Rightarrow> addr \<Rightarrow> addr" where
  "mask_addr n a = (case a of Addr4 b \<Rightarrow> Addr4 (mask_bytes n b) | Addr6 ip zone \<Rightarrow> Addr6 (mask_bytes n ip) [])"

definition Masked :: "prefix \<Rightarrow> prefix" where
  "Masked p = map_option (\<lambda>(a, n). (mask_addr n a, n)) p"

text \<open>The loop \<open>end[last-i/8] |= 1 << (i % 8)\<close> for \<open>i\<close> below \<open>hostBits\<close> (none for a negative number).\<close>

definition set_host_bits :: "nat \<Rightarrow> nat \<Rightarrow> bytes \<Rightarrow> bytes" where
  "set_host_bits lst hostBits end =
     foldl (\<lambda>end i. end[lst - i div 8 := end ! (lst - i div 8) OR push_bit (i mod 8) 1]) end [0..<hostBits]"

definition prefixRange :: "prefix \<Rightarrow> byte \<times> bytes \<times> bytes" where
  "prefixRange p =
     (case Masked p of
        None \<Rightarrow> (0, replicate 16 0, replicate 16 0)
      | Some (addr, bits) \<Rightarrow>
          (case Unmap addr of
             Addr4 b \<Rightarrow> (let start = addr4 b in (4, start, set_host_bits 3 (32 - bits) start))
           | Addr6 ip zone \<Rightarrow>
               (let (family, start) = addrBytes (Addr6 ip zone) in (family, start, set_host_bits 15 (128 - bits) start))))"

section \<open>Bits\<close>

lemma keeps_bit: "8 - min 8 (n - 8 * (j div 8)) \<le> 7 - j mod 8 \<longleftrightarrow> j < (n :: nat)"
proof -
  define q r where "q = j div 8" and "r = j mod 8"
  then have j: "j = 8 * q + r" "r < 8" by simp_all
  show ?thesis
  proof (cases "8 * q + 8 \<le> n \<or> n \<le> 8 * q")
    case True
    then show ?thesis using j unfolding q_def [symmetric] r_def [symmetric] by auto
  next
    case False
    then obtain t where "n = 8 * q + t" "t < 8" by (metis add_less_cancel_left le_add_diff_inverse nat_le_linear not_le)
    then show ?thesis using j unfolding q_def [symmetric] r_def [symmetric] by auto
  qed
qed

lemma byte_bit_position:
  assumes "m < 8"
  shows "j = 8 * i + (7 - m) \<longleftrightarrow> j div 8 = i \<and> 7 - j mod 8 = (m :: nat)"
proof
  assume j: "j = 8 * i + (7 - m)"
  have "j div 8 = i" unfolding j by simp
  moreover have "j mod 8 = 7 - m" unfolding j by simp
  ultimately show "j div 8 = i \<and> 7 - j mod 8 = m" using assms by simp
next
  assume a: "j div 8 = i \<and> 7 - j mod 8 = m"
  have "j mod 8 < 8" by simp
  then have "j mod 8 = 7 - m" using a by linarith
  then show "j = 8 * i + (7 - m)" using a div_mult_mod_eq [of j 8] by linarith
qed

lemma position_from_end:
  assumes "h < 8 * l" "k < 8 * l"
  shows "8 * l - 1 - k = 8 * (l - 1 - h div 8) + (7 - h mod 8) \<longleftrightarrow> k = (h :: nat)"
proof -
  define q r where "q = h div 8" and "r = h mod 8"
  then have h: "h = 8 * q + r" "r < 8" by simp_all
  have "q < l" using assms(1) h by linarith
  then obtain d where l: "l = q + 1 + d" by (metis Suc_eq_plus1 add_Suc less_iff_Suc_add)
  show ?thesis unfolding q_def [symmetric] r_def [symmetric] using h(2) assms(2) unfolding h(1) l by auto
qed

lemma length_mask_bytes [simp]: "length (mask_bytes n bs) = length bs"
  by (simp add: mask_bytes_def)

lemma length_set_host_bits [simp]: "length (set_host_bits k n bs) = length bs"
  by (induction n) (simp_all add: set_host_bits_def)

lemma bit_push_drop: "bit (push_bit s (drop_bit s b)) p \<longleftrightarrow> s \<le> p \<and> bit (b :: byte) p"
  by (auto simp: bit_push_bit_iff bit_drop_bit_eq dest: bit_imp_le_length)

lemma bit_mask_bytes:
  assumes "n \<le> 8 * length bs"
  shows "bit (be_val (mask_bytes n bs)) k \<longleftrightarrow> bit (be_val bs) k \<and> 8 * length bs - n \<le> k"
proof (cases "k < 8 * length bs")
  case True
  let ?j = "8 * length bs - 1 - k"
  have j: "?j div 8 < length bs" using True by (simp add: less_mult_imp_div_less mult.commute)
  have "bit_at (mask_bytes n bs) ?j \<longleftrightarrow> bit_at bs ?j \<and> ?j < n"
  proof -
    let ?s = "8 - min 8 (n - 8 * (?j div 8))"
    have "?s \<le> 7 - ?j mod 8 \<longleftrightarrow> ?j < n" by (rule keeps_bit)
    moreover have "mask_bytes n bs ! (?j div 8) = push_bit ?s (drop_bit ?s (bs ! (?j div 8)))"
      using j by (simp add: mask_bytes_def Let_def)
    ultimately show ?thesis unfolding bit_at_def by (simp only: bit_push_drop) blast
  qed
  moreover have "?j < n \<longleftrightarrow> 8 * length bs - n \<le> k" using True assms by linarith
  ultimately show ?thesis using True by (simp add: bit_be_val)
qed (simp add: bit_be_val)

lemma bit_at_update:
  assumes "i < length bs" "m < 8" "j < 8 * length bs"
  shows "bit_at (bs[i := bs ! i OR push_bit m 1]) j \<longleftrightarrow> bit_at bs j \<or> j = 8 * i + (7 - m)"
proof -
  have "j = 8 * i + (7 - m) \<longleftrightarrow> j div 8 = i \<and> 7 - j mod 8 = m"
    by (rule byte_bit_position [OF assms(2)])
  then show ?thesis
    using assms by (auto simp: bit_at_def nth_list_update bit_or_iff bit_exp_iff)
qed

lemma bit_set_host_bits:
  assumes "h \<le> 8 * length bs"
  shows "bit (be_val (set_host_bits (length bs - 1) h bs)) k \<longleftrightarrow> bit (be_val bs) k \<or> k < h"
  using assms
proof (induction h)
  case (Suc h)
  let ?e = "set_host_bits (length bs - 1) h bs" and ?i = "length bs - 1 - h div 8"
  have step: "set_host_bits (length bs - 1) (Suc h) bs = ?e[?i := ?e ! ?i OR push_bit (h mod 8) 1]"
    by (simp add: set_host_bits_def)
  have i: "?i < length ?e" using Suc.prems by (cases bs) simp_all
  have b: "bit (be_val (?e[?i := ?e ! ?i OR push_bit (h mod 8) 1])) k \<longleftrightarrow> bit (be_val ?e) k \<or> k = h"
  proof (cases "k < 8 * length bs")
    case True
    have "8 * length bs - 1 - k = 8 * ?i + (7 - h mod 8) \<longleftrightarrow> k = h"
      using Suc.prems True by (intro position_from_end) simp_all
    then show ?thesis
      using True bit_at_update [OF i, of "h mod 8" "8 * length bs - 1 - k"] by (simp add: bit_be_val)
  qed (use Suc.prems in \<open>auto simp: bit_be_val\<close>)
  show ?case unfolding step b using Suc by auto
qed (simp add: set_host_bits_def)

section \<open>Ranges of numbers\<close>

lemma be_val_mask:
  assumes "n \<le> 8 * length bs"
  shows "be_val (mask_bytes n bs) = push_bit (8 * length bs - n) (drop_bit (8 * length bs - n) (be_val bs))"
  by (rule bit_eqI) (auto simp: bit_mask_bytes [OF assms] bit_push_bit_iff bit_drop_bit_eq)

lemma be_val_host_bits:
  assumes "n \<le> 8 * length bs"
  shows "be_val (set_host_bits (length bs - 1) (8 * length bs - n) (mask_bytes n bs))
    = be_val (mask_bytes n bs) + (2 ^ (8 * length bs - n) - 1)"
proof -
  let ?h = "8 * length bs - n" and ?m = "mask_bytes n bs"
  have "be_val (set_host_bits (length ?m - 1) ?h ?m) = be_val ?m OR mask ?h"
    by (rule bit_eqI, subst bit_set_host_bits) (auto simp: bit_or_iff bit_mask_iff)
  also have "\<dots> = be_val ?m + mask ?h"
    by (rule disjunctive_add_eq_or [symmetric]) (auto simp: bit_eq_iff bit_and_iff bit_mask_iff bit_mask_bytes [OF assms])
  finally show ?thesis by (simp add: mask_eq_exp_minus_1)
qed

text \<open>\<open>bytes.Compare\<close> on byte strings of one length is the order of the numbers.\<close>

lemma le_be_val: "length xs = length ys \<Longrightarrow> xs \<le> ys \<longleftrightarrow> be_val xs \<le> be_val ys"
proof (induction xs ys rule: list_induct2)
  case (Cons x xs y ys)
  have b: "be_val xs < 256 ^ length ys" "be_val ys < 256 ^ length ys"
    using be_val_bound [of xs] be_val_bound [of ys] Cons.hyps by simp_all
  have lt: "unat u * 256 ^ l + v < unat u' * 256 ^ l + v'" if "u < u'" "v < 256 ^ l" for u u' :: byte and v v' l
  proof -
    have "unat u + 1 \<le> unat u'" using that(1) by (simp add: word_less_nat_alt)
    then have "(unat u + 1) * 256 ^ l \<le> unat u' * 256 ^ l" by (rule mult_le_mono1)
    then show ?thesis using that(2) by simp
  qed
  consider "x < y" | "x = y" | "y < x" by (rule linorder_cases)
  then show ?case
  proof cases
    case 1
    then show ?thesis using lt [OF 1 b(1), of "be_val ys"] Cons.hyps by (simp add: be_val_Cons)
  next
    case 2
    then show ?thesis using Cons by (simp add: be_val_Cons)
  next
    case 3
    then show ?thesis using lt [OF 3 b(2), of "be_val xs"] Cons.hyps by (auto simp: be_val_Cons)
  qed
qed simp

lemma in_block:
  fixes q v m :: nat
  assumes "0 < m"
  shows "m * q \<le> v \<and> v \<le> m * q + (m - 1) \<longleftrightarrow> v div m = q"
proof
  assume "m * q \<le> v \<and> v \<le> m * q + (m - 1)"
  then show "v div m = q" using assms by (intro div_nat_eqI) auto
next
  assume "v div m = q"
  then have "v = m * q + v mod m" by auto
  moreover have "v mod m < m" using assms by simp
  ultimately show "m * q \<le> v \<and> v \<le> m * q + (m - 1)" by linarith
qed

lemma mask_range:
  assumes "n \<le> 8 * length bs" "length x = length bs"
  shows "mask_bytes n bs \<le> x \<and> x \<le> set_host_bits (length bs - 1) (8 * length bs - n) (mask_bytes n bs)
    \<longleftrightarrow> mask_bytes n x = mask_bytes n bs"
proof -
  let ?h = "8 * length bs - n"
  have inj: "mask_bytes n x = mask_bytes n bs \<longleftrightarrow> be_val (mask_bytes n x) = be_val (mask_bytes n bs)"
    using le_be_val [of "mask_bytes n x" "mask_bytes n bs"] le_be_val [of "mask_bytes n bs" "mask_bytes n x"] assms(2)
    by (auto intro: antisym)
  have lo: "mask_bytes n bs \<le> x \<longleftrightarrow> be_val (mask_bytes n bs) \<le> be_val x"
    and hi: "x \<le> set_host_bits (length bs - 1) ?h (mask_bytes n bs)
      \<longleftrightarrow> be_val x \<le> be_val (set_host_bits (length bs - 1) ?h (mask_bytes n bs))"
    using assms(2) by (simp_all add: le_be_val)
  have m: "be_val (mask_bytes n bs) = 2 ^ ?h * (be_val bs div 2 ^ ?h)" "be_val (mask_bytes n x) = 2 ^ ?h * (be_val x div 2 ^ ?h)"
    using assms by (simp_all add: be_val_mask push_bit_eq_mult drop_bit_eq_div)
  show ?thesis
    unfolding inj lo hi be_val_host_bits [OF assms(1)] m using in_block [of "2 ^ ?h" "be_val bs div 2 ^ ?h" "be_val x"] by simp
qed

section \<open>Properties\<close>

text \<open>The bytes of an address, and addresses that Go can build: those of \<open>netip\<close> have 4 or 16 bytes.\<close>

definition addr_bytes :: "addr \<Rightarrow> bytes" where
  "addr_bytes a = (case a of Addr4 b \<Rightarrow> b | Addr6 ip zone \<Rightarrow> ip)"

definition valid_addr :: "addr \<Rightarrow> bool" where
  "valid_addr a \<longleftrightarrow> length (addr_bytes a) = (case a of Addr4 b \<Rightarrow> 4 | Addr6 ip zone \<Rightarrow> 16)"

lemma addr4_le: "length b = 4 \<Longrightarrow> length c = 4 \<Longrightarrow> addr4 b \<le> addr4 c \<longleftrightarrow> b \<le> c"
proof -
  assume l: "length b = 4" "length c = 4"
  have "be_val (bs @ replicate n 0) = be_val bs * 256 ^ n" for bs n
    by (induction n) (simp_all add: replicate_append_same [symmetric] be_val_append flip: append_assoc)
  then show ?thesis using l by (simp add: addr4_def le_be_val)
qed

lemma set_host_bits_addr4:
  assumes "length b = 4" "n \<le> 32"
  shows "set_host_bits 3 n (addr4 b) = addr4 (set_host_bits 3 n b)"
  using assms(2)
proof (induction n)
  case (Suc n)
  have s: "set_host_bits 3 (Suc n) e = (set_host_bits 3 n e)[3 - n div 8 := set_host_bits 3 n e ! (3 - n div 8) OR push_bit (n mod 8) 1]" for e
    by (simp add: set_host_bits_def)
  have "3 - n div 8 < 4" by simp
  then show ?case
    using Suc assms(1) unfolding s by (simp add: addr4_def nth_append list_update_append)
qed (simp add: set_host_bits_def)

text \<open>C35: The range of a prefix is the prefix. For a prefix that is not one of IPv4-mapped addresses, an
  address of its family lies between the two ends, compared as the lookup compares stored
  addresses, exactly if it has the prefix's leading bits. (The ends of an IPv4-mapped prefix
  coincide: see \<open>mapped_prefix_range\<close>.)\<close>

theorem prefixRange_exact:
  assumes "valid_addr a" "valid_addr x" and "n \<le> 8 * length (addr_bytes a)"
    and "Unmap (mask_addr n a) = mask_addr n a" and "Unmap x = x" and "fst (addrBytes x) = fst (addrBytes (mask_addr n a))"
  shows "case prefixRange (Some (a, n)) of (family, start, end) \<Rightarrow> family = fst (addrBytes x)
     \<and> (start \<le> snd (addrBytes x) \<and> snd (addrBytes x) \<le> end
         \<longleftrightarrow> mask_bytes n (addr_bytes x) = mask_bytes n (addr_bytes a))"
proof (cases a)
  case (Addr4 b)
  then obtain c where x: "x = Addr4 c"
    using assms(5,6) by (cases x) (auto simp: addrBytes_def Unmap_def mask_addr_def split: if_splits)
  have l: "length b = 4" "length c = 4" using assms(1,2) by (simp_all add: Addr4 x valid_addr_def addr_bytes_def)
  have n: "n \<le> 8 * length b" using assms(3) by (simp add: Addr4 addr_bytes_def)
  show ?thesis
    using mask_range [OF n, of c] l n
    by (simp add: prefixRange_def Masked_def mask_addr_def Addr4 x Unmap_def addrBytes_def addr_bytes_def
        set_host_bits_addr4 addr4_le flip: addr4_def)
next
  case (Addr6 b z)
  have m: "\<not> is_v4 (mask_bytes n b)" using assms(4) by (auto simp: Addr6 mask_addr_def Unmap_def split: if_splits)
  then obtain c y where x: "x = Addr6 c y" "\<not> is_v4 c"
    using assms(5,6) by (cases x) (auto simp: Addr6 addrBytes_def Unmap_def mask_addr_def split: if_splits)
  have l: "length b = 16" "length c = 16" using assms(1,2) by (simp_all add: Addr6 x valid_addr_def addr_bytes_def)
  have n: "n \<le> 8 * length b" using assms(3) by (simp add: Addr6 addr_bytes_def)
  show ?thesis
    using mask_range [OF n, of c] l m x(2)
    by (simp add: prefixRange_def Masked_def mask_addr_def Addr6 x(1) Unmap_def addrBytes_def addr_bytes_def)
qed

theorem prefixRange_exact_witness:
  "case prefixRange (Some (Addr4 [192, 0, 2, 77], 24)) of (family, start, end) \<Rightarrow>
     start \<le> snd (addrBytes (Addr4 [192, 0, 2, 9])) \<and> snd (addrBytes (Addr4 [192, 0, 2, 9])) \<le> end"
proof -
  have "valid_addr (Addr4 [192, 0, 2, 77])" "valid_addr (Addr4 [192, 0, 2, 9])"
    "24 \<le> 8 * length (addr_bytes (Addr4 [192, 0, 2, 77]))"
    "Unmap (mask_addr 24 (Addr4 [192, 0, 2, 77])) = mask_addr 24 (Addr4 [192, 0, 2, 77])"
    "Unmap (Addr4 [192, 0, 2, 9]) = Addr4 [192, 0, 2, 9]"
    "fst (addrBytes (Addr4 [192, 0, 2, 9])) = fst (addrBytes (mask_addr 24 (Addr4 [192, 0, 2, 77])))"
    by (simp_all add: valid_addr_def addr_bytes_def mask_addr_def Unmap_def addrBytes_def)
  note e = prefixRange_exact [OF this]
  have "mask_bytes 24 (addr_bytes (Addr4 [192, 0, 2, 9])) = mask_bytes 24 (addr_bytes (Addr4 [192, 0, 2, 77]))"
    by code_simp
  then show ?thesis using e by (auto split: prod.splits)
qed

text \<open>The number of host bits is taken from 32 there, although the prefix length counts 128: it is never
  positive.\<close>

lemma mapped_prefix_range:
  "prefixRange (Some (Addr6 (replicate 10 0 @ [255, 255, 192, 0, 2, 0]) [], 120))
    = (4, addr4 [192, 0, 2, 0], addr4 [192, 0, 2, 0])"
  by code_simp

end
