(* ===== verification/Powcli.thy ===== *)
theory Powcli
  imports Cookies Crypt
begin

text \<open>
  The command line client of the integration and performance tests, \<^verbatim>\<open>src/test/tools/powcli/main.go\<close>: it
  searches for a nonce, checks it with the secret, prints the solution, and mints clearances of any
  lifetime.

  \<^item> The search is an endless loop with two exits, so \<open>solvePoW\<close> may not return: \<open>None\<close> then.
  \<^item> \<open>fail\<close> prints an error and exits; a command returns the error instead (\<open>Inl\<close>) or its output.
  \<^item> The client's copies of \<open>hasLeadingZeroBits\<close>, of the payload type and of the hash of a challenge and a
    nonce have the text of \<^verbatim>\<open>crypt.go\<close> and are the definitions of \<open>Crypt\<close>.
\<close>

section \<open>Definitions\<close>

datatype powcli_err =
    DecodeChallenge | ParseChallenge | NotSolved uint64 uint64
  | ChallengeExpired | BadSignatureText | BadSignature | BadPoW
  | SecretTooShort | MissingArguments | VerifyFailed powcli_err | NoRandom

text \<open>The search, from a nonce; the result is a nonce, or \<open>None\<close> after \<open>maxNonce\<close>.\<close>

partial_function (option) solve_loop :: "bytes \<Rightarrow> uint64 \<Rightarrow> uint64 \<Rightarrow> uint64 \<Rightarrow> uint64 option option" where
  "solve_loop raw diff maxNonce nonce =
     (if hasLeadingZeroBits (pow_hash raw nonce) diff then Some (Some nonce)
      else if nonce + 1 > maxNonce then Some None
      else solve_loop raw diff maxNonce (nonce + 1))"

definition solvePoW :: "string \<Rightarrow> uint64 \<Rightarrow> (powcli_err + uint64) option" where
  "solvePoW challengeB64 maxNonce =
     (case b64_decode challengeB64 of
        None \<Rightarrow> Some (Inl DecodeChallenge)
      | Some raw \<Rightarrow>
          (case ChallengePayload_Unmarshal (string_of raw) of
             None \<Rightarrow> Some (Inl ParseChallenge)
           | Some payload \<Rightarrow>
               let diff = Difficulty payload
               in case solve_loop raw diff maxNonce 0 of
                    None \<Rightarrow> None
                  | Some (Some nonce) \<Rightarrow> Some (Inr nonce)
                  | Some None \<Rightarrow> Some (Inl (NotSolved diff maxNonce))))"

definition powcli_verifySolution ::
  "int64 \<Rightarrow> bytes \<Rightarrow> string \<Rightarrow> string \<Rightarrow> uint64 \<Rightarrow> powcli_err option" where
  "powcli_verifySolution now secret challenge signature nonce =
     (case b64_decode challenge of
        None \<Rightarrow> Some DecodeChallenge
      | Some chBytes \<Rightarrow>
          (case ChallengePayload_Unmarshal (string_of chBytes) of
             None \<Rightarrow> Some ParseChallenge
           | Some payload \<Rightarrow>
               if Expiry payload <s now then Some ChallengeExpired
               else
                 let expectedSig = mac_Sum (mac_Write (bytes_of challenge) (hmac_New secret)) []
                 in case b64_decode signature of
                      None \<Rightarrow> Some BadSignatureText
                    | Some sigBytes \<Rightarrow>
                        if ConstantTimeCompare expectedSig sigBytes \<noteq> 1 then Some BadSignature
                        else if \<not> hasLeadingZeroBits (pow_hash chBytes nonce) (Difficulty payload) then Some BadPoW
                        else None))"

text \<open>What is printed: the JSON object (the keys of a map in order) and the line of cookies.\<close>

definition printSolution :: "string \<Rightarrow> string \<Rightarrow> uint64 \<Rightarrow> string \<times> string" where
  "printSolution challenge signature nonce =
     (json_object [(''c'', json_quote challenge), (''n'', FormatUint nonce), (''s'', json_quote signature)],
      ''challenge='' @ challenge @ ''; challenge-sig='' @ signature @ ''; challenge-nonce='' @ FormatUint nonce)"

text \<open>What \<open>cmdSolve\<close> and \<open>cmdSolveCookies\<close> do with a challenge and its signature.\<close>

definition solve_and_print ::
  "int64 \<Rightarrow> bytes \<Rightarrow> string \<Rightarrow> string \<Rightarrow> uint64 \<Rightarrow> (powcli_err + string \<times> string) option" where
  "solve_and_print now secret challenge signature maxNonce =
     (case solvePoW challenge maxNonce of
        None \<Rightarrow> None
      | Some (Inl err) \<Rightarrow> Some (Inl err)
      | Some (Inr nonce) \<Rightarrow>
          (case powcli_verifySolution now secret challenge signature nonce of
             Some err \<Rightarrow> Some (Inl (VerifyFailed err))
           | None \<Rightarrow> Some (Inr (printSolution challenge signature nonce))))"

definition cmdSolve ::
  "int64 \<Rightarrow> string \<Rightarrow> string \<Rightarrow> string \<Rightarrow> uint64 \<Rightarrow> (powcli_err + string \<times> string) option" where
  "cmdSolve now secret challenge signature maxNonce =
     (if length secret < MinSecretLen then Some (Inl SecretTooShort)
      else if challenge = [] \<or> signature = [] then Some (Inl MissingArguments)
      else solve_and_print now (bytes_of secret) challenge signature maxNonce)"

text \<open>The client's \<open>getCookie\<close>: a loop over the two texts that may come before a name.\<close>

fun search_cookie :: "string \<Rightarrow> string list \<Rightarrow> string" where
  "search_cookie cookieHeader [] = []"
| "search_cookie cookieHeader (search # searches) =
     (case Index cookieHeader search of
        Some idx \<Rightarrow> cookie_value_at cookieHeader (idx + length search)
      | None \<Rightarrow> search_cookie cookieHeader searches)"

definition powcli_getCookie :: "string \<Rightarrow> string \<Rightarrow> string" where
  "powcli_getCookie cookieHeader name =
     (if cookieHeader = [] then []
      else
        let prefix = name @ ''='' in
        if HasPrefix cookieHeader prefix then cookie_value_at cookieHeader (length prefix)
        else search_cookie cookieHeader [''; '' @ prefix, '';'' @ prefix])"

definition cmdSolveCookies ::
  "int64 \<Rightarrow> string \<Rightarrow> string \<Rightarrow> uint64 \<Rightarrow> (powcli_err + string \<times> string) option" where
  "cmdSolveCookies now secret cookie maxNonce =
     (if length secret < MinSecretLen then Some (Inl SecretTooShort)
      else if cookie = [] then Some (Inl MissingArguments)
      else
        let c = powcli_getCookie cookie ''challenge'';
            s = powcli_getCookie cookie ''challenge-sig''
        in if c = [] \<or> s = [] then Some (Inl MissingArguments)
           else solve_and_print now (bytes_of secret) c s maxNonce)"

text \<open>A clearance of any lifetime. The clock is in nanoseconds here, as the lifetime is;
  \<open>time.Now().Add(lifetime).Unix()\<close> rounds down to seconds.\<close>

definition powcli_generateClearance ::
  "int \<Rightarrow> (nat \<Rightarrow> bytes option) \<Rightarrow> bytes \<Rightarrow> string \<Rightarrow> int64 \<Rightarrow> powcli_err + string" where
  "powcli_generateClearance nanos rnd secret ctx lifetime =
     (case rnd 16 of
        None \<Rightarrow> Inl NoRandom
      | Some salt \<Rightarrow>
          let exp = word_of_int ((nanos + sint lifetime) div 1000000000);
              raw = PutUint64_BE exp @ take 16 (salt @ replicate 16 0) @ bytes_of ctx;
              body = b64_encode raw;
              sig = b64_encode (mac_Sum (mac_Write (bytes_of body) (hmac_New secret)) [])
          in Inr (body @ ''.'' @ sig))"

definition cmdMintClearance ::
  "int \<Rightarrow> (nat \<Rightarrow> bytes option) \<Rightarrow> string \<Rightarrow> string \<Rightarrow> int64 \<Rightarrow> powcli_err + string" where
  "cmdMintClearance nanos rnd secret ip expiresIn =
     (if length secret < MinSecretLen then Inl SecretTooShort
      else powcli_generateClearance nanos rnd (bytes_of secret) ip expiresIn)"

section \<open>The search\<close>

lemma unat_next: "nonce < g \<Longrightarrow> unat (nonce + 1) = Suc (unat nonce)" for nonce g :: uint64
  using unsigned_less [of g, where ?'a = nat] by (simp add: unat_word_ariths word_less_nat_alt)

lemma solve_loop_finds:
  assumes "hasLeadingZeroBits (pow_hash raw g) diff" "nonce \<le> g" "g \<le> maxNonce"
  shows "\<exists>n. solve_loop raw diff maxNonce nonce = Some (Some n) \<and> hasLeadingZeroBits (pow_hash raw n) diff
    \<and> nonce \<le> n \<and> n \<le> g \<and> (\<forall>m. nonce \<le> m \<and> m < n \<longrightarrow> \<not> hasLeadingZeroBits (pow_hash raw m) diff)"
  using assms(2)
proof (induction "unat g - unat nonce" arbitrary: nonce)
  case 0
  then have "nonce = g" by (simp add: word_le_nat_alt word_unat_eq_iff)
  then show ?case using assms(1) by (subst solve_loop.simps) auto
next
  case (Suc k)
  show ?case
  proof (cases "hasLeadingZeroBits (pow_hash raw nonce) diff")
    case True
    then show ?thesis using Suc.prems by (subst solve_loop.simps) auto
  next
    case False
    have lt: "unat nonce < unat g" using Suc.hyps(2) by linarith
    then have s: "unat (nonce + 1) = Suc (unat nonce)" using unat_next [of nonce g] by (simp add: word_less_nat_alt)
    then have le: "nonce + 1 \<le> g" using lt by (simp add: word_le_nat_alt)
    have k: "k = unat g - unat (nonce + 1)" using Suc.hyps(2) s by simp
    obtain n where n: "solve_loop raw diff maxNonce (nonce + 1) = Some (Some n)" "hasLeadingZeroBits (pow_hash raw n) diff"
      "nonce + 1 \<le> n" "n \<le> g" "\<forall>m. nonce + 1 \<le> m \<and> m < n \<longrightarrow> \<not> hasLeadingZeroBits (pow_hash raw m) diff"
      using Suc.hyps(1) [OF k le] by blast
    have "nonce + 1 \<le> maxNonce" using le assms(3) by (rule order.trans)
    then have "solve_loop raw diff maxNonce nonce = Some (Some n)"
      using False n(1) by (subst solve_loop.simps) (simp add: not_less)
    moreover have "nonce \<le> n" using n(3) s by (simp add: word_le_nat_alt)
    moreover have "nonce + 1 \<le> m \<or> m = nonce" if "nonce \<le> m" for m
      using that s by (auto simp: word_le_nat_alt word_unat_eq_iff)
    ultimately show ?thesis using n(2,4,5) False by blast
  qed
qed

lemma solve_loop_gives_up:
  assumes "\<And>m. nonce \<le> m \<Longrightarrow> m \<le> maxNonce \<Longrightarrow> \<not> hasLeadingZeroBits (pow_hash raw m) diff"
    and "maxNonce \<noteq> - 1" and "nonce \<le> maxNonce"
  shows "solve_loop raw diff maxNonce nonce = Some None"
  using assms(1,3)
proof (induction "unat maxNonce - unat nonce" arbitrary: nonce)
  case 0
  then have "nonce = maxNonce" by (simp add: word_le_nat_alt word_unat_eq_iff)
  moreover have "maxNonce < maxNonce + 1"
  proof -
    have "1 + maxNonce \<noteq> 0" using assms(2) by (metis add_eq_0_iff)
    then show ?thesis by (simp add: word_less_nat_alt unatSuc add.commute [of maxNonce])
  qed
  ultimately show ?case using "0.prems" by (subst solve_loop.simps) auto
next
  case (Suc k)
  have "\<not> hasLeadingZeroBits (pow_hash raw nonce) diff" using Suc.prems by blast
  moreover have "solve_loop raw diff maxNonce (nonce + 1) = Some None" if "nonce + 1 \<le> maxNonce"
  proof (rule Suc.hyps(1) [OF _ _ that])
    have s: "unat (nonce + 1) = Suc (unat nonce)"
      using unat_next [of nonce maxNonce] Suc.hyps(2) by (simp add: word_less_nat_alt)
    then show "k = unat maxNonce - unat (nonce + 1)" using Suc.hyps(2) by simp
    show "\<not> hasLeadingZeroBits (pow_hash raw m) diff" if "nonce + 1 \<le> m" "m \<le> maxNonce" for m
      using Suc.prems(1) that s by (simp add: word_le_nat_alt)
  qed
  ultimately show ?case by (subst solve_loop.simps) (auto simp: not_less)
qed

text \<open>Without a bound below the greatest word the counter wraps, and nothing ends the loop.\<close>

lemma solve_loop_diverges:
  assumes "\<And>m. \<not> hasLeadingZeroBits (pow_hash raw m) diff"
  shows "solve_loop raw diff (- 1) nonce = None"
proof (rule ccontr)
  assume "solve_loop raw diff (- 1) nonce \<noteq> None"
  then obtain r where "solve_loop raw diff (- 1) nonce = Some r" by blast
  then show False
    by (rule solve_loop.raw_induct [where P = "\<lambda>raw' diff' maxN n r. \<not> (raw' = raw \<and> diff' = diff \<and> maxN = - 1)",
        THEN notE, rotated]) (use assms in \<open>auto split: if_splits\<close>)
qed

section \<open>Agreement with the plugin\<close>

lemma powcli_getCookie_eq: "powcli_getCookie = getCookie"
  by (intro ext) (simp add: powcli_getCookie_def getCookie_def Let_def cong: option.case_cong)

lemma client_sum: "mac_Sum (mac_Write d (hmac_New k)) [] = hmac_sha256 k d"
  by (simp add: mac_Sum_def mac_Write_def hmac_New_def)

text \<open>The client's check is the plugin's, but for the client's identity.\<close>

lemma powcli_verify_None:
  "powcli_verifySolution now k c s n = None \<longleftrightarrow>
     (\<exists>raw pl. b64_decode c = Some raw \<and> ChallengePayload_Unmarshal (string_of raw) = Some pl
        \<and> \<not> Expiry pl <s now \<and> b64_decode s = Some (hmac_sha256 k (bytes_of c))
        \<and> hasLeadingZeroBits (pow_hash raw n) (Difficulty pl))"
  by (auto simp: powcli_verifySolution_def client_sum Let_def split: option.split)

lemma printSolution_token:
  assumes "json_plain c" "json_plain s"
  shows "Solution_Unmarshal (fst (printSolution c s n)) = Some \<lparr>Challenge = c, Signature = s, Nonce = n\<rparr>"
proof -
  have "json_parse (json_object [(''c'', json_quote c), (''n'', FormatUint n), (''s'', json_quote s)])
      = Some (JObj (zip (map fst [(''c'', json_quote c), (''n'', FormatUint n), (''s'', json_quote s)])
          [JStr c, JNum (FormatUint n), JStr s]))"
    using assms by (intro json_parse_object)
      (simp_all add: json_text_quote json_text_FormatUint json_plain_char_def char_code_def)
  then show ?thesis
    by (simp add: printSolution_def Solution_Unmarshal_def json_Unmarshal_def field_of_def set_string_def set_uint64_def
        Solution.defs SignedChallenge.defs)
qed

lemma printSolution_line:
  "snd (printSolution c s n) = render_cookies [(''challenge'', c), (''challenge-sig'', s), (''challenge-nonce'', FormatUint n)]"
  by (simp add: printSolution_def)

lemma solvePoW_solves:
  assumes "solvePoW c maxNonce = Some (Inr n)"
  shows "\<exists>raw pl. b64_decode c = Some raw \<and> ChallengePayload_Unmarshal (string_of raw) = Some pl
    \<and> hasLeadingZeroBits (pow_hash raw n) (Difficulty pl)"
proof -
  obtain raw pl where r: "b64_decode c = Some raw" "ChallengePayload_Unmarshal (string_of raw) = Some pl"
    and l: "solve_loop raw (Difficulty pl) maxNonce 0 = Some (Some n)"
    using assms by (auto simp: solvePoW_def Let_def split: option.splits)
  have "hasLeadingZeroBits (pow_hash raw n) (Difficulty pl)"
    by (rule solve_loop.raw_induct [where P = "\<lambda>raw diff maxN m r. \<forall>n. r = Some n \<longrightarrow> hasLeadingZeroBits (pow_hash raw n) diff",
        OF _ l, rule_format]) (auto split: if_splits)
  then show ?thesis using r by blast
qed

section \<open>Properties\<close>

text \<open>C21: What the client's search returns, and when it does not return. For a challenge that decodes it
  returns the least nonce up to the bound, inclusive, that solves the challenge, if there is one; otherwise it
  reports so, unless the bound is the greatest 64-bit number: then the counter wraps and the search
  goes on for ever.\<close>

theorem solvePoW_result:
  "solvePoW c maxNonce =
     (case b64_decode c of
        None \<Rightarrow> Some (Inl DecodeChallenge)
      | Some raw \<Rightarrow>
          (case ChallengePayload_Unmarshal (string_of raw) of
             None \<Rightarrow> Some (Inl ParseChallenge)
           | Some pl \<Rightarrow>
               let solving = {n. n \<le> maxNonce \<and> hasLeadingZeroBits (pow_hash raw n) (Difficulty pl)}
               in if solving \<noteq> {} then Some (Inr (Min solving))
                  else if maxNonce = - 1 then None
                  else Some (Inl (NotSolved (Difficulty pl) maxNonce))))"
proof -
  have "(case solve_loop raw d maxNonce 0 of None \<Rightarrow> None | Some (Some n) \<Rightarrow> Some (Inr n)
       | Some None \<Rightarrow> Some (Inl (NotSolved d maxNonce))) =
     (let solving = {n. n \<le> maxNonce \<and> hasLeadingZeroBits (pow_hash raw n) d}
      in if solving \<noteq> {} then Some (Inr (Min solving)) else if maxNonce = - 1 then None
         else Some (Inl (NotSolved d maxNonce)))" for raw d
  proof (cases "\<exists>g. g \<le> maxNonce \<and> hasLeadingZeroBits (pow_hash raw g) d")
    case True
    then obtain g where g: "g \<le> maxNonce" "hasLeadingZeroBits (pow_hash raw g) d" by blast
    obtain n where n: "solve_loop raw d maxNonce 0 = Some (Some n)" "hasLeadingZeroBits (pow_hash raw n) d" "n \<le> g"
      "\<forall>m. 0 \<le> m \<and> m < n \<longrightarrow> \<not> hasLeadingZeroBits (pow_hash raw m) d"
      using solve_loop_finds [OF g(2) _ g(1), of 0] by auto
    let ?S = "{n. n \<le> maxNonce \<and> hasLeadingZeroBits (pow_hash raw n) d}"
    have "Min ?S = n"
    proof (rule Min_eqI)
      show "n \<in> ?S" using n g by (auto intro: order.trans)
      show "n \<le> y" if "y \<in> ?S" for y using that n(4) by (auto simp: not_less [symmetric])
    qed simp
    then show ?thesis using n(1) True by (auto simp: Let_def)
  next
    case False
    then show ?thesis
      using solve_loop_gives_up [of 0 maxNonce raw d] solve_loop_diverges [of raw d 0] by (auto simp: Let_def)
  qed
  then show ?thesis by (simp add: solvePoW_def Let_def cong: option.case_cong)
qed

text \<open>The client accepts what the plugin accepts. Any solution that the plugin accepts from some client
  passes the client's own check with the same secret and time, and a solution that passes it is
  accepted by the plugin from some client.\<close>

lemma powcli_verify_agrees:
  "(\<exists>client. snd (verifySolutionMAC now \<lparr>hmac_secret = k, hmac_written = w\<rparr> [] sol client) = None) =
     (powcli_verifySolution now k (Challenge sol) (Signature sol) (Nonce sol) = None)"
proof -
  have c: "Challenge sol \<noteq> []" if "b64_decode (Challenge sol) = Some raw" "ChallengePayload_Unmarshal (string_of raw) = Some pl"
    for raw pl using that by (auto simp: ChallengePayload_Unmarshal_def json_Unmarshal_def json_parse_def json_fuel_def)
  have s: "Signature sol \<noteq> []" if "b64_decode (Signature sol) = Some (hmac_sha256 k m)" for m
    using that hmac_nonempty [of k m] by (auto dest: sym)
  have "snd (verifySolutionMAC now \<lparr>hmac_secret = k, hmac_written = w\<rparr> [] sol client) = None \<longleftrightarrow>
     (\<exists>raw pl. b64_decode (Challenge sol) = Some raw \<and> ChallengePayload_Unmarshal (string_of raw) = Some pl
        \<and> \<not> Expiry pl <s now \<and> b64_decode (Signature sol) = Some (hmac_sha256 k (bytes_of (Challenge sol)))
        \<and> hasLeadingZeroBits (pow_hash raw (Nonce sol)) (Difficulty pl)
        \<and> matchChallengeContext (Context pl) (CtxConnID pl) client = None)" for client
    using c s by (auto simp: verifySolutionMAC_eq split: option.split)
  moreover have "matchChallengeContext ip cid \<lparr>IP = ip, ConnID = []\<rparr> = None" for ip cid
    by (simp add: matchChallengeContext_None)
  ultimately show ?thesis unfolding powcli_verify_None by blast
qed

text \<open>The clearance the client mints is one of the plugin's, with the signed expiry the clock plus the
  lifetime in whole seconds: at a whole second and with thirty minutes it is the very token that
  \<open>GenerateClearance\<close> mints with the same salt.\<close>

lemma powcli_clearance_is_minted:
  "powcli_generateClearance (sint now * 1000000000) rnd k ip 1800000000000
     = (case GenerateClearance now rnd k ip of Inl e \<Rightarrow> Inl NoRandom | Inr token \<Rightarrow> Inr token)"
proof -
  have "sint (1800000000000 :: int64) = 1800000000000" by simp
  then have "(sint now * 1000000000 + sint (1800000000000 :: int64)) div 1000000000 = sint now + 1800" by simp
  then have "word_of_int ((sint now * 1000000000 + sint (1800000000000 :: int64)) div 1000000000) = now + ClearanceLifetime"
    by (simp add: ClearanceLifetime_def)
  then show ?thesis
    by (simp only: powcli_generateClearance_def GenerateClearance_def generate_sum_tag client_sum)
      (simp add: encodeClearanceBody_def crypt_constants hmac_New_def Let_def split: option.split)
qed

end
