(* ===== verification/Spec2Isabelle.thy ===== *)
theory Spec2Isabelle
  imports Gate_Refinement Traffic Handler_Safety Ipintel_File Ipintel_Prefix Powcli Challenge_Page
begin

text \<open>
  \<^bold>\<open>A verification library for pow-proxy-wasm.\<close>

  The program is a Wasm plugin for the Envoy proxy. A request to a protected resource continues only
  with a proof: a clearance token, or the solution of a proof-of-work challenge. A request without one
  is answered with status 403, a page that solves the challenge in the browser, and a signed
  challenge in its cookies. A solution earns a clearance, bound to the client's address. The plugin
  can restrict itself to some hosts and paths, adapts the difficulty of its challenges to traffic,
  and can let pass or slow down addresses by an embedded database of IP intelligence.

  \<^bold>\<open>Theories.\<close> The names of definitions are those of the code; a part of a longer function has a
  name of its own.

  \<^item> \<open>Prelude\<close>, \<open>Go_Strings\<close>, \<open>Go_Encoding\<close>, \<open>Go_Json\<close>, \<open>Sha256\<close>, \<open>Go_Net\<close>, \<open>Go_Float\<close>: what the code uses of Go's
    standard library, executable: strings and numbers, base64 and byte orders, JSON, SHA-256 and the
    HMAC object with its buffer, the parsing and printing of addresses, and \<open>float64\<close> with its roundings.
  \<^item> \<open>Crypt\<close>: \<^verbatim>\<open>src/crypt.go\<close>. Challenges, solutions, clearance tokens and the window of renewal.
    \<open>verifySolution_accepts_iff\<close> and \<open>parse_clearance_iff\<close> say exactly what is accepted, the round
    trips that what was issued is; \<open>hasLeadingZeroBits_target\<close> is the meaning of the bit loop.
  \<^item> \<open>Cookies\<close>, \<open>Client_Identity\<close>: the cookie functions and the resolution of a client's address,
    connection and scheme in \<^verbatim>\<open>src/main.go\<close>.
  \<^item> \<open>Gjson\<close>, \<open>Protected\<close>: \<^verbatim>\<open>src/protected.go\<close> over an abstract gjson. The matcher is shown to decide the
    declarative meaning of the rules, and the compiled rules to protect what the well-formed entries of
    the configuration cover, or everything when there is none.
  \<^item> \<open>Ipintel_Format\<close>, \<open>Ipintel_Prefix\<close>, \<open>Ipintel_Score\<close>, \<open>Ipintel_Lookup\<close>: \<^verbatim>\<open>src/ipintelbin\<close>. The file
    format with every error, the range of a prefix, the score, and the lookup. \<open>Lookup_answer\<close> gives the
    whole answer as a function of the records that contain the address, so the index and the removal
    of duplicates lose nothing; a prefix's range is the prefix. \<open>Ipintel_File\<close> writes a file in the
    format (the repository has only the reader) and shows that lookups answer for what is in it.
  \<^item> \<open>Ipintel\<close>: \<^verbatim>\<open>src/ipintel.go\<close>, the configuration and the decision of the gate. \<open>Ipintel_Gate\<close> follows the
    records of the database through lookup, score and decision to the request callback, and says when a
    request takes its VM down.
  \<^item> \<open>Plugin_State\<close>, \<open>Difficulty\<close>, \<open>Plugin\<close>: the state of \<^verbatim>\<open>src/main.go\<close>, its dynamic difficulty, and the
    callbacks \<open>OnPluginStart\<close>, \<open>OnHttpRequestHeaders\<close>, \<open>OnHttpResponseHeaders\<close>, \<open>OnHttpStreamDone\<close> and
    \<open>OnTick\<close>. A callback takes the state and returns it updated, with what it asks of the proxy. The
    sources of a difficulty are ordered by priority, and the difficulty is the best offer of one.
  \<^item> \<open>Admission\<close>: the request callback as a case distinction on the proofs a request carries, and the
    properties of a single callback.
  \<^item> \<open>Gateway_Run\<close>: several VMs and their streams under any interleaving of callbacks, as a step
    relation with its runs; the invariant of the state, and that a clearance is only ever added for
    a proof.
  \<^item> \<open>Traffic\<close>: the dynamic difficulty over a run: the counter of a VM is the number of its refusals since
    its last tick or start, and a refusal carries the difficulty that the last tick computed.
  \<^item> \<open>Challenge_Page\<close>: the script of \<^verbatim>\<open>src/challenge.html\<close>, from the cookies it reads to the nonce it adds.
    \<open>hasZ_agrees\<close> compares its test of bits with the plugin's; the search itself stops after 80 million
    nonces, whatever the difficulty.
  \<^item> \<open>Handler_Safety\<close>: facts about the handlers for every input. A request with a valid clearance is
    judged by its authority, path, cookies and source of address alone, and no input can inject a
    header or an attribute into a response.
  \<^item> \<open>Returned\<close>: a request that brings back a challenge with a nonce, or a clearance, in its cookies.
  \<^item> \<open>Agreement\<close>: what a run's messages mean together. If no client presents a tag that the run has not
    made (\<open>unforgeable\<close>), every admitted client with a known address has been given a challenge and
    solved it, however often its clearance was renewed since. The proof also shows where the two
    kinds of token can be confused: only for a client without an address.
  \<^item> \<open>Gate_Spec\<close>, \<open>Gate_Refinement\<close>: the abstract gate, which remembers the addresses it has given
    challenges and clearances, and when, and admits only in time for one of them; and the simulation
    that makes each run one of the gate's, event by event. \<open>gate_admits_challenged\<close> is what the gate
    guarantees: no address gets in that was not given a challenge.
  \<^item> \<open>Solved_Sample\<close>, \<open>Sample_Run\<close>: a challenge whose solution is evaluated in the kernel, SHA-256
    included, and a run in which a client is refused, solves it and is admitted; the theorems on
    runs and on the test client are applied to it.
  \<^item> \<open>Powcli\<close>: \<^verbatim>\<open>src/test/tools/powcli/main.go\<close>, the test client, with its search for a nonce, which need
    not return: \<open>solvePoW_result\<close> says when it does and with what.
  \<^item> This theory: what a client sees, across the components. A refused client that solves its
    challenge is admitted and gets a clearance; the clearance admits its address until it expires;
    what the page answers and what the test client prints is admitted.

  \<^bold>\<open>Interfaces.\<close> A contract that several operations share, or that one component relies on, is a locale,
  interpreted by the definitions of the code that provide it; the properties use the facts of the
  interpretations.

  \<^item> \<open>text_codec\<close> (\<open>Go_Encoding\<close>): an encoding whose text avoids the separators of tokens and cookies;
    by base64.
  \<^item> \<open>keyed_mac\<close> (\<open>Sha256\<close>): a reusable digester; by the HMAC object.
  \<^item> \<open>rounding\<close> (\<open>Go_Float\<close>): rounding to a nearest number of a format; by that to binary64.
  \<^item> \<open>prefix_codec\<close> and \<open>counted_codec\<close> (\<open>Ipintel_Format\<close>): an encoding that a reader takes off the front
    of its input, and a loop that reads a number of them; by the strings and the records of the file.
  \<^item> \<open>block_index\<close> (\<open>Ipintel_Lookup\<close>): an index whose entries may only skip what does not matter; by the
    block index and the scan of a lookup.
  \<^item> \<open>attempt\<close> and \<open>two_attempts\<close> (\<open>Admission\<close>): a step of the handler that succeeds exactly if some proof
    holds, and otherwise changes only the digester, and two such steps in a row; by the attempts at a
    clearance and at the two kinds of solutions.
  \<^item> \<open>gate_simulation\<close> (\<open>Gate_Spec\<close>): a system of events that the abstract gate simulates, which has the
    gate's guarantee; by the runs of the plugin.

  \<^bold>\<open>Parameters.\<close> The proxy's headers and properties, the clock at each of its reads, the random
  source, the outcome of shared-data writes, gjson, the zstd decoder, \<open>atob\<close>, the accepted syntax of times in
  the manifest, \<open>strings.ToLower\<close> outside ASCII, and the order of iteration over a Go map, \<open>os.ReadFile\<close>. Nothing is
  assumed about them beyond the hypotheses of a theorem.

  \<^bold>\<open>Bounds.\<close> Go's \<open>int\<close>, \<open>uint\<close> and the times in seconds are 64-bit words and wrap. Every loop is a
  total recursion: over the rest of the input, or with a measure (the scanner of cookies, the loop
  over bits), except the JSON parser, which gets two units of fuel for each byte and two more;
  \<open>json_fuel_enough\<close> in \<open>Go_Json\<close> shows that any larger amount gives the same result, and the search of
  the test client, a partial function. Floating-point numbers are finite and exact
  rationals, rounded to binary64 after each operation; \<open>scoreEvidence_order\<close> bounds what that does to
  a score.

  \<^bold>\<open>Not modelled.\<close> Logging, the registration of the VM context and of the tick period; \<open>Close\<close> of the
  database, which releases the decoder; the display, the timers and the reload of the challenge
  page; the flags and the usage text of the test client; tests, scripts and deployment.
\<close>

section \<open>Properties\<close>

text \<open>C1: A browser gets in by solving its challenge. Let a plugin with consistent difficulties refuse a
  request with a challenge. If the client then sends the challenge and its signature back as
  cookies, with a decimal nonce and whatever other cookies it has, to any VM with the same secret
  that sees it under the same identity, the solution is accepted exactly if it comes within sixty
  seconds and the nonce solves the challenge at a difficulty between the configured bounds. When
  it is accepted for a protected resource, the request continues and the response sets a
  clearance for the client's address, which is signed with the secret and lasts thirty minutes.\<close>

theorem solved_challenge_grants_clearance:
  assumes "diff_ok p" and "OnHttpRequestHeaders gw shared req p ctx = (p', ctx', Respond r)"
    and "lr_headers r = challenge_headers ch (requestIsHTTPS req)"
    and "json_plain (ConnID (request_client p req))"
    and "hmac_secret (p_mac q) = hmac_secret (p_mac p)" and "request_client q req2 = request_client p req"
    and "header_or_empty req2 ''cookie'' = render_cookies (others @ solved_cookies ch nonce)"
    and "list_all plain_cookie others" and "''challenge-clearance'' \<notin> fst ` set others"
    and "protected_request gw req2 q" and "mint_rand env 16 = Some salt"
  shows "(\<exists>d. p_minDifficulty p \<le> d \<and> d \<le> p_maxDifficulty p \<and>
     (cookie_solution q req2 \<longleftrightarrow> req_clock req2 CookieClock \<le>s req_clock req IssueClock + 60
        \<and> hasLeadingZeroBits (pow_hash (the (b64_decode (Challenge ch))) nonce) d)) \<and>
     (if cookie_solution q req2 then
       (case OnHttpRequestHeaders gw shared2 req2 q (NewHttpContext q cid) of (q', ctx2, out) \<Rightarrow>
          out = Continue \<and> snd (OnHttpResponseHeaders env env' q' ctx2) =
            issued_headers (minted_token (hmac_secret (p_mac p)) (mint_clock env) salt (IP (request_client p req)))
              (requestIsHTTPS req2) @ configured_headers q)
      else True)"
proof -
  let ?k = "hmac_secret (p_mac p)" and ?c = "request_client p req"
  obtain salt0 d where ch0: "lr_headers r = challenge_headers (issued_challenge ?k (req_clock req IssueClock) salt0 d ?c)
      (requestIsHTTPS req)" and d: "p_minDifficulty p \<le> d" "d \<le> p_maxDifficulty p"
    using refused_spec [OF assms(1), where gw = gw and shared = shared and req = req and ctx = ctx] assms(2) by auto
  then have ch: "ch = issued_challenge ?k (req_clock req IssueClock) salt0 d (request_client q req2)"
    using assms(3) challenge_headers_inj unfolding assms(6) by metis
  have "1 \<le> d" using d(1) assms(1) order.trans by (auto simp: diff_ok_def diff_config_ok_def)
  then have nz: "d \<noteq> 0" by auto
  note sr = solved_request [OF assms(7-9) ch assms(5) _ nz]
  have conn: "json_plain (ConnID (request_client q req2))" using assms(4,6) by simp
  have cb: "the (b64_decode (Challenge ch)) = issued_bytes (req_clock req IssueClock) salt0 d (request_client q req2)"
    by (simp add: ch issued_challenge_def Let_def)
  have e: "cookie_solution q req2 \<longleftrightarrow> req_clock req2 CookieClock \<le>s req_clock req IssueClock + 60
        \<and> hasLeadingZeroBits (pow_hash (the (b64_decode (Challenge ch))) nonce) d"
    unfolding cb by (rule sr(1) [OF conn])
  have "case OnHttpRequestHeaders gw shared2 req2 q (NewHttpContext q cid) of (q', ctx2, out) \<Rightarrow>
          out = Continue \<and> snd (OnHttpResponseHeaders env env' q' ctx2) =
            issued_headers (minted_token ?k (mint_clock env) salt (IP ?c)) (requestIsHTTPS req2) @ configured_headers q"
    if s: "cookie_solution q req2"
  proof -
    obtain q' ctx2 out where h: "OnHttpRequestHeaders gw shared2 req2 q (NewHttpContext q cid) = (q', ctx2, out)"
      by (metis prod_cases3)
    have "out = Continue"
      using OnHttpRequestHeaders_cases [of q gw shared2 req2 "NewHttpContext q cid"] h s by (auto split: if_splits)
    moreover have "hmac_secret (p_mac q') = ?k"
      using keeps_OnHttpRequestHeaders [OF h] config_of_fields(12) [of q' q] assms(5) by (simp add: keeps_def)
    ultimately show ?thesis
      using response_to_request [where gw = gw and shared = shared2 and req = req2 and p = q and cid = cid
          and env = env and env' = env' and q = q'] h s assms(6,10,11) sr(2,3) [OF conn]
      by (simp add: granted_headers_def)
  qed
  then show ?thesis using e d by auto
qed

theorem solved_challenge_grants_clearance_witness:
  "\<exists>p' ctx' r ch. OnHttpRequestHeaders example_gateway (\<lambda>_. None) example_request guarded_plugin
       (NewHttpContext guarded_plugin 1) = (p', ctx', Respond r)
     \<and> (\<exists>req2 d. header_or_empty req2 ''cookie'' = render_cookies (solved_cookies ch 7) \<and> d \<le> 26
       \<and> (cookie_solution guarded_plugin req2 \<longleftrightarrow>
            hasLeadingZeroBits (pow_hash (the (b64_decode (Challenge ch))) 7) d))"
proof -
  obtain p' ctx' r where o: "OnHttpRequestHeaders example_gateway (\<lambda>_. None) example_request guarded_plugin
     (NewHttpContext guarded_plugin 1) = (p', ctx', Respond r)" using example_refused by blast
  obtain ch where ch: "lr_headers r = challenge_headers ch (requestIsHTTPS example_request)"
    using refused_spec [OF guarded_diff_ok, where gw = example_gateway and shared = "\<lambda>_. None" and req = example_request
        and ctx = "NewHttpContext guarded_plugin 1"] o by auto
  let ?req2 = "example_request\<lparr>req_header := (\<lambda>n. if n = ''cookie'' then Some (render_cookies (solved_cookies ch 7)) else None)\<rparr>"
  let ?env = "\<lparr>mint_clock = 0, mint_rand = (\<lambda>_. Some [])\<rparr>"
  have cl: "request_client guarded_plugin ?req2 = request_client guarded_plugin example_request"
    by (simp add: resolveClientContext_def resolveClientIP_def peerIP_def forwardedIP_def realIP_def
        resolveConnectionID_def example_request_def)
  have conn: "json_plain (ConnID (request_client guarded_plugin example_request))"
    by (simp add: resolveClientContext_def resolveConnectionID_def example_request_def)
  have ck: "header_or_empty ?req2 ''cookie'' = render_cookies (solved_cookies ch 7)"
    by (simp add: header_or_empty_def)
  then have ck': "header_or_empty ?req2 ''cookie'' = render_cookies ([] @ solved_cookies ch 7)" by simp
  have pr: "protected_request example_gateway ?req2 guarded_plugin"
    by (simp add: protected_request_def guarded_plugin_def)
  have rnd: "mint_rand ?env 16 = Some []" by simp
  have max: "p_maxDifficulty guarded_plugin = 26" and t: "(1000 :: int64) \<le>s 1000 + 60"
    by (simp_all add: guarded_plugin_def example_plugin_def word_sle_eq)
  obtain d where "d \<le> 26" "cookie_solution guarded_plugin ?req2 \<longleftrightarrow> req_clock ?req2 CookieClock \<le>s req_clock example_request IssueClock + 60
        \<and> hasLeadingZeroBits (pow_hash (the (b64_decode (Challenge ch))) 7) d"
    using solved_challenge_grants_clearance [OF guarded_diff_ok o ch conn refl cl ck' _ _ pr rnd, THEN conjunct1] max by auto
  then show ?thesis using o ck t by (intro exI conjI) (auto simp: example_request_def)
qed

text \<open>C4: A clearance opens exactly its address's requests. For a request whose cookies contain a clearance
  minted at \<open>now\<close> for an address, under the plugin's secret, the clearance is valid exactly for
  thirty minutes and for a client with that address or with no known one, and renewable after that
  exactly within the sliding window; in both cases the request continues, whatever is protected.\<close>

theorem minted_clearance_admits:
  assumes "header_or_empty req ''cookie'' = render_cookies (others @ clearance_cookie (minted_token k now salt ip))"
    and "list_all plain_cookie others" and "hmac_secret (p_mac p) = k"
  shows "let client = resolveClientIP (p_clientIPSource p) req;
           own = (client = [] \<or> client = ip); clock = req_clock req ClearanceClock
     in valid_clearance p req = (own \<and> clock \<le>s now + 1800)
      \<and> renewable_clearance p req = (own \<and> shouldRenewClearance (now + 1800) clock (p_slidingRenewalTTL p))
      \<and> (if own \<and> (clock \<le>s now + 1800 \<or> shouldRenewClearance (now + 1800) clock (p_slidingRenewalTTL p))
         then snd (snd (OnHttpRequestHeaders gw shared req p ctx)) = Continue else True)"
proof -
  let ?client = "resolveClientIP (p_clientIPSource p) req"
  have v: "valid_clearance p req = ((?client = [] \<or> ?client = ip) \<and> req_clock req ClearanceClock \<le>s now + 1800)"
    and r: "renewable_clearance p req = ((?client = [] \<or> ?client = ip)
      \<and> shouldRenewClearance (now + 1800) (req_clock req ClearanceClock) (p_slidingRenewalTTL p))"
    using clearance_request [OF assms]
    by (auto simp: valid_clearance_def renewable_clearance_def ClearanceLifetime_def Let_def)
  have "snd (snd (OnHttpRequestHeaders gw shared req p ctx)) = Continue" if "valid_clearance p req \<or> renewable_clearance p req"
    using OnHttpRequestHeaders_cases [of p gw shared req ctx] that by auto
  then show ?thesis using v r by (auto simp: Let_def)
qed

theorem minted_clearance_admits_witness:
  "\<exists>req. header_or_empty req ''cookie'' = render_cookies (clearance_cookie (minted_token [] 1000 [] []))
     \<and> valid_clearance guarded_plugin req
     \<and> snd (snd (OnHttpRequestHeaders example_gateway (\<lambda>_. None) req guarded_plugin (NewHttpContext guarded_plugin 2))) = Continue"
proof -
  let ?req = "example_request\<lparr>req_header := (\<lambda>n. if n = ''cookie''
      then Some (render_cookies (clearance_cookie (minted_token [] 1000 [] []))) else None)\<rparr>"
  have ck: "header_or_empty ?req ''cookie'' = render_cookies (clearance_cookie (minted_token [] 1000 [] []))"
    by (simp add: header_or_empty_def)
  then have ck': "header_or_empty ?req ''cookie'' = render_cookies ([] @ clearance_cookie (minted_token [] 1000 [] []))" by simp
  have k: "hmac_secret (p_mac guarded_plugin) = []"
    by (simp add: guarded_plugin_def example_plugin_def NewPluginContext_def)
  have "resolveClientIP (p_clientIPSource guarded_plugin) ?req = []"
    by (simp add: resolveClientIP_def peerIP_def forwardedIP_def realIP_def example_request_def)
  moreover have "req_clock ?req ClearanceClock \<le>s 1000 + 1800" by (simp add: example_request_def word_sle_eq)
  ultimately show ?thesis
    using minted_clearance_admits [OF ck' _ k, where gw = example_gateway and shared = "\<lambda>_. None"
        and ctx = "NewHttpContext guarded_plugin 2"] ck
    by (intro exI [of _ ?req]) (auto simp: Let_def)
qed

section \<open>The page\<close>

text \<open>C3: The page gets its browser in. Let a plugin with consistent difficulties, of at most 256 bits, refuse
  a request with a challenge, and let the script of the page see cookies, no two with one name, of
  which two are the challenge and its signature. Then the script either has tried all its nonces
  and none of them solves the challenge, at a difficulty between the configured bounds; or it adds
  a nonce to its cookies with which every request continues that a VM with the same secret sees
  under the same identity within the sixty seconds.\<close>

theorem page_gets_in:
  assumes "diff_ok p" and "OnHttpRequestHeaders gw shared req p ctx = (p', ctx', Respond r)"
    and "lr_headers r = challenge_headers ch (requestIsHTTPS req)"
    and "json_plain (ConnID (request_client p req))" and "unat (p_maxDifficulty p) \<le> 256"
    and "hmac_secret (p_mac q) = hmac_secret (p_mac p)" and "request_client q req2 = request_client p req"
    and "\<And>bs. atob (std_b64 bs) = Some bs"
    and "list_all plain_cookie ps" "distinct (map fst ps)" "''challenge-clearance'' \<notin> fst ` set ps"
    and "(''challenge'', Challenge ch) \<in> set ps" "(''challenge-sig'', Signature ch) \<in> set ps"
    and "req_clock req2 CookieClock \<le>s req_clock req IssueClock + 60"
  shows "\<exists>d. p_minDifficulty p \<le> d \<and> d \<le> p_maxDifficulty p \<and>
     (case page_solve atob (render_cookies ps) of
        Inl e \<Rightarrow> e = CouldNotSolve
          \<and> {n. unat n < 80000000 \<and> hasLeadingZeroBits (pow_hash (the (b64_decode (Challenge ch))) n) d} = {}
      | Inr sol \<Rightarrow>
          if header_or_empty req2 ''cookie'' = render_cookies (page_cookies ps sol)
          then snd (snd (OnHttpRequestHeaders gw sh req2 q x)) = Continue else True)"
proof -
  let ?k = "hmac_secret (p_mac p)" and ?c = "request_client p req" and ?t = "req_clock req IssueClock"
  obtain salt d where ch0: "lr_headers r = challenge_headers (issued_challenge ?k ?t salt d ?c) (requestIsHTTPS req)"
    and d: "p_minDifficulty p \<le> d" "d \<le> p_maxDifficulty p"
    using refused_spec [OF assms(1), where gw = gw and shared = shared and req = req and ctx = ctx] assms(2) by auto
  then have ch: "ch = issued_challenge ?k ?t salt d ?c" using assms(3) challenge_headers_inj by metis
  have "1 \<le> d" using d(1) assms(1) order.trans by (auto simp: diff_ok_def diff_config_ok_def)
  then have nz: "d \<noteq> 0" by auto
  have d256: "unat d \<le> 256" using d(2) assms(5) by (simp add: word_le_nat_alt)
  let ?raw = "issued_bytes ?t salt d ?c"
  have raw: "the (b64_decode (Challenge ch)) = ?raw" by (simp add: ch issued_challenge_def Let_def)
  note solve = page_solve_issued [OF ch canonical_plain [OF client_canonical] assms(4) nz d256 assms(8-10,12,13)]
  have "snd (snd (OnHttpRequestHeaders gw sh req2 q x)) = Continue"
    if f: "find (\<lambda>n. hasLeadingZeroBits (pow_hash ?raw n) d) page_nonces = Some n"
      and h: "header_or_empty req2 ''cookie'' = render_cookies (page_cookies ps (solution_of ch n))" for n
  proof -
    have n: "hasLeadingZeroBits (pow_hash ?raw n) d" using f by (auto simp: find_Some_iff)
    have "request_cookies req2 = \<lparr>ck_clearance = [], ck_challenge = Challenge ch, ck_signature = Signature ch,
        ck_nonce = FormatUint n\<rparr>"
      using page_cookies_request [OF assms(9-11), of "solution_of ch n"] assms(12,13) h by (simp add: request_cookies_def)
    from answered_request(1) [OF this ch [folded assms(7)] assms(6) _ nz]
    have "cookie_solution q req2" using n assms(4,7,14) by simp
    then show ?thesis using OnHttpRequestHeaders_cases [of q gw sh req2 x] by auto
  qed
  moreover have "{n. unat n < 80000000 \<and> hasLeadingZeroBits (pow_hash ?raw n) d} = {}"
    if "find (\<lambda>n. hasLeadingZeroBits (pow_hash ?raw n) d) page_nonces = None"
    using that page_nonces_set by (auto simp: find_None_iff)
  ultimately show ?thesis
    using d unfolding solve raw by (intro exI [of _ d]) (auto split: option.split)
qed

text \<open>A decoder as the browser's, on what \<open>btoa\<close> writes.\<close>

definition sample_atob :: "string \<Rightarrow> bytes option" where
  "sample_atob s = b64_decode (map (\<lambda>c. if c = CHR ''+'' then CHR ''-'' else if c = CHR ''/'' then CHR ''_'' else c)
     (takeWhile (\<lambda>c. c \<noteq> CHR ''='') s))"

lemma sample_atob: "sample_atob (std_b64 bs) = Some bs"
proof -
  let ?e = "b64_encode bs"
  have "\<not> is_b64 CHR ''+''" "\<not> is_b64 CHR ''/''" by (simp_all add: is_b64_def b64_alphabet_def)
  then have c: "c \<noteq> CHR ''='' \<and> c \<noteq> CHR ''+'' \<and> c \<noteq> CHR ''/''" if "c \<in> set ?e" for c
    using that b64_encode_is_b64 [of bs] by (auto simp: list_all_iff)
  have "takeWhile (\<lambda>c. c \<noteq> CHR ''='') (map url_to_std ?e @ replicate n CHR ''='') = map url_to_std ?e" for n
    using c by (subst takeWhile_append2) (auto simp: url_to_std_def)
  moreover have "map ((\<lambda>c. if c = CHR ''+'' then CHR ''-'' else if c = CHR ''/'' then CHR ''_'' else c) \<circ> url_to_std) ?e = ?e"
    using c by (intro map_idI) (auto simp: url_to_std_def)
  ultimately show ?thesis by (simp add: sample_atob_def std_b64_def Let_def)
qed

theorem page_gets_in_witness:
  "\<exists>sol. page_solve sample_atob (render_cookies [(''challenge'', Challenge sample_challenge), (''challenge-sig'', Signature sample_challenge)])
       = Inr sol
     \<and> snd (snd (OnHttpRequestHeaders example_gateway (\<lambda>_. None) (sample_request (render_cookies (page_cookies
         [(''challenge'', Challenge sample_challenge), (''challenge-sig'', Signature sample_challenge)] sol)))
         secret_plugin (NewHttpContext secret_plugin 8))) = Continue"
proof -
  let ?ps = "[(''challenge'', Challenge sample_challenge), (''challenge-sig'', Signature sample_challenge)]"
  obtain p' y lr where o: "OnHttpRequestHeaders example_gateway (\<lambda>_. None) (sample_request []) secret_plugin
       (NewHttpContext secret_plugin 7) = (p', y, Respond lr)"
    and lr: "lr_headers lr = challenge_headers sample_challenge (requestIsHTTPS (sample_request []))"
    using sample_refused by blast
  have ok: "diff_ok secret_plugin" by (simp add: diff_ok_def diff_config_ok_def secret_plugin_fields)
  have c: "request_client secret_plugin (sample_request cookies) = sample_client" for cookies
    by (simp add: secret_plugin_fields sample_request_client)
  have conn: "json_plain (ConnID (request_client secret_plugin (sample_request [])))" unfolding c by (simp add: sample_client_def)
  have max: "unat (p_maxDifficulty secret_plugin) \<le> 256" by (simp add: secret_plugin_fields)
  have same: "request_client secret_plugin (sample_request l) = request_client secret_plugin (sample_request [])" for l
    unfolding c ..
  have ps: "list_all plain_cookie ?ps" "distinct (map fst ?ps)" "''challenge-clearance'' \<notin> fst ` set ?ps"
    "(''challenge'', Challenge sample_challenge) \<in> set ?ps" "(''challenge-sig'', Signature sample_challenge) \<in> set ?ps"
    using b64_plain_cookie by (simp_all add: sample_challenge_def issued_challenge_def Let_def)
  have t: "req_clock (sample_request cookies) CookieClock \<le>s req_clock (sample_request []) IssueClock + 60" for cookies
    by (simp add: sample_request_fields word_sle_eq)
  note gets_in = page_gets_in [OF ok o lr conn max refl same sample_atob ps t, where sh = "\<lambda>_. None"
      and x = "NewHttpContext secret_plugin 8"]
  have ch: "sample_challenge = issued_challenge secret_key 0 [] 1 sample_client" by (rule sample_challenge_def)
  note solve = page_solve_issued [OF ch _ _ _ _ sample_atob ps(1,2,4,5)]
  have "find (\<lambda>n. hasLeadingZeroBits (pow_hash (issued_bytes 0 [] 1 sample_client) n) 1) page_nonces \<noteq> None"
    using sample_solved page_nonces_set [of 1] by (auto simp: find_None_iff)
  then obtain n where "find (\<lambda>n. hasLeadingZeroBits (pow_hash (issued_bytes 0 [] 1 sample_client) n) 1) page_nonces = Some n"
    by blast
  then have sol: "page_solve sample_atob (render_cookies ?ps) = Inr (solution_of sample_challenge n)"
    using conn by (subst solve) (simp_all add: sample_client_def json_plain_char_def char_code_def c)
  then show ?thesis
    using gets_in [of "render_cookies (page_cookies ?ps (solution_of sample_challenge n))"] by (auto simp: sample_request_fields)
qed

section \<open>The test client\<close>

lemma b64_json_plain: "json_plain (Challenge (issued_challenge k now salt d c))" "json_plain (Signature (issued_challenge k now salt d c))"
  by (simp_all add: issued_challenge_def Let_def)

lemma powcli_cookies:
  assumes "ch = issued_challenge k now salt d c"
  shows "powcli_getCookie (render_cookies [(''challenge'', Challenge ch), (''challenge-sig'', Signature ch)]) ''challenge'' = Challenge ch"
    and "powcli_getCookie (render_cookies [(''challenge'', Challenge ch), (''challenge-sig'', Signature ch)]) ''challenge-sig'' = Signature ch"
proof -
  have "list_all plain_cookie [(''challenge'', Challenge ch), (''challenge-sig'', Signature ch)]"
    using b64_plain_cookie by (simp add: assms issued_challenge_def Let_def)
  note g = getCookie_render [OF this]
  show "powcli_getCookie (render_cookies [(''challenge'', Challenge ch), (''challenge-sig'', Signature ch)]) ''challenge'' = Challenge ch"
    unfolding powcli_getCookie_eq by (subst g) (simp_all add: visible_def char_code_def)
  show "powcli_getCookie (render_cookies [(''challenge'', Challenge ch), (''challenge-sig'', Signature ch)]) ''challenge-sig'' = Signature ch"
    unfolding powcli_getCookie_eq by (subst g) (simp_all add: visible_def char_code_def)
qed

text \<open>What \<open>cmdSolveCookies\<close> does with an issued challenge whose search succeeds.\<close>

lemma powcli_solves_issued:
  assumes "ch = issued_challenge k t0 salt d c" and "json_plain (IP c)" "json_plain (ConnID c)"
    and "k = bytes_of secret" "32 \<le> length secret" and "solvePoW (Challenge ch) maxNonce = Some (Inr n)"
    and "now \<le>s t0 + 60"
  shows "hasLeadingZeroBits (pow_hash (issued_bytes t0 salt d c) n) (if d < 1 then DefaultDifficulty else d)"
    and "cmdSolveCookies now secret (render_cookies [(''challenge'', Challenge ch), (''challenge-sig'', Signature ch)]) maxNonce
       = Some (Inr (printSolution (Challenge ch) (Signature ch) n))"
proof -
  let ?pl = "issued_payload t0 salt d c"
  have b: "b64_decode (Challenge ch) = Some (issued_bytes t0 salt d c)"
    "b64_decode (Signature ch) = Some (hmac_sha256 k (bytes_of (Challenge ch)))" "Challenge ch \<noteq> []" "Signature ch \<noteq> []"
    by (simp_all add: assms(1) issued_challenge_def issued_bytes_def Let_def)
  have u: "ChallengePayload_Unmarshal (string_of (issued_bytes t0 salt d c)) = Some ?pl"
    using payload_roundtrip [of ?pl] assms(2,3) by (simp add: issued_bytes_def plain_payload_def) (simp add: issued_payload_def)
  have s: "hasLeadingZeroBits (pow_hash (issued_bytes t0 salt d c) n) (Difficulty ?pl)"
    using solvePoW_solves [OF assms(6)] b u by auto
  then show "hasLeadingZeroBits (pow_hash (issued_bytes t0 salt d c) n) (if d < 1 then DefaultDifficulty else d)"
    by (simp add: issued_payload_def)
  have "\<not> Expiry ?pl <s now" using assms(7) by (simp add: issued_payload_def ChallengeLifetime_def word_sle_eq word_sless_alt)
  then have "powcli_verifySolution now k (Challenge ch) (Signature ch) n = None"
    unfolding powcli_verify_None using b u s by blast
  moreover have "render_cookies [(''challenge'', Challenge ch), (''challenge-sig'', Signature ch)] \<noteq> []" by simp
  ultimately show "cmdSolveCookies now secret (render_cookies [(''challenge'', Challenge ch), (''challenge-sig'', Signature ch)]) maxNonce
       = Some (Inr (printSolution (Challenge ch) (Signature ch) n))"
    using assms(4-6) powcli_cookies [OF assms(1)] b(3,4)
    by (simp only: cmdSolveCookies_def solve_and_print_def MinSecretLen_def) (simp add: Let_def)
qed

text \<open>C2: The test client gets in. Given the two cookies of a refusal, a secret that is the plugin's, and a
  bound on nonces below which its search finds one, \<open>powcli solve-cookies\<close> prints a token and a
  line of cookies within the sixty seconds of the challenge; and every request that the plugin sees
  within that time under the same identity, with the token in its header or the line as its
  cookies, continues.\<close>

theorem powcli_is_admitted:
  assumes "diff_ok p" and "OnHttpRequestHeaders gw shared req p ctx = (p', ctx', Respond r)"
    and "lr_headers r = challenge_headers ch (requestIsHTTPS req)"
    and "json_plain (ConnID (request_client p req))"
    and "hmac_secret (p_mac q) = hmac_secret (p_mac p)" and "request_client q req2 = request_client p req"
    and "hmac_secret (p_mac p) = bytes_of secret" and "32 \<le> length secret"
    and "solvePoW (Challenge ch) maxNonce = Some (Inr n)"
    and "now \<le>s req_clock req IssueClock + 60"
    and "req_clock req2 CookieClock \<le>s req_clock req IssueClock + 60"
    and "req_clock req2 TokenClock \<le>s req_clock req IssueClock + 60"
  shows "\<exists>token line. cmdSolveCookies now secret
        (render_cookies [(''challenge'', Challenge ch), (''challenge-sig'', Signature ch)]) maxNonce = Some (Inr (token, line))
     \<and> (if header_or_empty req2 ''challenge-token'' = token \<or> header_or_empty req2 ''cookie'' = line
        then snd (snd (OnHttpRequestHeaders gw sh req2 q x)) = Continue else True)"
proof -
  let ?k = "hmac_secret (p_mac p)" and ?c = "request_client p req" and ?t = "req_clock req IssueClock"
  obtain salt d where ch0: "lr_headers r = challenge_headers (issued_challenge ?k ?t salt d ?c) (requestIsHTTPS req)"
    and d: "p_minDifficulty p \<le> d"
    using refused_spec [OF assms(1), where gw = gw and shared = shared and req = req and ctx = ctx] assms(2) by auto
  then have ch: "ch = issued_challenge ?k ?t salt d ?c" using assms(3) challenge_headers_inj by metis
  have "1 \<le> d" using d assms(1) order.trans by (auto simp: diff_ok_def diff_config_ok_def)
  then have nz: "d \<noteq> 0" by auto
  have ip: "json_plain (IP ?c)" using canonical_plain [OF client_canonical] .
  note p = powcli_solves_issued [OF ch ip assms(4,7,8,9,10)]
  let ?out = "printSolution (Challenge ch) (Signature ch) n"
  have "cookie_solution q req2" if line: "header_or_empty req2 ''cookie'' = snd ?out"
  proof -
    have "header_or_empty req2 ''cookie'' = render_cookies ([] @ solved_cookies ch n)"
      using line by (simp add: printSolution_line solved_cookies_def)
    from solved_request(1) [OF this _ _ ch [folded assms(6)] assms(5) _ nz]
    show ?thesis using p(1) nz assms(4,6,11) by (simp add: word_less_1)
  qed
  moreover have "token_solution q req2" if token: "header_or_empty req2 ''challenge-token'' = fst ?out"
  proof -
    have "Solution_Unmarshal (header_or_empty req2 ''challenge-token'') = Some (solution_of ch n)"
      unfolding token by (subst printSolution_token)
        (simp_all add: ch b64_json_plain solution_of_def SignedChallenge.defs Solution.defs)
    moreover have "snd (verifySolutionMAC (req_clock req2 TokenClock) (p_mac q) [] (solution_of ch n) (request_client q req2)) = None"
      unfolding ch assms(6) using verify_issued [OF ip assms(4,5), of "req_clock req2 TokenClock" ?t salt d n ?c] p(1) assms(12)
      by (simp add: ChallengeLifetime_def matchChallengeContext_None word_sle_eq word_sless_alt)
    moreover have "header_or_empty req2 ''challenge-token'' \<noteq> []"
      unfolding token by (simp add: printSolution_def json_object_def)
    ultimately show ?thesis by (simp add: token_solution_def solves_def)
  qed
  ultimately have "snd (snd (OnHttpRequestHeaders gw sh req2 q x)) = Continue"
    if "header_or_empty req2 ''challenge-token'' = fst ?out \<or> header_or_empty req2 ''cookie'' = snd ?out"
    using OnHttpRequestHeaders_cases [of q gw sh req2 x] that by auto
  then show ?thesis using p(2) by (intro exI [of _ "fst ?out"] exI [of _ "snd ?out"]) auto
qed

theorem powcli_is_admitted_witness:
  "\<exists>token line. cmdSolveCookies 30 (replicate 32 CHR ''k'')
        (render_cookies [(''challenge'', Challenge sample_challenge), (''challenge-sig'', Signature sample_challenge)]) 9
      = Some (Inr (token, line))
     \<and> snd (snd (OnHttpRequestHeaders example_gateway (\<lambda>_. None) (sample_request line) secret_plugin
         (NewHttpContext secret_plugin 8))) = Continue"
proof -
  obtain p' y lr where o: "OnHttpRequestHeaders example_gateway (\<lambda>_. None) (sample_request []) secret_plugin
       (NewHttpContext secret_plugin 7) = (p', y, Respond lr)"
    and lr: "lr_headers lr = challenge_headers sample_challenge (requestIsHTTPS (sample_request []))"
    using sample_refused by blast
  have ok: "diff_ok secret_plugin" by (simp add: diff_ok_def diff_config_ok_def secret_plugin_fields)
  let ?raw = "issued_bytes 0 [] 1 sample_client" and ?pl = "issued_payload 0 [] 1 sample_client"
  have b: "b64_decode (Challenge sample_challenge) = Some ?raw"
    by (simp add: sample_challenge_def issued_challenge_def Let_def)
  have u: "ChallengePayload_Unmarshal (string_of ?raw) = Some ?pl"
    using payload_roundtrip [of ?pl]
    by (simp add: issued_bytes_def plain_payload_def issued_payload_def sample_client_def json_plain_char_def char_code_def)
  obtain n where "solve_loop ?raw 1 9 0 = Some (Some n)"
    using solve_loop_finds [OF sample_solved, of 0 9] by auto
  then have s: "solvePoW (Challenge sample_challenge) 9 = Some (Inr n)"
    by (simp add: solvePoW_def b u) (simp add: issued_payload_def)
  have c: "request_client secret_plugin (sample_request cookies) = sample_client" for cookies
    by (simp add: secret_plugin_fields sample_request_client)
  have conn: "json_plain (ConnID (request_client secret_plugin (sample_request [])))" unfolding c by (simp add: sample_client_def)
  have len: "32 \<le> length (replicate 32 CHR ''k'')" by simp
  have key: "secret_key = bytes_of (replicate 32 CHR ''k'')" by (rule secret_plugin_fields)
  have t: "(30 :: int64) \<le>s req_clock (sample_request []) IssueClock + 60"
    "req_clock (sample_request cookies) clk \<le>s req_clock (sample_request []) IssueClock + 60" for cookies clk
    by (simp_all add: sample_request_fields word_sle_eq)
  have same: "request_client secret_plugin (sample_request l) = request_client secret_plugin (sample_request [])" for l
    unfolding c ..
  note adm = powcli_is_admitted [OF ok o lr conn refl same key len s t(1) t(2) t(2), where sh = "\<lambda>_. None" and x = "NewHttpContext secret_plugin 8"]
  obtain token line where out: "cmdSolveCookies 30 (replicate 32 CHR ''k'')
      (render_cookies [(''challenge'', Challenge sample_challenge), (''challenge-sig'', Signature sample_challenge)]) 9
      = Some (Inr (token, line))" using adm [of "[]"] by blast
  with adm [of line] show ?thesis by (auto simp: sample_request_fields)
qed

end
